(* ===== verification/Prelude.thy ===== *)
theory Prelude
  imports
    Main
    "HOL-Library.Word"
    "HOL-Library.Monad_Syntax"
    "HOL-Library.Signed_Division"
    "HOL-Library.Multiset"
begin

text \<open>
  The shared vocabulary of the development: the machine integer types of the Go code, panics as
  \<^term>\<open>None\<close>, a small weakest-precondition calculus for code that may panic, Go's checked slice
  indexing and generic lemmas on lists and words.
\<close>

unbundle bit_operations_syntax

section \<open>Machine integers\<close>

type_synonym u8 = "8 word"
type_synonym u32 = "32 word"
type_synonym u64 = "64 word"

text \<open>The value of an \<open>int\<close> (64 bits) after arithmetic that may overflow.\<close>

definition wrap64 :: "int \<Rightarrow> int" where
  "wrap64 x = sint (word_of_int x :: u64)"

lemma wrap64_id: "- (2 ^ 63) \<le> x \<Longrightarrow> x < 2 ^ 63 \<Longrightarrow> wrap64 x = x"
  by (simp add: wrap64_def signed_of_int signed_take_bit_int_eq_self)

named_theorems opost_rules "weakest-precondition rules for code that may panic"

section \<open>Code that may panic\<close>

text \<open>
  A Go function that may panic is modelled by an \<^typ>\<open>'a option\<close> result: \<^term>\<open>None\<close> is the panic.
  \<open>opost m P\<close> says that \<open>m\<close> does not panic and that its result satisfies \<open>P\<close> (total correctness);
  \<open>oall m P\<close> says that \<open>P\<close> holds of the result if there is one.
\<close>

definition opost :: "'a option \<Rightarrow> ('a \<Rightarrow> bool) \<Rightarrow> bool" where
  "opost m P = (case m of None \<Rightarrow> False | Some x \<Rightarrow> P x)"

definition oall :: "'a option \<Rightarrow> ('a \<Rightarrow> bool) \<Rightarrow> bool" where
  "oall m P = (case m of None \<Rightarrow> True | Some x \<Rightarrow> P x)"

lemma opost_simps [simp, opost_rules]:
  "opost None P = False"
  "opost (Some x) P = P x"
  by (simp_all add: opost_def)

lemma oall_simps [simp, opost_rules]:
  "oall None P = True"
  "oall (Some x) P = P x"
  by (simp_all add: oall_def)

lemma opost_bind [opost_rules]: "opost (Option.bind m f) P = opost m (\<lambda>x. opost (f x) P)"
  by (cases m) simp_all

lemma oall_bind [opost_rules]: "oall (Option.bind m f) P = oall m (\<lambda>x. oall (f x) P)"
  by (cases m) simp_all

lemma opost_mono: "opost m P \<Longrightarrow> (\<And>x. m = Some x \<Longrightarrow> P x \<Longrightarrow> Q x) \<Longrightarrow> opost m Q"
  by (cases m) simp_all

lemma oall_mono: "oall m P \<Longrightarrow> (\<And>x. m = Some x \<Longrightarrow> P x \<Longrightarrow> Q x) \<Longrightarrow> oall m Q"
  by (cases m) simp_all

lemma oallI: "(\<And>x. m = Some x \<Longrightarrow> P x) \<Longrightarrow> oall m P"
  by (cases m) simp_all

lemma opost_iff: "opost m P \<longleftrightarrow> (\<exists>x. m = Some x \<and> P x)"
  by (cases m) simp_all

lemma bind_eq_SomeE:
  assumes "Option.bind m f = Some y"
  obtains x where "m = Some x" and "f x = Some y"
  using assms by (cases m) simp_all

declare Option.bind_cong [fundef_cong]

section \<open>Slices\<close>

text \<open>Go's \<open>xs[i]\<close> with an \<open>int\<close> index: out of range is a panic.\<close>

definition slice_at :: "'a list \<Rightarrow> int \<Rightarrow> 'a option" where
  "slice_at xs i = (if 0 \<le> i \<and> i < int (length xs) then Some (xs ! nat i) else None)"

lemma slice_at_SomeI: "0 \<le> i \<Longrightarrow> i < int (length xs) \<Longrightarrow> slice_at xs i = Some (xs ! nat i)"
  by (simp add: slice_at_def)

section \<open>Words\<close>

lemma odd_mult_inj:
  fixes a b p :: "'a::len word"
  assumes "odd (uint p)" and "a * p = b * p"
  shows "a = b"
proof -
  have cop: "coprime (uint p) (2 ^ LENGTH('a))"
    using assms(1) by (simp add: coprime_right_2_iff_odd)
  have "uint a * uint p mod 2 ^ LENGTH('a) = uint b * uint p mod 2 ^ LENGTH('a)"
    using assms(2) by (metis uint_word_ariths(3))
  then have "2 ^ LENGTH('a) dvd (uint a - uint b) * uint p"
    by (simp add: mod_eq_dvd_iff left_diff_distrib)
  then have "2 ^ LENGTH('a) dvd uint a - uint b"
    using cop by (simp add: coprime_dvd_mult_left_iff coprime_commute)
  then have "uint a mod 2 ^ LENGTH('a) = uint b mod 2 ^ LENGTH('a)"
    by (rule mod_eq_dvd_iff [THEN iffD2])
  moreover have "uint x mod 2 ^ LENGTH('a) = uint x" for x :: "'a word"
    by (intro mod_pos_pos_trivial uint_ge_0 unsigned_less)
  ultimately show ?thesis
    by (simp only: word_uint_eq_iff)
qed

lemma xor_right_inj: "(a :: 'a::len word) XOR c = b XOR c \<longleftrightarrow> a = b"
  by (metis xor.assoc xor.right_neutral xor_self_eq)

lemma xor_left_inj: "(c :: 'a::len word) XOR a = c XOR b \<longleftrightarrow> a = b"
  by (metis xor_right_inj xor.commute)

lemma xor_swap: "(x :: 'a::len word) XOR a = y XOR c \<longleftrightarrow> x XOR y = a XOR c"
proof -
  have "(p \<noteq> q) = (r \<noteq> s) \<longleftrightarrow> (p \<noteq> r) = (q \<noteq> s)" for p q r s :: bool
    by blast
  then show ?thesis
    by (simp add: bit_eq_iff bit_xor_iff)
qed

section \<open>Sums over a list with one entry replaced\<close>

lemma sum_list_map_update:
  fixes f :: "'a \<Rightarrow> 'b::ab_group_add"
  shows "i < length xs \<Longrightarrow> sum_list (map f (xs[i := x])) = sum_list (map f xs) - f (xs ! i) + f x"
proof (induction xs arbitrary: i)
  case (Cons y ys)
  then show ?case
    by (cases i) (simp_all add: algebra_simps)
qed simp

text \<open>The same in a monoid without subtraction: the other entries contribute a fixed rest.\<close>

lemma sum_list_map_rest:
  fixes f :: "'a \<Rightarrow> 'b::comm_monoid_add"
  assumes "i < length xs"
  obtains R where "sum_list (map f xs) = R + f (xs ! i)" and "\<And>x. sum_list (map f (xs[i := x])) = R + f x"
proof
  let ?R = "sum_list (map f (take i xs)) + sum_list (map f (drop (Suc i) xs))"
  show "sum_list (map f xs) = ?R + f (xs ! i)"
    by (subst id_take_nth_drop [OF assms]) (simp add: ac_simps)
  show "sum_list (map f (xs[i := x])) = ?R + f x" for x
    using assms by (simp add: upd_conv_take_nth_drop ac_simps)
qed

text \<open>A balance \<open>a + D = S\<close> survives a step that changes both sides alike.\<close>

lemma balance_step:
  fixes a :: "'a::ab_group_add"
  assumes "a + D = S" and "a' + d' - S' = a + d - S"
  shows "a' + (D - d + d') = S'"
proof -
  have "a' = S' + (a + d - S) - d'"
    using assms(2) by (simp add: algebra_simps)
  with assms(1) show ?thesis
    by (simp add: algebra_simps flip: assms(1))
qed

end
