(* ===== verification/GoText.thy ===== *)
theory GoText
  imports Prelude
begin

text \<open>
  The parts of Go's \<open>strings\<close>, \<open>strconv\<close>, \<open>fmt\<close> and \<open>encoding/hex\<close> packages that the program uses.
  A Go string is a byte sequence, here a \<^typ>\<open>string\<close> (each \<^typ>\<open>char\<close> is one byte); an \<open>int\<close> is the
  64-bit signed integer of the platform, carried as an \<^typ>\<open>int\<close> whose range is checked where text
  is converted.
\<close>

section \<open>Decimal and hexadecimal text\<close>

definition digit :: "nat \<Rightarrow> char" where
  "digit d = char_of (48 + d)"

definition is_digit :: "char \<Rightarrow> bool" where
  "is_digit c \<longleftrightarrow> 48 \<le> (of_char c :: nat) \<and> (of_char c :: nat) \<le> 57"

definition digit_val :: "char \<Rightarrow> nat" where
  "digit_val c = of_char c - 48"

fun dec_nat :: "nat \<Rightarrow> string" where
  "dec_nat n = (if n < 10 then [digit n] else dec_nat (n div 10) @ [digit (n mod 10)])"

declare dec_nat.simps [simp del]

text \<open>\<open>fmt.Sprintf("%d", i)\<close>.\<close>

definition dec :: "int \<Rightarrow> string" where
  "dec i = (if i < 0 then CHR ''-'' # dec_nat (nat (- i)) else dec_nat (nat i))"

definition nat_of_digits :: "string \<Rightarrow> nat" where
  "nat_of_digits s = foldl (\<lambda>n c. n * 10 + digit_val c) 0 s"

lemma of_char_digit [simp]: "d < 10 \<Longrightarrow> of_char (digit d) = 48 + d"
  by (simp add: digit_def)

lemma is_digit_digit [simp]: "d < 10 \<Longrightarrow> is_digit (digit d)"
  by (simp add: is_digit_def)

lemma digit_val_digit [simp]: "d < 10 \<Longrightarrow> digit_val (digit d) = d"
  by (simp add: digit_val_def)

lemma dec_nat_nonempty [simp]: "dec_nat n \<noteq> []" "[] \<noteq> dec_nat n"
  by (subst dec_nat.simps, simp)+

lemma dec_nat_digits: "c \<in> set (dec_nat n) \<Longrightarrow> is_digit c"
proof (induction n rule: dec_nat.induct)
  case (1 n)
  then show ?case
    by (subst (asm) (2) dec_nat.simps) (auto split: if_splits)
qed

lemma nat_of_digits_snoc [simp]: "nat_of_digits (s @ [c]) = nat_of_digits s * 10 + digit_val c"
  by (simp add: nat_of_digits_def)

lemma nat_of_digits_dec_nat [simp]: "nat_of_digits (dec_nat n) = n"
proof (induction n rule: dec_nat.induct)
  case (1 n)
  show ?case
  proof (cases "n < 10")
    case True
    then show ?thesis by (subst dec_nat.simps) (simp add: nat_of_digits_def)
  next
    case False
    with 1 show ?thesis by (subst dec_nat.simps) simp
  qed
qed

lemma dec_nat_inj [simp]: "dec_nat m = dec_nat n \<longleftrightarrow> m = n"
  by (metis nat_of_digits_dec_nat)

text \<open>\<open>strconv.Atoi\<close>: an optional sign, decimal digits, and the range of \<open>int\<close>.\<close>

definition atoi :: "string \<Rightarrow> int option" where
  "atoi s =
     (let neg = (s \<noteq> [] \<and> hd s = CHR ''-'');
          ds = (if s \<noteq> [] \<and> (hd s = CHR ''-'' \<or> hd s = CHR ''+'') then tl s else s)
      in if ds = [] \<or> \<not> list_all is_digit ds then None
         else let v = int (nat_of_digits ds); i = (if neg then - v else v)
              in if - (2 ^ 63) \<le> i \<and> i < 2 ^ 63 then Some i else None)"

lemma hd_dec_nat_digit: "is_digit (hd (dec_nat n))"
  by (rule dec_nat_digits [OF hd_in_set]) (rule dec_nat_nonempty)

lemma not_digit_sign: "\<not> is_digit (CHR ''-'')" "\<not> is_digit (CHR ''+'')"
  by (simp_all add: is_digit_def)

lemma atoi_dec_nat: "n < 2 ^ 63 \<Longrightarrow> atoi (dec_nat n) = Some (int n)"
proof -
  assume n: "n < 2 ^ 63"
  have "hd (dec_nat n) \<noteq> CHR ''-''" "hd (dec_nat n) \<noteq> CHR ''+''"
    using hd_dec_nat_digit [of n] not_digit_sign by metis+
  moreover have "list_all is_digit (dec_nat n)"
    by (auto simp: list_all_iff dec_nat_digits)
  moreover from n have "int n < 2 ^ 63"
    by (metis of_nat_less_numeral_power_cancel_iff)
  ultimately show ?thesis
    by (simp add: atoi_def)
qed

lemma atoi_dec: "- (2 ^ 63) \<le> i \<Longrightarrow> i < 2 ^ 63 \<Longrightarrow> atoi (dec i) = Some i"
proof (cases "i < 0")
  case True
  assume "- (2 ^ 63) \<le> i" "i < 2 ^ 63"
  moreover have "list_all is_digit (dec_nat (nat (- i)))"
    by (auto simp: list_all_iff dec_nat_digits)
  ultimately show ?thesis using True
    by (simp add: atoi_def dec_def)
next
  case False
  assume "i < 2 ^ 63"
  with False show ?thesis
    using atoi_dec_nat [of "nat i"] by (simp add: dec_def)
qed

text \<open>\<open>hex.EncodeToString\<close> on a byte slice, and \<open>fmt.Sprintf("%x", u)\<close>.\<close>

definition hex_digit :: "nat \<Rightarrow> char" where
  "hex_digit d = (if d < 10 then char_of (48 + d) else char_of (87 + d))"

definition hex_val :: "char \<Rightarrow> nat" where
  "hex_val c = (if is_digit c then of_char c - 48 else of_char c - 87)"

fun hex_encode :: "u8 list \<Rightarrow> string" where
  "hex_encode [] = []"
| "hex_encode (b # bs) = hex_digit (unat b div 16) # hex_digit (unat b mod 16) # hex_encode bs"

fun hex_decode :: "string \<Rightarrow> u8 list" where
  "hex_decode (c # d # s) = of_nat (hex_val c * 16 + hex_val d) # hex_decode s"
| "hex_decode _ = []"

fun hex_nat :: "nat \<Rightarrow> string" where
  "hex_nat n = (if n < 16 then [hex_digit n] else hex_nat (n div 16) @ [hex_digit (n mod 16)])"

declare hex_nat.simps [simp del]

lemma hex_val_hex_digit [simp]: "d < 16 \<Longrightarrow> hex_val (hex_digit d) = d"
  by (auto simp: hex_val_def hex_digit_def is_digit_def)

lemma length_hex_encode [simp]: "length (hex_encode bs) = 2 * length bs"
  by (induction bs) simp_all

lemma unat_u8_less: "unat (b :: u8) < 256"
  using unsigned_less [of b, where 'a = nat] by simp

lemma hex_decode_encode [simp]: "hex_decode (hex_encode bs) = bs"
proof (induction bs)
  case (Cons b bs)
  have "unat b div 16 < 16"
    using unat_u8_less [of b] by (simp add: less_mult_imp_div_less)
  with Cons show ?case
    by simp
qed simp

lemma hex_encode_inj [simp]: "hex_encode as = hex_encode bs \<longleftrightarrow> as = bs"
  by (metis hex_decode_encode)

section \<open>\<open>strings.Split\<close>, \<open>strings.IndexByte\<close>\<close>

text \<open>\<open>strings.Split(s, sep)\<close> for a separator of one byte.\<close>

fun split_byte :: "char \<Rightarrow> string \<Rightarrow> string list" where
  "split_byte c [] = [[]]"
| "split_byte c (x # xs) =
     (if x = c then [] # split_byte c xs
      else case split_byte c xs of [] \<Rightarrow> [[x]] | p # ps \<Rightarrow> (x # p) # ps)"

fun join_byte :: "char \<Rightarrow> string list \<Rightarrow> string" where
  "join_byte c [] = []"
| "join_byte c [p] = p"
| "join_byte c (p # q # ps) = p @ c # join_byte c (q # ps)"

lemma split_byte_nonempty [simp]: "split_byte c s \<noteq> []"
  by (induction s) (auto split: list.splits)

lemma split_byte_append: "c \<notin> set p \<Longrightarrow> split_byte c (p @ c # s) = p # split_byte c s"
  by (induction p) auto

lemma split_byte_free: "c \<notin> set p \<Longrightarrow> split_byte c p = [p]"
  by (induction p) auto

lemma split_join: "ps \<noteq> [] \<Longrightarrow> (\<And>p. p \<in> set ps \<Longrightarrow> c \<notin> set p) \<Longrightarrow> split_byte c (join_byte c ps) = ps"
  by (induction c ps rule: join_byte.induct) (simp_all add: split_byte_free split_byte_append)

lemma split_byte_no_sep: "p \<in> set (split_byte c s) \<Longrightarrow> c \<notin> set p"
proof (induction s arbitrary: p)
  case (Cons x xs)
  then show ?case
    by (fastforce split: if_splits list.splits)
qed simp

text \<open>\<open>strings.IndexByte(s, c)\<close>: the first position of \<open>c\<close>, or \<open>-1\<close>.\<close>

fun index_byte :: "string \<Rightarrow> char \<Rightarrow> int" where
  "index_byte [] c = -1"
| "index_byte (x # xs) c =
     (if x = c then 0 else let i = index_byte xs c in if i < 0 then -1 else i + 1)"

lemma index_byte_append: "c \<notin> set k \<Longrightarrow> index_byte (k @ c # v) c = int (length k)"
  by (induction k) (auto simp: Let_def)

section \<open>\<open>strings.TrimSpace\<close>\<close>

text \<open>
  The UTF-8 encodings of the code points with Unicode's White\_Space property, which is what
  \<open>unicode.IsSpace\<close> answers for. No encoding is a prefix of another one.
\<close>

definition space_encodings :: "string list" where
  "space_encodings = map (map char_of)
     ([[9], [10], [11], [12], [13], [32], [194, 133], [194, 160], [225, 154, 128],
       [226, 128, 168], [226, 128, 169], [226, 128, 175], [226, 129, 159], [227, 128, 128]]
      @ map (\<lambda>d. [226, 128, 128 + d]) [0 ..< 11 :: nat] :: nat list list)"

fun strip_prefix :: "string \<Rightarrow> string \<Rightarrow> string option" where
  "strip_prefix [] s = Some s"
| "strip_prefix (p # ps) [] = None"
| "strip_prefix (p # ps) (x # xs) = (if p = x then strip_prefix ps xs else None)"

fun strip_any :: "string list \<Rightarrow> string \<Rightarrow> string option" where
  "strip_any [] s = None"
| "strip_any (e # es) s =
     (case strip_prefix e s of Some r \<Rightarrow> (if e = [] then None else Some r) | None \<Rightarrow> strip_any es s)"

lemma strip_prefix_Some: "strip_prefix p s = Some r \<longleftrightarrow> s = p @ r"
  by (induction p s rule: strip_prefix.induct) auto

lemma strip_prefix_append [simp]: "strip_prefix p (p @ r) = Some r"
  by (simp add: strip_prefix_Some)

lemma strip_any_shorter: "strip_any es s = Some r \<Longrightarrow> length r < length s"
  by (induction es s rule: strip_any.induct) (auto split: option.splits if_splits simp: strip_prefix_Some)

function trim_left :: "string list \<Rightarrow> string \<Rightarrow> string" where
  "trim_left es s = (case strip_any es s of None \<Rightarrow> s | Some r \<Rightarrow> trim_left es r)"
  by pat_completeness auto
termination
  by (relation "measure (\<lambda>(es, s). length s)") (auto dest: strip_any_shorter)

declare trim_left.simps [simp del]

definition trim_right :: "string list \<Rightarrow> string \<Rightarrow> string" where
  "trim_right es s = rev (trim_left (map rev es) (rev s))"

definition trim_space :: "string \<Rightarrow> string" where
  "trim_space s = trim_right space_encodings (trim_left space_encodings s)"

text \<open>A string that \<open>TrimSpace\<close> leaves alone.\<close>

definition trimmed :: "string \<Rightarrow> bool" where
  "trimmed s \<longleftrightarrow> strip_any space_encodings s = None
                \<and> strip_any (map rev space_encodings) (rev s) = None"

lemma trim_left_stop: "strip_any es (trim_left es s) = None"
proof (induction es s rule: trim_left.induct)
  case (1 es s)
  then show ?case
    by (subst trim_left.simps) (simp split: option.splits)
qed

lemma trim_left_id: "strip_any es s = None \<Longrightarrow> trim_left es s = s"
  by (subst trim_left.simps) simp

lemma trim_left_suffix: "\<exists>p. s = p @ trim_left es s"
proof (induction es s rule: trim_left.induct)
  case (1 es s)
  have strip: "strip_any es s = Some r \<Longrightarrow> \<exists>p. s = p @ r" for r
    by (induction es s rule: strip_any.induct)
      (auto split: option.splits if_splits simp: strip_prefix_Some)
  show ?case
  proof (cases "strip_any es s")
    case None
    then show ?thesis by (simp add: trim_left_id)
  next
    case (Some r)
    with 1 obtain p where "r = p @ trim_left es r" by blast
    moreover obtain q where "s = q @ r" using strip [OF Some] by blast
    moreover have "trim_left es s = trim_left es r"
      using Some by (subst trim_left.simps) simp
    ultimately show ?thesis by (metis append.assoc)
  qed
qed

lemma strip_any_None:
  "[] \<notin> set es \<Longrightarrow> strip_any es s = None \<longleftrightarrow> (\<forall>e \<in> set es. \<forall>r. s \<noteq> e @ r)"
proof (induction es s rule: strip_any.induct)
  case (2 e es s)
  then show ?case
    by (cases "strip_prefix e s") (auto simp: strip_prefix_Some)
qed simp

lemma strip_any_prefix:
  "[] \<notin> set es \<Longrightarrow> strip_any es (p @ s) = None \<Longrightarrow> strip_any es p = None"
  by (auto simp: strip_any_None)

lemma trim_right_prefix: "\<exists>p. s = trim_right es s @ p"
  by (metis rev_append rev_rev_ident trim_left_suffix trim_right_def)

lemma space_encodings_nonempty: "[] \<notin> set space_encodings"
  by (auto simp: space_encodings_def)

lemma trimmed_trim_space: "trimmed (trim_space s)"
proof -
  obtain p where p: "trim_left space_encodings s = trim_space s @ p"
    using trim_right_prefix [of "trim_left space_encodings s" space_encodings]
    by (auto simp: trim_space_def)
  have "strip_any space_encodings (trim_space s @ p) = None"
    unfolding p [symmetric] by (rule trim_left_stop)
  then have "strip_any space_encodings (trim_space s) = None"
    by (rule strip_any_prefix [OF space_encodings_nonempty])
  then show ?thesis
    by (simp add: trimmed_def trim_space_def trim_right_def trim_left_stop)
qed

lemma trim_space_infix: "\<exists>p q. s = p @ trim_space s @ q"
  unfolding trim_space_def by (metis trim_left_suffix trim_right_prefix)

lemma set_trim_space: "set (trim_space s) \<subseteq> set s"
  using trim_space_infix [of s] by (metis Un_iff set_append subsetI)

lemma rev_encodings_nonempty: "[] \<notin> set (map rev space_encodings)"
  using space_encodings_nonempty by auto

lemma trimmed_Nil [simp]: "trimmed []"
  using space_encodings_nonempty rev_encodings_nonempty
  unfolding trimmed_def by (subst (1 2) strip_any_None) auto

text \<open>
  A byte that no space encoding uses separates two trimmed strings into a trimmed whole.
\<close>

lemma trimmed_append_sep:
  assumes k: "trimmed k" and v: "trimmed v"
    and sep: "\<And>e. e \<in> set space_encodings \<Longrightarrow> c \<notin> set e"
  shows "trimmed (k @ c # v)"
proof -
  have no: "strip_any es (k @ c # v) = None"
    if ne: "[] \<notin> set es" and c: "\<And>e. e \<in> set es \<Longrightarrow> c \<notin> set e" and k: "strip_any es k = None"
    for es k v
  proof -
    have "k @ c # v \<noteq> e @ r" if e: "e \<in> set es" for e r
    proof
      assume "k @ c # v = e @ r"
      then consider (short) us where "k = e @ us" | (long) us where "e = k @ c # us"
        by (auto simp: append_eq_append_conv2 Cons_eq_append_conv)
      then show False
        using k c [OF e] e by cases (auto simp: strip_any_None [OF ne])
    qed
    then show ?thesis by (simp add: strip_any_None [OF ne])
  qed
  have "strip_any space_encodings (k @ c # v) = None"
    using k sep by (intro no space_encodings_nonempty) (auto simp: trimmed_def)
  moreover have "strip_any (map rev space_encodings) (rev v @ c # rev k) = None"
    using v sep by (intro no rev_encodings_nonempty) (auto simp: trimmed_def)
  ultimately show ?thesis
    by (simp add: trimmed_def)
qed

lemma space_free:
  "e \<in> set space_encodings \<Longrightarrow> CHR ''='' \<notin> set e \<and> CHR '','' \<notin> set e"
proof -
  have "list_all (\<lambda>e. CHR ''='' \<notin> set e \<and> CHR '','' \<notin> set e) space_encodings"
    by code_simp
  then show "e \<in> set space_encodings \<Longrightarrow> CHR ''='' \<notin> set e \<and> CHR '','' \<notin> set e"
    by (simp add: list_all_iff)
qed

lemma trim_space_id: "trimmed s \<Longrightarrow> trim_space s = s"
  by (simp add: trimmed_def trim_space_def trim_right_def trim_left_id)

section \<open>Evaluation\<close>

text \<open>The encodings as characters, and trimming one step at a time, for concrete strings.\<close>

lemma space_chars: "space_encodings =
  [[CHR 0x09], [CHR 0x0A], [CHR 0x0B], [CHR 0x0C], [CHR 0x0D], [CHR 0x20], [CHR 0xC2, CHR 0x85], [CHR 0xC2, CHR 0xA0],
   [CHR 0xE1, CHR 0x9A, CHR 0x80], [CHR 0xE2, CHR 0x80, CHR 0xA8], [CHR 0xE2, CHR 0x80, CHR 0xA9],
   [CHR 0xE2, CHR 0x80, CHR 0xAF], [CHR 0xE2, CHR 0x81, CHR 0x9F], [CHR 0xE3, CHR 0x80, CHR 0x80]]
  @ map (\<lambda>c. [CHR 0xE2, CHR 0x80, c]) [CHR 0x80, CHR 0x81, CHR 0x82, CHR 0x83, CHR 0x84, CHR 0x85, CHR 0x86, CHR 0x87, CHR 0x88, CHR 0x89, CHR 0x8A]"
  by (simp add: space_encodings_def char_of_def upt_rec bit_0)

lemma trim_left_step: "strip_any es s = Some r \<Longrightarrow> trim_left es s = trim_left es r"
  by (subst trim_left.simps) simp

lemmas text_eval =
  trimmed_def trim_space_def trim_right_def trim_left_step trim_left_id space_chars

end
