(* ===== verification/GoFloat.thy ===== *)
theory GoFloat
  imports Complex_Main Prelude "HOL-Library.Log_Nat"
begin

text \<open>
  The \<open>float64\<close> arithmetic of the program, on exact rationals: \<open>fl\<close> rounds to a 53-bit
  significand, ties to even, with an unbounded exponent. The finite float values that the program computes are
  zero or stay far inside the normal range (latencies, fractions), where this is IEEE rounding. The rates of
  the configuration can also be infinite or NaN: they are of type \<open>float64\<close>, with the operations that the
  code applies to them.
\<close>

definition pow2 :: "int \<Rightarrow> rat" where
  "pow2 k = (if 0 \<le> k then 2 ^ nat k else 1 / 2 ^ nat (- k))"

text \<open>The binary exponent of a positive rational: \<open>pow2 (ilog2 x) \<le> x < pow2 (ilog2 x + 1)\<close>.\<close>

definition ilog2 :: "rat \<Rightarrow> int" where
  "ilog2 x =
     (let (p, q) = quotient_of x; k = bitlen p - bitlen q
      in if pow2 k \<le> x then k else k - 1)"

definition round_even :: "rat \<Rightarrow> int" where
  "round_even x =
     (let f = \<lfloor>x\<rfloor>; d = x - of_int f
      in if d < 1 / 2 \<or> d = 1 / 2 \<and> even f then f else f + 1)"

definition fl :: "rat \<Rightarrow> rat" where
  "fl x =
     (if x = 0 then 0
      else let e = ilog2 \<bar>x\<bar> - 52 in sgn x * (of_int (round_even (\<bar>x\<bar> / pow2 e)) * pow2 e))"

text \<open>
  A \<open>float64\<close>: a finite value, an infinity (negative, if the flag is set) or NaN; the comparison, which NaN fails, the
  quotient by a positive number and the product with a finite number that is not negative.
\<close>

datatype float64 = Finite rat | Infinite bool | NaN

fun f_less :: "float64 \<Rightarrow> float64 \<Rightarrow> bool" where
  "f_less (Finite x) (Finite y) = (x < y)"
| "f_less (Finite x) (Infinite neg) = (\<not> neg)"
| "f_less (Infinite neg) (Finite y) = neg"
| "f_less (Infinite neg) (Infinite neg') = (neg \<and> \<not> neg')"
| "f_less NaN y = False"
| "f_less x NaN = False"

fun f_div :: "float64 \<Rightarrow> rat \<Rightarrow> float64" where
  "f_div (Finite x) y = Finite (fl (x / y))"
| "f_div (Infinite neg) y = Infinite neg"
| "f_div NaN y = NaN"

fun f_mul :: "float64 \<Rightarrow> rat \<Rightarrow> float64" where
  "f_mul (Finite x) y = Finite (fl (x * y))"
| "f_mul (Infinite neg) y = (if y = 0 then NaN else Infinite neg)"
| "f_mul NaN y = NaN"

text \<open>Conversion to \<open>int64\<close>: truncation; out of range it is the amd64 instruction's value.\<close>

definition to_int64 :: "rat \<Rightarrow> int" where
  "to_int64 x =
     (let t = (if 0 \<le> x then \<lfloor>x\<rfloor> else \<lceil>x\<rceil>)
      in if - (2 ^ 63) \<le> t \<and> t < 2 ^ 63 then t else - (2 ^ 63))"

section \<open>Rounding error\<close>

lemma pow2_pos [simp]: "0 < pow2 k"
  by (simp add: pow2_def)

lemma pow2_neq_0 [simp]: "pow2 k \<noteq> 0"
  by (simp add: pow2_def)

lemma pow2_powi: "pow2 k = 2 powi k"
  by (simp add: pow2_def power_int_def field_simps)

lemma pow2_add: "pow2 (a + b) = pow2 a * pow2 b"
  by (simp add: pow2_powi power_int_add)

lemma pow2_diff: "pow2 (a - b) = pow2 a / pow2 b"
  by (simp add: pow2_powi power_int_diff)

lemma pow2_1 [simp]: "pow2 1 = 2"
  by (simp add: pow2_def)

lemma round_even_err: "\<bar>of_int (round_even x) - x\<bar> \<le> 1 / 2"
proof -
  have "of_int \<lfloor>x\<rfloor> \<le> x" "x < of_int \<lfloor>x\<rfloor> + 1"
    by (rule of_int_floor_le, rule floor_less_iff [THEN iffD1, of x "\<lfloor>x\<rfloor> + 1", simplified])
  then show ?thesis
    by (auto simp: round_even_def Let_def abs_le_iff)
qed

lemma bitlen_pow2_bounds:
  assumes "0 < p"
  shows "pow2 (bitlen p - 1) \<le> of_int p" and "of_int p < pow2 (bitlen p)"
proof -
  have b: "2 ^ nat (bitlen p - 1) \<le> p" "p < 2 ^ nat (bitlen p)"
    using bitlen_bounds [OF assms] by auto
  have "1 \<le> bitlen p"
    using assms bitlen_eq_zero_iff [of p] bitlen_nonneg [of p] by linarith
  moreover have "(2 ^ nat (bitlen p - 1) :: rat) \<le> of_int p"
    using b(1) by (metis of_int_le_iff of_int_numeral of_int_power)
  moreover have "of_int p < (2 ^ nat (bitlen p) :: rat)"
    using b(2) by (metis of_int_less_iff of_int_numeral of_int_power)
  ultimately show "pow2 (bitlen p - 1) \<le> of_int p" "of_int p < pow2 (bitlen p)"
    by (simp_all add: pow2_def)
qed

lemma ilog2_bounds:
  assumes "0 < x"
  shows "pow2 (ilog2 x) \<le> x" and "x < pow2 (ilog2 x + 1)"
proof -
  obtain p q where pq: "quotient_of x = (p, q)" by fastforce
  have q: "0 < q" using quotient_of_denom_pos [OF pq] .
  have x: "x = of_int p / of_int q" using quotient_of_div [OF pq] .
  from assms q x have p: "0 < p" by (simp add: zero_less_divide_iff)
  let ?k = "bitlen p - bitlen q"
  have "pow2 (bitlen p - 1) / pow2 (bitlen q) \<le> x"
    unfolding x using bitlen_pow2_bounds [OF p] bitlen_pow2_bounds [OF q] q p
    by (intro frac_le) auto
  then have lo: "pow2 (?k - 1) \<le> x"
    by (simp add: pow2_diff pow2_add field_simps)
  have "x < pow2 (bitlen p) / pow2 (bitlen q - 1)"
    unfolding x using bitlen_pow2_bounds [OF p] bitlen_pow2_bounds [OF q] q p
    by (intro frac_less) auto
  then have hi: "x < pow2 (?k + 1)"
    by (simp add: pow2_diff pow2_add)
  show "pow2 (ilog2 x) \<le> x" "x < pow2 (ilog2 x + 1)"
    using lo hi pq by (auto simp: ilog2_def Let_def)
qed

lemma fl_err:
  assumes "0 \<le> x"
  shows "\<bar>fl x - x\<bar> \<le> x / 2 ^ 53"
proof (cases "x = 0")
  case False
  with assms have pos: "0 < x" by simp
  let ?e = "ilog2 x - 52"
  define y where "y = x / pow2 ?e"
  have x: "x = y * pow2 ?e"
    by (simp add: y_def)
  have "fl x = of_int (round_even y) * pow2 ?e"
    using pos by (simp add: fl_def Let_def y_def)
  then have "fl x - x = (of_int (round_even y) - y) * pow2 ?e"
    using x by (simp add: left_diff_distrib)
  then have "\<bar>fl x - x\<bar> = \<bar>of_int (round_even y) - y\<bar> * pow2 ?e"
    by (simp add: abs_mult less_imp_le)
  also have "\<dots> \<le> 1 / 2 * pow2 ?e"
    using round_even_err by (intro mult_right_mono) (auto simp: less_imp_le)
  also have "\<dots> = pow2 (ilog2 x) / 2 ^ 53"
    by (simp add: pow2_diff) (simp add: pow2_def)
  also have "\<dots> \<le> x / 2 ^ 53"
    using ilog2_bounds(1) [OF pos] by (simp add: divide_right_mono)
  finally show ?thesis .
qed (simp add: fl_def)

lemma fl_0 [simp]: "fl 0 = 0"
  by (simp add: fl_def)

lemma fl_nonneg: "0 \<le> x \<Longrightarrow> 0 \<le> fl x"
  using fl_err [of x, THEN abs_le_D2] by (simp add: field_simps)

lemma fl_neg: "fl (- x) = - fl x"
  by (simp add: fl_def Let_def)

lemma fl_nonpos: "x \<le> 0 \<Longrightarrow> fl x \<le> 0"
  using fl_nonneg [of "- x"] by (simp add: fl_neg)

lemma fl_lower: "0 \<le> x \<Longrightarrow> x * (1 - 1 / 2 ^ 53) \<le> fl x"
  using fl_err [of x, THEN abs_le_D2] by (simp add: field_simps)

lemma fl_upper: "0 \<le> x \<Longrightarrow> fl x \<le> x * (1 + 1 / 2 ^ 53)"
  using fl_err [of x, THEN abs_le_D1] by (simp add: field_simps)

lemma to_int64_bounds:
  "0 \<le> x \<Longrightarrow> x < 2 ^ 63 \<Longrightarrow> 0 \<le> to_int64 x \<and> of_int (to_int64 x) \<le> x"
  by (simp add: to_int64_def Let_def floor_less_iff of_int_floor_le)

text \<open>A rounded product of two rounded factors exceeds the exact product by a factor below \<open>1 + 2^-51\<close>.\<close>

lemma fl_mult_upper:
  assumes "0 \<le> x" and "0 \<le> q"
  shows "fl (fl x * fl q) \<le> x * q * (1 + 1 / 2 ^ 51)"
proof -
  let ?e = "1 + 1 / 2 ^ 53 :: rat"
  have "fl (fl x * fl q) \<le> fl x * fl q * ?e"
    using assms by (intro fl_upper mult_nonneg_nonneg fl_nonneg)
  also have "\<dots> \<le> (x * ?e) * (q * ?e) * ?e"
    using assms by (intro mult_right_mono mult_mono fl_upper fl_nonneg) auto
  also have "\<dots> = x * q * (?e * ?e * ?e)"
    by (simp only: ac_simps)
  also have "\<dots> \<le> x * q * (1 + 1 / 2 ^ 51)"
    using assms by (intro mult_left_mono mult_nonneg_nonneg) auto
  finally show ?thesis .
qed

lemma fl_mult_lower:
  assumes "0 \<le> x" and "0 \<le> q"
  shows "x * q * (1 - 1 / 2 ^ 51) \<le> fl (fl x * fl q)"
proof -
  let ?e = "1 - 1 / 2 ^ 53 :: rat"
  have "x * q * (1 - 1 / 2 ^ 51) \<le> x * q * (?e * ?e * ?e)"
    using assms by (intro mult_left_mono mult_nonneg_nonneg) auto
  also have "\<dots> = (x * ?e) * (q * ?e) * ?e"
    by (simp only: ac_simps)
  also have "\<dots> \<le> fl x * fl q * ?e"
    using assms by (intro mult_right_mono mult_mono fl_lower fl_nonneg mult_nonneg_nonneg) auto
  also have "\<dots> \<le> fl (fl x * fl q)"
    using assms by (intro fl_lower mult_nonneg_nonneg fl_nonneg)
  finally show ?thesis .
qed

lemma fl_mult_nonneg: "0 \<le> x \<Longrightarrow> 0 \<le> q \<Longrightarrow> 0 \<le> fl (fl x * fl q)"
  by (intro fl_nonneg mult_nonneg_nonneg)

section \<open>Rounding is monotone\<close>

lemma round_even_near: "\<lfloor>x\<rfloor> \<le> round_even x" "round_even x \<le> \<lfloor>x\<rfloor> + 1"
  by (simp_all add: round_even_def Let_def)

lemma round_even_of_int [simp]: "round_even (of_int n) = n"
  by (simp add: round_even_def)

lemma round_even_mono: "x \<le> y \<Longrightarrow> round_even x \<le> round_even y"
proof -
  assume xy: "x \<le> y"
  then have "\<lfloor>x\<rfloor> \<le> \<lfloor>y\<rfloor>"
    by (rule floor_mono)
  then consider "\<lfloor>x\<rfloor> < \<lfloor>y\<rfloor>" | "\<lfloor>x\<rfloor> = \<lfloor>y\<rfloor>"
    by linarith
  then show ?thesis
  proof cases
    case 1
    then show ?thesis
      using round_even_near(2) [of x] round_even_near(1) [of y] by linarith
  next
    case 2
    with xy show ?thesis
      by (auto simp: round_even_def Let_def)
  qed
qed

lemma pow2_less_iff: "pow2 a < pow2 b \<longleftrightarrow> a < b"
proof -
  have up: "a < b \<Longrightarrow> pow2 a < pow2 b" for a b
    unfolding pow2_powi by (rule power_int_strict_increasing) simp_all
  then show ?thesis
    by (metis less_irrefl linorder_neqE order_less_trans)
qed

lemma ilog2_mono:
  assumes "0 < x" and "x \<le> y"
  shows "ilog2 x \<le> ilog2 y"
proof -
  have "pow2 (ilog2 x) < pow2 (ilog2 y + 1)"
    using ilog2_bounds(1) [of x] ilog2_bounds(2) [of y] assms by simp
  then show ?thesis
    by (simp add: pow2_less_iff)
qed

lemma significand_bounds:
  assumes "0 < x"
  shows "2 ^ 52 \<le> round_even (x / pow2 (ilog2 x - 52))" and "round_even (x / pow2 (ilog2 x - 52)) \<le> 2 ^ 53"
proof -
  have "of_int (2 ^ 52) \<le> x / pow2 (ilog2 x - 52)" "x / pow2 (ilog2 x - 52) \<le> of_int (2 ^ 53)"
    using ilog2_bounds [OF assms] by (simp_all add: pow2_diff pow2_add field_simps) (simp_all add: pow2_def)
  from this [THEN round_even_mono]
  show "2 ^ 52 \<le> round_even (x / pow2 (ilog2 x - 52))" "round_even (x / pow2 (ilog2 x - 52)) \<le> 2 ^ 53"
    by (simp_all only: round_even_of_int)
qed

lemma fl_pos: "0 < x \<Longrightarrow> fl x = of_int (round_even (x / pow2 (ilog2 x - 52))) * pow2 (ilog2 x - 52)"
  by (simp add: fl_def Let_def)

lemma fl_exponent_bounds:
  assumes "0 < x"
  shows "pow2 (ilog2 x) \<le> fl x" and "fl x \<le> pow2 (ilog2 x + 1)"
proof -
  have r: "(2 ^ 52 :: rat) \<le> of_int (round_even (x / pow2 (ilog2 x - 52)))"
    "of_int (round_even (x / pow2 (ilog2 x - 52))) \<le> (2 ^ 53 :: rat)"
    using significand_bounds [OF assms, THEN of_int_le_iff [where 'a = rat, THEN iffD2]] by simp_all
  have "pow2 (ilog2 x) = 2 ^ 52 * pow2 (ilog2 x - 52)" "pow2 (ilog2 x + 1) = 2 ^ 53 * pow2 (ilog2 x - 52)"
    by (simp_all add: pow2_diff pow2_add) (simp_all add: pow2_def)
  then show "pow2 (ilog2 x) \<le> fl x" "fl x \<le> pow2 (ilog2 x + 1)"
    unfolding fl_pos [OF assms] using r by (auto intro!: mult_right_mono simp: less_imp_le)
qed

lemma fl_mono:
  assumes "0 \<le> x" and "x \<le> y"
  shows "fl x \<le> fl y"
proof (cases "x = 0")
  case False
  with assms have pos: "0 < x" "0 < y" by auto
  consider "ilog2 x = ilog2 y" | "ilog2 x + 1 \<le> ilog2 y"
    using ilog2_mono [OF pos(1) assms(2)] by linarith
  then show ?thesis
  proof cases
    case 1
    have "x / pow2 (ilog2 y - 52) \<le> y / pow2 (ilog2 y - 52)"
      using assms(2) by (intro divide_right_mono) (auto simp: less_imp_le)
    then show ?thesis
      unfolding fl_pos [OF pos(1)] fl_pos [OF pos(2)] 1
      by (intro mult_right_mono) (auto simp: less_imp_le round_even_mono)
  next
    case 2
    then have "pow2 (ilog2 x + 1) \<le> pow2 (ilog2 y)"
      by (metis not_less pow2_less_iff)
    with fl_exponent_bounds(2) [OF pos(1)] fl_exponent_bounds(1) [OF pos(2)] show ?thesis
      by linarith
  qed
qed (use assms fl_nonneg in auto)

text \<open>The values that a \<open>float64\<close> holds (up to the exponent range).\<close>

definition is_float :: "rat \<Rightarrow> bool" where
  "is_float x \<longleftrightarrow> fl x = x"

end
