(* ===== verification/Config.thy ===== *)
theory Config
  imports Complex_Main GoText GoFloat
begin

text \<open>
  \<open>internal/config/config.go\<close>: the resolved configuration, its validation, the environment
  helpers, the list and key-value parsers and the two per-pod identifiers. Go's \<open>int\<close> is \<^typ>\<open>int\<close>,
  \<open>time.Duration\<close> is its number of nanoseconds, \<open>float64\<close> settings may be infinite or NaN.
\<close>

section \<open>The configuration\<close>

record MetricsConfig =
  Addr :: string

record GenConfig =
  Rate :: float64
  Ramp :: int
  Duration :: int
  MaxSpans :: nat
  Workers :: int
  Services :: int
  SpansPerTraceMin :: int
  SpansPerTraceMax :: int
  ErrorRate :: float64
  EventRate :: float64

record CHConfig =
  Endpoints :: "string list"
  Database :: string
  Table :: string
  Protocol :: string
  Mode :: string
  Schema :: string
  Username :: string
  Password :: string
  TLS :: bool
  Compression :: string
  BatchSize :: int
  MaxOpenConns :: int
  BlockBuffer :: int
  Async :: bool
  WaitForAsync :: bool
  AsyncMaxDataSize :: int
  AsyncBusyTimeoutMs :: int
  DialTimeout :: int
  SendTimeout :: int

record OTLPConfig =
  Endpoint :: string
  Insecure :: bool
  Headers :: "string \<rightharpoonup> string"
  Gzip :: bool
  SpansPerRequest :: int
  Connections :: int
  Timeout :: int

record Config =
  Sink :: string
  ReplicaIndex :: int
  Seed :: u64
  HostID :: u64
  Metrics :: MetricsConfig
  Gen :: GenConfig
  CH :: CHConfig
  OTLP :: OTLPConfig

section \<open>Validation\<close>

datatype config_error =
    InvalidSink string
  | InvalidProtocol string
  | InvalidMode string
  | InvalidSchema string
  | EndpointsEmpty
  | InvalidCompression string
  | GzipWithoutHTTP
  | OTLPEndpointEmpty
  | InvalidSpansRange int int
  | ServicesTooSmall

text \<open>\<open>(c *Config) validate\<close>: \<^term>\<open>None\<close> is the nil error.\<close>

definition validate :: "Config \<Rightarrow> config_error option" where
  "validate c =
     (if Sink c \<notin> {''clickhouse'', ''otlp''} then Some (InvalidSink (Sink c))
      else if Sink c = ''clickhouse'' \<and> Protocol (CH c) \<notin> {''native'', ''http''}
        then Some (InvalidProtocol (Protocol (CH c)))
      else if Sink c = ''clickhouse'' \<and> Mode (CH c) \<notin> {''local'', ''distributed'', ''shard-roundrobin''}
        then Some (InvalidMode (Mode (CH c)))
      else if Sink c = ''clickhouse'' \<and> Schema (CH c) \<notin> {''map'', ''json''}
        then Some (InvalidSchema (Schema (CH c)))
      else if Sink c = ''clickhouse'' \<and> length (Endpoints (CH c)) = 0
        then Some EndpointsEmpty
      else if Sink c = ''clickhouse'' \<and> Compression (CH c) \<notin> {''none'', ''lz4'', ''zstd'', ''gzip''}
        then Some (InvalidCompression (Compression (CH c)))
      else if Sink c = ''clickhouse'' \<and> Compression (CH c) = ''gzip'' \<and> Protocol (CH c) \<noteq> ''http''
        then Some GzipWithoutHTTP
      else if Sink c = ''otlp'' \<and> Endpoint (OTLP c) = [] then Some OTLPEndpointEmpty
      else if SpansPerTraceMin (Gen c) < 1 \<or> SpansPerTraceMax (Gen c) < SpansPerTraceMin (Gen c)
        then Some (InvalidSpansRange (SpansPerTraceMin (Gen c)) (SpansPerTraceMax (Gen c)))
      else if Services (Gen c) < 1 then Some ServicesTooSmall
      else None)"

definition EffectiveBatchSize :: "Config \<Rightarrow> int" where
  "EffectiveBatchSize c =
     (if Sink c = ''otlp'' then SpansPerRequest (OTLP c) else BatchSize (CH c))"

section \<open>Environment helpers\<close>

text \<open>
  What the process reads from its environment: \<open>os.LookupEnv\<close>, \<open>os.Hostname\<close> (\<open>[]\<close> on an error,
  which the code ignores), eight bytes of \<open>crypto/rand\<close> or its failure, and the clock.
\<close>

record os_env =
  LookupEnv :: "string \<Rightarrow> string option"
  Hostname :: string
  RandRead :: "u8 list option"
  UnixNano :: int

definition env :: "os_env \<Rightarrow> string \<Rightarrow> string \<Rightarrow> string" where
  "env E k def = (case LookupEnv E k of Some v \<Rightarrow> v | None \<Rightarrow> def)"

text \<open>
  The typed helpers share one shape: look the variable up, trim it, parse it, and fall back to the
  default when it is unset or does not parse.
\<close>

definition envWith :: "(string \<Rightarrow> 'a option) \<Rightarrow> os_env \<Rightarrow> string \<Rightarrow> 'a \<Rightarrow> 'a" where
  "envWith parse E k def =
     (case LookupEnv E k of
        Some v \<Rightarrow> (case parse (trim_space v) of Some n \<Rightarrow> n | None \<Rightarrow> def)
      | None \<Rightarrow> def)"

definition envInt :: "os_env \<Rightarrow> string \<Rightarrow> int \<Rightarrow> int" where
  "envInt = envWith atoi"

text \<open>\<open>strconv.ParseBool\<close>.\<close>

definition parseBool :: "string \<Rightarrow> bool option" where
  "parseBool s =
     (if s \<in> {''1'', ''t'', ''T'', ''TRUE'', ''true'', ''True''} then Some True
      else if s \<in> {''0'', ''f'', ''F'', ''FALSE'', ''false'', ''False''} then Some False
      else None)"

definition envBool :: "os_env \<Rightarrow> string \<Rightarrow> bool \<Rightarrow> bool" where
  "envBool = envWith parseBool"

section \<open>Lists and key-value pairs\<close>

definition splitCSV :: "string \<Rightarrow> string list" where
  "splitCSV s = filter (\<lambda>p. p \<noteq> []) (map trim_space (split_byte (CHR '','') s))"

text \<open>One round of the loop of \<open>parseKV\<close>.\<close>

definition parseKV_step :: "string \<Rightarrow> (string \<rightharpoonup> string) \<Rightarrow> (string \<rightharpoonup> string)" where
  "parseKV_step p m =
     (let p = trim_space p
      in if p = [] then m
         else let i = index_byte p (CHR ''='')
              in if 0 < i then m(trim_space (take (nat i) p) \<mapsto> trim_space (drop (nat i + 1) p))
                 else m)"

definition parseKV :: "string \<Rightarrow> (string \<rightharpoonup> string)" where
  "parseKV s = fold parseKV_step (split_byte (CHR '','') s) Map.empty"

section \<open>Pod identifiers\<close>

text \<open>The one group of \<open>(\d+)$\<close>: the longest run of digits that ends the string, if any.\<close>

definition podOrdinal :: "string \<Rightarrow> string option" where
  "podOrdinal h =
     (let ds = rev (takeWhile is_digit (rev h)) in if ds = [] then None else Some ds)"

definition byte_of :: "char \<Rightarrow> 'a::len word" where
  "byte_of c = of_nat (of_char c)"

fun fnv32 :: "u32 \<Rightarrow> string \<Rightarrow> u32" where
  "fnv32 h [] = h"
| "fnv32 h (c # cs) = fnv32 ((h XOR byte_of c) * 16777619) cs"

definition pod_hostname :: "os_env \<Rightarrow> string" where
  "pod_hostname E = (if Hostname E = [] then env E ''HOSTNAME'' [] else Hostname E)"

definition detectReplicaIndex :: "os_env \<Rightarrow> int" where
  "detectReplicaIndex E =
     (let h = pod_hostname E; hashed = uint (fnv32 2166136261 h mod 1024)
      in case podOrdinal h of
           Some m \<Rightarrow> (case atoi m of Some n \<Rightarrow> n | None \<Rightarrow> hashed)
         | None \<Rightarrow> hashed)"

fun fnv64 :: "u64 \<Rightarrow> string \<Rightarrow> u64" where
  "fnv64 h [] = h"
| "fnv64 h (c # cs) = fnv64 ((h XOR byte_of c) * 1099511628211) cs"

text \<open>\<open>binary.LittleEndian.Uint64\<close>.\<close>

fun le_uint :: "u8 list \<Rightarrow> u64" where
  "le_uint [] = 0"
| "le_uint (b # bs) = ucast b + 256 * le_uint bs"

definition hostID_basis :: u64 where
  "hostID_basis = 1469598103934665603"

definition hostID :: "os_env \<Rightarrow> u64" where
  "hostID E =
     (let h = pod_hostname E
      in if h = [] then
           (case RandRead E of Some b \<Rightarrow> le_uint b | None \<Rightarrow> word_of_int (UnixNano E))
         else fnv64 hostID_basis h)"

section \<open>Validated configurations\<close>

text \<open>What a configuration must satisfy, stated without the order of the checks.\<close>

definition valid_clickhouse :: "CHConfig \<Rightarrow> bool" where
  "valid_clickhouse ch \<longleftrightarrow>
     Protocol ch \<in> {''native'', ''http''}
     \<and> Mode ch \<in> {''local'', ''distributed'', ''shard-roundrobin''}
     \<and> Schema ch \<in> {''map'', ''json''}
     \<and> Endpoints ch \<noteq> []
     \<and> Compression ch \<in> {''none'', ''lz4'', ''zstd'', ''gzip''}
     \<and> (Compression ch = ''gzip'' \<longrightarrow> Protocol ch = ''http'')"

definition valid_config :: "Config \<Rightarrow> bool" where
  "valid_config c \<longleftrightarrow>
     (Sink c = ''clickhouse'' \<and> valid_clickhouse (CH c)
      \<or> Sink c = ''otlp'' \<and> Endpoint (OTLP c) \<noteq> [])
     \<and> 1 \<le> SpansPerTraceMin (Gen c)
     \<and> SpansPerTraceMin (Gen c) \<le> SpansPerTraceMax (Gen c)
     \<and> 1 \<le> Services (Gen c)"

lemma validate_iff: "validate c = None \<longleftrightarrow> valid_config c"
  by (simp add: validate_def valid_config_def valid_clickhouse_def)

section \<open>Parsers\<close>

lemma splitCSV_elem:
  "p \<in> set (splitCSV s) \<Longrightarrow> p \<noteq> [] \<and> trimmed p \<and> CHR '','' \<notin> set p"
  using set_trim_space split_byte_no_sep
  by (fastforce simp: splitCSV_def trimmed_trim_space)

lemma splitCSV_join:
  assumes "\<And>p. p \<in> set ps \<Longrightarrow> p \<noteq> [] \<and> trimmed p \<and> CHR '','' \<notin> set p"
  shows "splitCSV (join_byte (CHR '','') ps) = ps"
proof (cases "ps = []")
  case True
  then show ?thesis by (simp add: splitCSV_def trim_space_id)
next
  case False
  then have "split_byte (CHR '','') (join_byte (CHR '','') ps) = ps"
    using assms by (intro split_join) auto
  moreover have "map trim_space ps = ps"
    using assms by (intro map_idI trim_space_id) auto
  ultimately show ?thesis
    using assms by (simp add: splitCSV_def filter_id_conv)
qed

text \<open>A pair that \<open>parseKV\<close> can carry: no separators, nothing to trim, a key that is not empty.\<close>

definition kv_ok :: "string \<times> string \<Rightarrow> bool" where
  "kv_ok kv \<longleftrightarrow> fst kv \<noteq> [] \<and> trimmed (fst kv) \<and> trimmed (snd kv)
     \<and> CHR ''='' \<notin> set (fst kv) \<and> CHR '','' \<notin> set (fst kv) \<and> CHR '','' \<notin> set (snd kv)"

definition kv_text :: "string \<times> string \<Rightarrow> string" where
  "kv_text kv = fst kv @ CHR ''='' # snd kv"

lemma parseKV_step_text:
  assumes "kv_ok kv"
  shows "parseKV_step (kv_text kv) m = m(fst kv \<mapsto> snd kv)"
proof -
  have "trimmed (kv_text kv)"
    using assms unfolding kv_text_def kv_ok_def
    by (intro trimmed_append_sep) (auto dest: space_free)
  then show ?thesis
    using assms
    by (simp add: parseKV_step_def trim_space_id kv_ok_def kv_text_def index_byte_append Let_def)
qed

lemma fold_parseKV_text:
  "(\<And>kv. kv \<in> set kvs \<Longrightarrow> kv_ok kv) \<Longrightarrow>
     fold parseKV_step (map kv_text kvs) m = m ++ map_of (rev kvs)"
proof (induction kvs arbitrary: m)
  case (Cons kv kvs)
  then show ?case
    by (cases kv) (simp add: parseKV_step_text map_add_upd_left)
qed simp

lemma parseKV_text:
  assumes "kvs \<noteq> []" and "\<And>kv. kv \<in> set kvs \<Longrightarrow> kv_ok kv"
  shows "parseKV (join_byte (CHR '','') (map kv_text kvs)) = map_of (rev kvs)"
proof -
  have "split_byte (CHR '','') (join_byte (CHR '','') (map kv_text kvs)) = map kv_text kvs"
    using assms by (intro split_join) (auto simp: kv_ok_def kv_text_def)
  then show ?thesis
    using assms(2) by (simp add: parseKV_def fold_parseKV_text)
qed

lemma parseKV_step_keys: "(\<And>k. k \<in> dom m \<Longrightarrow> trimmed k) \<Longrightarrow> k \<in> dom (parseKV_step p m) \<Longrightarrow> trimmed k"
  by (auto simp: parseKV_step_def Let_def trimmed_trim_space split: if_splits)

lemma parseKV_keys_trimmed: "k \<in> dom (parseKV s) \<Longrightarrow> trimmed k"
proof -
  have "k \<in> dom (fold parseKV_step ps m) \<Longrightarrow> (\<And>k. k \<in> dom m \<Longrightarrow> trimmed k) \<Longrightarrow> trimmed k" for ps m
  proof (induction ps arbitrary: m)
    case (Cons p ps)
    then show ?case by (metis fold_simps(2) parseKV_step_keys)
  qed simp
  then show "k \<in> dom (parseKV s) \<Longrightarrow> trimmed k"
    by (force simp: parseKV_def)
qed

section \<open>Pod identifiers\<close>

lemma podOrdinal_dec_nat:
  assumes "\<not> is_digit c"
  shows "podOrdinal (b @ c # dec_nat n) = Some (dec_nat n)"
proof -
  have "takeWhile is_digit (rev (dec_nat n) @ c # rev b) = rev (dec_nat n)"
    using assms by (subst takeWhile_append2) (auto dest: dec_nat_digits)
  then show ?thesis
    by (simp add: podOrdinal_def)
qed

lemma of_char_less: "(of_char c :: nat) < 256"
  by (metis mod_less_divisor of_char_mod_256 zero_less_numeral)

lemma unat_byte_of: "unat (byte_of c :: u64) = of_char c"
proof -
  have "(of_char c :: nat) < 2 ^ LENGTH(64)"
    by (rule less_trans [OF of_char_less]) simp
  then show ?thesis
    by (simp add: byte_of_def unsigned_of_nat take_bit_nat_eq_self)
qed

lemma byte_of_inj: "byte_of a = (byte_of b :: u64) \<longleftrightarrow> a = b"
  by (metis unat_byte_of of_char_eq_iff)

lemma fnv64_prime_odd: "odd (uint (1099511628211 :: u64))"
  by simp

lemma fnv64_step_inj:
  "((h :: u64) XOR x) * 1099511628211 = (k XOR y) * 1099511628211 \<longleftrightarrow> h XOR x = k XOR y"
  by (rule iffI, erule odd_mult_inj [OF fnv64_prime_odd], simp only:)

lemma fnv64_state_inj: "fnv64 h s = fnv64 k s \<longleftrightarrow> h = k"
  by (induction s arbitrary: h k) (simp_all add: fnv64_step_inj xor_right_inj)

lemma fnv64_append: "fnv64 h (s @ t) = fnv64 (fnv64 h s) t"
  by (induction s arbitrary: h) simp_all

lemma fnv64_byte_inj: "fnv64 h [a] = fnv64 h [b] \<longleftrightarrow> a = b"
  by (simp add: fnv64_step_inj xor_left_inj byte_of_inj)

lemma fnv64_one_byte:
  assumes "a \<noteq> b"
  shows "fnv64 h (p @ a # s) \<noteq> fnv64 h (p @ b # s)"
proof -
  have "fnv64 h (p @ c # s) = fnv64 (fnv64 (fnv64 h p) [c]) s" for c
    by (simp add: fnv64_append)
  with assms show ?thesis
    by (metis fnv64_state_inj fnv64_byte_inj)
qed

end
