(* ===== verification/ConfigProps.thy ===== *)
theory ConfigProps
  imports Config
begin

text \<open>
  The properties of \<open>internal/config\<close>: what \<open>validate\<close> accepts, what the two list parsers read back, and
  the per-pod identifiers.
\<close>

section \<open>Validation\<close>

text \<open>
  \<open>validate\<close> accepts exactly the valid configurations, and the settings of the sink that is not
  selected make no difference to its verdict.
\<close>

theorem validate_accepts:
  "(validate c = None \<longleftrightarrow> valid_config c)
     \<and> (Sink c = ''otlp'' \<longrightarrow> validate (c\<lparr>CH := ch\<rparr>) = validate c)
     \<and> (Sink c = ''clickhouse'' \<longrightarrow> validate (c\<lparr>OTLP := otlp\<rparr>) = validate c)"
  by (auto simp: validate_iff) (simp_all add: validate_def)

definition sample_config :: Config where
  "sample_config =
     \<lparr>Sink = ''otlp'', ReplicaIndex = 3, Seed = 42, HostID = 7, Metrics = \<lparr>Addr = '':8888''\<rparr>,
      Gen = \<lparr>Rate = Finite 1000, Ramp = 0, Duration = 0, MaxSpans = 100, Workers = 2, Services = 30,
             SpansPerTraceMin = 5, SpansPerTraceMax = 20, ErrorRate = Finite (1 / 64), EventRate = Finite (1 / 8)\<rparr>,
      CH = \<lparr>Endpoints = [''a:9000'', ''b:9000''], Database = ''otel'', Table = ''otel_traces'',
            Protocol = ''native'', Mode = ''shard-roundrobin'', Schema = ''map'', Username = ''default'',
            Password = [], TLS = False, Compression = ''lz4'', BatchSize = 5000, MaxOpenConns = 16,
            BlockBuffer = 16, Async = True, WaitForAsync = True, AsyncMaxDataSize = 0,
            AsyncBusyTimeoutMs = 0, DialTimeout = 10000000000, SendTimeout = 30000000000\<rparr>,
      OTLP = \<lparr>Endpoint = ''localhost:4317'', Insecure = True, Headers = Map.empty, Gzip = False,
              SpansPerRequest = 2000, Connections = 4, Timeout = 30000000000\<rparr>\<rparr>"

lemma validate_accepts_witness:
  "validate sample_config = None \<and> validate (sample_config\<lparr>CH := (CH sample_config)\<lparr>Protocol := ''udp''\<rparr>\<rparr>) = None
     \<and> validate (sample_config\<lparr>Sink := ''clickhouse'', OTLP := (OTLP sample_config)\<lparr>Endpoint := []\<rparr>\<rparr>) = None"
  using validate_accepts [of sample_config "(CH sample_config)\<lparr>Protocol := ''udp''\<rparr>"]
    validate_accepts [of "sample_config\<lparr>Sink := ''clickhouse''\<rparr>" _ "(OTLP sample_config)\<lparr>Endpoint := []\<rparr>"]
  by (simp add: sample_config_def valid_config_def valid_clickhouse_def)

section \<open>List and key-value parsers\<close>

text \<open>
  \<open>splitCSV\<close> reads back every list of non-empty trimmed entries without commas, and it returns
  nothing else: empty entries and surrounding space are dropped.
\<close>

theorem splitCSV_roundtrip:
  "(\<forall>p \<in> set (splitCSV s). p \<noteq> [] \<and> trimmed p \<and> CHR '','' \<notin> set p)
     \<and> splitCSV (join_byte (CHR '','') (splitCSV s)) = splitCSV s"
  using splitCSV_elem [of _ s] by (auto intro!: splitCSV_join)

lemma splitCSV_roundtrip_witness:
  "splitCSV '' a:9000, ,b:9000,'' = [''a:9000'', ''b:9000'']
     \<and> splitCSV (join_byte (CHR '','') (splitCSV '' a:9000, ,b:9000,'')) = splitCSV '' a:9000, ,b:9000,''
     \<and> list_all trimmed (splitCSV '' a:9000, ,b:9000,'')"
proof -
  have "splitCSV '' a:9000, ,b:9000,'' = [''a:9000'', ''b:9000'']"
    by (simp add: splitCSV_def text_eval)
  then show ?thesis
    using splitCSV_roundtrip [of "'' a:9000, ,b:9000,''"] by (simp add: list_all_iff)
qed

text \<open>
  C28. \<open>parseKV\<close> reads back every list of pairs that fits the notation, and of two pairs with the same key
  the later one counts.
\<close>

theorem parseKV_roundtrip:
  assumes "kvs \<noteq> []" and "\<And>kv. kv \<in> set kvs \<Longrightarrow> kv_ok kv"
  shows "parseKV (join_byte (CHR '','') (map kv_text kvs)) = map_of (rev kvs)"
  using assms by (rule parseKV_text)

lemma parseKV_roundtrip_witness:
  "parseKV (join_byte (CHR '','') (map kv_text [(''a'', ''1''), (''b'', ''x=y''), (''a'', ''2'')]))
     = map_of (rev [(''a'', ''1''), (''b'', ''x=y''), (''a'', ''2'')])"
proof (rule parseKV_roundtrip)
  have "list_all kv_ok [(''a'', ''1''), (''b'', ''x=y''), (''a'', ''2'')]"
    by (simp add: kv_ok_def text_eval)
  then show "kv_ok kv" if "kv \<in> set [(''a'', ''1''), (''b'', ''x=y''), (''a'', ''2'')]" for kv
    using that by (simp only: list_all_iff)
qed simp

section \<open>Pod identifiers\<close>

text \<open>
  The replica index of a pod is the number its name ends in (the ordinal of a StatefulSet pod), if it
  fits an \<open>int\<close>; for a name that ends in no digit it is a hash below 1024.
\<close>

theorem detectReplicaIndex_ordinal:
  assumes "Hostname E = b @ c # dec_nat n" and "\<not> is_digit c" and "n < 2 ^ 63"
  shows "detectReplicaIndex E = int n"
  using assms by (simp add: detectReplicaIndex_def pod_hostname_def podOrdinal_dec_nat atoi_dec_nat Let_def)

definition sample_env :: "string \<Rightarrow> os_env" where
  "sample_env h = \<lparr>LookupEnv = (\<lambda>k. None), Hostname = h, RandRead = None, UnixNano = 0\<rparr>"

lemma detectReplicaIndex_ordinal_witness:
  "detectReplicaIndex (sample_env (''spangen'' @ CHR ''-'' # dec_nat 7)) = 7"
  using detectReplicaIndex_ordinal [of "sample_env (''spangen'' @ CHR ''-'' # dec_nat 7)" "''spangen''" "CHR ''-''" 7]
  by (simp add: sample_env_def not_digit_sign)

text \<open>
  Without an ordinal, or with one that overflows, the replica index is in \<open>[0, 1023]\<close>; in every case
  it is at least 0.
\<close>

lemma atoi_digits_nonneg: "podOrdinal h = Some m \<Longrightarrow> atoi m = Some n \<Longrightarrow> 0 \<le> n"
proof -
  assume "podOrdinal h = Some m" and n: "atoi m = Some n"
  then have m: "m = rev (takeWhile is_digit (rev h))" "m \<noteq> []"
    by (auto simp: podOrdinal_def Let_def split: if_splits)
  then have "is_digit (hd m)"
    by (metis hd_in_set set_rev set_takeWhileD)
  then show "0 \<le> n"
    using n m(2) not_digit_sign by (cases m) (auto simp: atoi_def split: if_splits)
qed

theorem detectReplicaIndex_range:
  "0 \<le> detectReplicaIndex E
     \<and> (detectReplicaIndex E < 1024 \<or> (\<exists>m. podOrdinal (pod_hostname E) = Some m
          \<and> atoi m = Some (detectReplicaIndex E)))"
proof -
  have "uint (h mod 1024 :: u32) < 1024" for h
    by (simp add: uint_mod)
  then show ?thesis
    using atoi_digits_nonneg [of "pod_hostname E"]
    by (auto simp: detectReplicaIndex_def Let_def split: option.splits)
qed

text \<open>
  Two pods whose names differ in one byte have different host ids.
\<close>

theorem hostID_one_byte:
  assumes "Hostname E = p @ a # s" and "Hostname F = p @ b # s" and "a \<noteq> b"
  shows "hostID E \<noteq> hostID F"
  using assms fnv64_one_byte [OF assms(3), of hostID_basis p s]
  by (simp add: hostID_def pod_hostname_def Let_def)

lemma hostID_one_byte_witness:
  "hostID (sample_env (''spangen-'' @ CHR ''1'' # [])) \<noteq> hostID (sample_env (''spangen-'' @ CHR ''2'' # []))"
  by (rule hostID_one_byte [where p = "''spangen-''" and s = "[]" and a = "CHR ''1''" and b = "CHR ''2''"])
    (simp_all add: sample_env_def)

end
