(* ===== verification/GoNumber.thy ===== *)
theory GoNumber
  imports GoText GoFloat
begin

text \<open>
  The conversions of \<open>strconv\<close> and \<open>time\<close> that read the settings: \<open>ParseInt\<close> and \<open>ParseUint\<close> with base 0 and 64
  bits, \<open>ParseBool\<close>, \<open>ParseFloat\<close> and \<open>ParseDuration\<close>. \<^term>\<open>None\<close> is any error. A \<open>float64\<close> may be infinite or NaN
  here; the sign of zero is not kept.
\<close>

section \<open>Integers\<close>

definition lower :: "char \<Rightarrow> char" where
  "lower c = (if 65 \<le> (of_char c :: nat) \<and> (of_char c :: nat) \<le> 90 then char_of ((of_char c :: nat) + 32) else c)"

text \<open>The value of a digit, letters included.\<close>

definition digit36 :: "char \<Rightarrow> nat option" where
  "digit36 c =
     (let l = of_char (lower c) in
      if is_digit c then Some (digit_val c)
      else if 97 \<le> l \<and> l \<le> 122 then Some (l - 97 + 10)
      else None)"

definition digit_in :: "nat \<Rightarrow> char \<Rightarrow> nat option" where
  "digit_in base c = (case digit36 c of Some d \<Rightarrow> if d < base then Some d else None | None \<Rightarrow> None)"

text \<open>
  \<open>underscoreOK\<close>: underscores separate digits, or a base prefix and a digit. The loop keeps the kind of the
  previous byte: \<open>0\<close> for a digit, \<open>_\<close>, and anything else.
\<close>

fun underscores_ok :: "bool \<Rightarrow> char \<Rightarrow> string \<Rightarrow> bool" where
  "underscores_ok hex p [] = (p \<noteq> CHR ''_'')"
| "underscores_ok hex p (c # s) =
     (if digit_in (if hex then 16 else 10) c \<noteq> None then underscores_ok hex (CHR ''0'') s
      else if c = CHR ''_'' then p = CHR ''0'' \<and> underscores_ok hex (CHR ''_'') s
      else p \<noteq> CHR ''_'' \<and> underscores_ok hex (CHR ''!'') s)"

definition has_sign :: "string \<Rightarrow> bool" where
  "has_sign s \<longleftrightarrow> s \<noteq> [] \<and> (hd s = CHR ''-'' \<or> hd s = CHR ''+'')"

definition no_sign :: "string \<Rightarrow> string" where
  "no_sign s = (if has_sign s then tl s else s)"

definition base_prefix :: "string \<Rightarrow> char \<Rightarrow> bool" where
  "base_prefix s l \<longleftrightarrow> (case s of z # b # _ \<Rightarrow> z = CHR ''0'' \<and> lower b = l | _ \<Rightarrow> False)"

definition underscoreOK :: "string \<Rightarrow> bool" where
  "underscoreOK s =
     (let s = no_sign s in
      if base_prefix s (CHR ''b'') \<or> base_prefix s (CHR ''o'') \<or> base_prefix s (CHR ''x'')
      then underscores_ok (base_prefix s (CHR ''x'')) (CHR ''0'') (drop 2 s)
      else underscores_ok False (CHR ''^'') s)"

fun uint_digits :: "nat \<Rightarrow> nat \<Rightarrow> string \<Rightarrow> nat option" where
  "uint_digits base n [] = Some n"
| "uint_digits base n (c # s) =
     (if c = CHR ''_'' then uint_digits base n s
      else case digit_in base c of
        None \<Rightarrow> None
      | Some d \<Rightarrow> if n * base + d < 2 ^ 64 then uint_digits base (n * base + d) s else None)"

text \<open>\<open>strconv.ParseUint(s, 0, 64)\<close>.\<close>

definition parseUint :: "string \<Rightarrow> nat option" where
  "parseUint s =
     (if s = [] then None
      else let (base, ds) =
             (if hd s = CHR ''0'' then
                (if 3 \<le> length s \<and> base_prefix s (CHR ''b'') then (2, drop 2 s)
                 else if 3 \<le> length s \<and> base_prefix s (CHR ''o'') then (8, drop 2 s)
                 else if 3 \<le> length s \<and> base_prefix s (CHR ''x'') then (16, drop 2 s)
                 else (8, tl s))
              else (10, s))
           in if CHR ''_'' \<in> set ds \<and> \<not> underscoreOK s then None else uint_digits base 0 ds)"

text \<open>\<open>strconv.ParseInt(s, 0, 64)\<close>.\<close>

definition parseInt :: "string \<Rightarrow> int option" where
  "parseInt s =
     (case parseUint (no_sign s) of
        None \<Rightarrow> None
      | Some un \<Rightarrow>
          let i = (if has_sign s \<and> hd s = CHR ''-'' then - int un else int un)
          in if - (2 ^ 63) \<le> i \<and> i < 2 ^ 63 then Some i else None)"

section \<open>Floating-point numbers\<close>

text \<open>Rounding to \<open>float64\<close> with its exponent range; \<^term>\<open>None\<close> is the overflow.\<close>

definition to_float64 :: "rat \<Rightarrow> rat option" where
  "to_float64 x =
     (let r = (if \<bar>x\<bar> < pow2 (-1022) then sgn x * (of_int (round_even (\<bar>x\<bar> / pow2 (-1074))) * pow2 (-1074)) else fl x)
      in if \<bar>r\<bar> < pow2 1024 then Some r else None)"

text \<open>\<open>special\<close>, where all of the text is consumed.\<close>

definition parse_special :: "string \<Rightarrow> float64 option" where
  "parse_special s =
     (let l = map lower (no_sign s) in
      if l = ''inf'' \<or> l = ''infinity'' then Some (Infinite (has_sign s \<and> hd s = CHR ''-''))
      else if map lower s = ''nan'' then Some NaN
      else None)"

text \<open>
  The mantissa: its digits as one number, how many of them stand behind the point, whether there is any,
  and the rest of the text.
\<close>

fun scan_mantissa :: "nat \<Rightarrow> bool \<Rightarrow> nat \<Rightarrow> nat \<Rightarrow> bool \<Rightarrow> string \<Rightarrow> nat \<times> nat \<times> bool \<times> string" where
  "scan_mantissa base dot m nfrac some [] = (m, nfrac, some, [])"
| "scan_mantissa base dot m nfrac some (c # s) =
     (if c = CHR ''_'' then scan_mantissa base dot m nfrac some s
      else if c = CHR ''.'' then
        (if dot then (m, nfrac, some, c # s) else scan_mantissa base True m nfrac some s)
      else case digit_in base c of
        Some d \<Rightarrow> scan_mantissa base dot (m * base + d) (if dot then nfrac + 1 else nfrac) True s
      | None \<Rightarrow> (m, nfrac, some, c # s))"

text \<open>The digits of an exponent, which saturates.\<close>

fun scan_exponent :: "nat \<Rightarrow> string \<Rightarrow> nat \<times> string" where
  "scan_exponent e [] = (e, [])"
| "scan_exponent e (c # s) =
     (if c = CHR ''_'' then scan_exponent e s
      else if is_digit c then scan_exponent (if e < 10000 then e * 10 + digit_val c else e) s
      else (e, c # s))"

definition parse_exponent :: "string \<Rightarrow> (int \<times> string) option" where
  "parse_exponent s =
     (let neg = (has_sign s \<and> hd s = CHR ''-''); ds = no_sign s
      in if ds = [] \<or> \<not> is_digit (hd ds) then None
         else let (e, rest) = scan_exponent 0 ds in Some (if neg then - int e else int e, rest))"

text \<open>\<open>strconv.ParseFloat(s, 64)\<close>.\<close>

definition parseFloat :: "string \<Rightarrow> float64 option" where
  "parseFloat s =
     (case parse_special s of
        Some f \<Rightarrow> Some f
      | None \<Rightarrow>
          let neg = (has_sign s \<and> hd s = CHR ''-''); t = no_sign s;
              hex = (3 \<le> length t \<and> base_prefix t (CHR ''x''));
              (m, nfrac, some, rest) = scan_mantissa (if hex then 16 else 10) False 0 0 False (if hex then drop 2 t else t);
              ex = (if rest \<noteq> [] \<and> lower (hd rest) = (if hex then CHR ''p'' else CHR ''e'') then parse_exponent (tl rest)
                    else if hex then None else Some (0, rest))
          in if \<not> some then None
             else case ex of
               None \<Rightarrow> None
             | Some (e, rest) \<Rightarrow>
                 if rest \<noteq> [] \<or> CHR ''_'' \<in> set s \<and> \<not> underscoreOK s then None
                 else let v = (if hex then of_nat m * pow2 (e - 4 * int nfrac)
                               else of_nat m * (10 powi (e - int nfrac)))
                      in map_option Finite (to_float64 (if neg then - v else v)))"

section \<open>Durations\<close>

text \<open>\<open>leadingInt\<close>: \<^term>\<open>None\<close> is the overflow.\<close>

fun leadingInt :: "nat \<Rightarrow> string \<Rightarrow> (nat \<times> string) option" where
  "leadingInt x [] = Some (x, [])"
| "leadingInt x (c # s) =
     (if is_digit c then
        (if x > 2 ^ 63 div 10 then None
         else let x = x * 10 + digit_val c in if x > 2 ^ 63 then None else leadingInt x s)
      else Some (x, c # s))"

text \<open>\<open>leadingFraction\<close>: digits that no longer fit are skipped.\<close>

fun leadingFraction :: "nat \<Rightarrow> rat \<Rightarrow> bool \<Rightarrow> string \<Rightarrow> nat \<times> rat \<times> string" where
  "leadingFraction x scale over [] = (x, scale, [])"
| "leadingFraction x scale over (c # s) =
     (if \<not> is_digit c then (x, scale, c # s)
      else if over then leadingFraction x scale True s
      else if x > (2 ^ 63 - 1) div 10 then leadingFraction x scale True s
      else let y = x * 10 + digit_val c
           in if y > 2 ^ 63 then leadingFraction x scale True s
              else leadingFraction y (fl (scale * 10)) False s)"

definition unitMap :: "(string \<times> nat) list" where
  "unitMap = [(''ns'', 1), (''us'', 1000), ([CHR 0xC2, CHR 0xB5, CHR ''s''], 1000), ([CHR 0xCE, CHR 0xBC, CHR ''s''], 1000),
     (''ms'', 1000000), (''s'', 1000000000), (''m'', 60000000000), (''h'', 3600000000000)]"

definition is_unit_byte :: "char \<Rightarrow> bool" where
  "is_unit_byte c \<longleftrightarrow> c \<noteq> CHR ''.'' \<and> \<not> is_digit c"

lemma leadingInt_shorter: "leadingInt x s = Some (v, t) \<Longrightarrow> length t \<le> length s"
  by (induction x s rule: leadingInt.induct) (auto simp: Let_def split: if_splits)

lemma leadingFraction_shorter: "leadingFraction x sc over s = (v, sc', t) \<Longrightarrow> length t \<le> length s"
proof (induction x sc over s rule: leadingFraction.induct)
  case (2 x sc over c s)
  then show ?case
    by (auto simp: Let_def split: if_splits)
qed simp

text \<open>The fraction, if there is a point: its digits, their scale, whether there are any, and the rest.\<close>

definition fraction_part :: "string \<Rightarrow> nat \<times> rat \<times> bool \<times> string" where
  "fraction_part s =
     (if s \<noteq> [] \<and> hd s = CHR ''.'' then
        (let (f, scale, t) = leadingFraction 0 1 False (tl s) in (f, scale, length t \<noteq> length (tl s), t))
      else (0, 1, False, s))"

lemma fraction_part_shorter: "fraction_part s = (f, scale, post, t) \<Longrightarrow> length t \<le> length s"
  using leadingFraction_shorter [of 0 1 False "tl s"]
  by (cases "leadingFraction 0 1 False (tl s)") (force simp: fraction_part_def split: if_splits)

text \<open>One number with its unit: its nanoseconds and the rest.\<close>

definition duration_part :: "string \<Rightarrow> (nat \<times> string) option" where
  "duration_part s =
     (case leadingInt 0 s of
        None \<Rightarrow> None
      | Some (v, s1) \<Rightarrow>
          let pre = (length s1 \<noteq> length s);
              (f, scale, post, s2) = fraction_part s1;
              u = takeWhile is_unit_byte s2
          in if \<not> pre \<and> \<not> post \<or> u = [] then None
             else case map_of unitMap u of
               None \<Rightarrow> None
             | Some unit \<Rightarrow>
                 if v > 2 ^ 63 div unit then None
                 else let v = v * unit;
                          v = (if f > 0 then v + nat \<lfloor>fl (fl (of_nat f) * fl (fl (of_nat unit) / scale))\<rfloor> else v)
                      in if v > 2 ^ 63 then None else Some (v, dropWhile is_unit_byte s2))"

lemma duration_part_shorter: "duration_part s = Some (v, t) \<Longrightarrow> length t < length s"
proof -
  assume part: "duration_part s = Some (v, t)"
  then obtain v1 s1 where s1: "leadingInt 0 s = Some (v1, s1)"
    by (auto simp: duration_part_def split: option.splits)
  obtain f sc post s2 where s2: "fraction_part s1 = (f, sc, post, s2)"
    by (metis prod_cases4)
  have "length s2 \<le> length s1"
    by (rule fraction_part_shorter [OF s2])
  moreover have "takeWhile is_unit_byte s2 \<noteq> []" "t = dropWhile is_unit_byte s2"
    using part by (simp_all add: duration_part_def s1 s2 Let_def split: option.splits if_splits)
  then have "length t < length s2"
    by (cases s2) (auto simp: le_imp_less_Suc length_dropWhile_le split: if_splits)
  ultimately show ?thesis
    using leadingInt_shorter [OF s1] by linarith
qed

function duration_parts :: "nat \<Rightarrow> string \<Rightarrow> nat option" where
  "duration_parts d s =
     (if s = [] then Some d
      else case duration_part s of
        None \<Rightarrow> None
      | Some (v, t) \<Rightarrow>
          let d = (d + v) mod 2 ^ 64 in if d > 2 ^ 63 then None else duration_parts d t)"
  by pat_completeness auto
termination
  by (relation "measure (length \<circ> snd)") (auto dest: duration_part_shorter)

declare duration_parts.simps [simp del]

text \<open>\<open>time.ParseDuration\<close>.\<close>

definition parseDuration :: "string \<Rightarrow> int option" where
  "parseDuration s =
     (let neg = (has_sign s \<and> hd s = CHR ''-''); t = no_sign s
      in if t = ''0'' then Some 0
         else if t = [] then None
         else case duration_parts 0 t of
           None \<Rightarrow> None
         | Some d \<Rightarrow> if neg then Some (- int d) else if d > 2 ^ 63 - 1 then None else Some (int d))"

section \<open>Ranges\<close>

definition int64 :: "int \<Rightarrow> bool" where
  "int64 i \<longleftrightarrow> - (2 ^ 63) \<le> i \<and> i < 2 ^ 63"

lemma atoi_int64: "atoi s = Some i \<Longrightarrow> int64 i"
  by (auto simp: atoi_def Let_def int64_def split: if_splits)

lemma parseInt_int64: "parseInt s = Some i \<Longrightarrow> int64 i"
  by (auto simp: parseInt_def Let_def int64_def split: option.splits if_splits)

lemma duration_parts_range: "duration_parts d s = Some r \<Longrightarrow> d \<le> 2 ^ 63 \<Longrightarrow> r \<le> 2 ^ 63"
proof (induction d s rule: duration_parts.induct)
  case (1 d s)
  then show ?case
    by (auto simp: Let_def duration_parts.simps [of d s] split: if_splits option.splits)
qed

lemma parseDuration_int64: "parseDuration s = Some d \<Longrightarrow> int64 d"
proof -
  have "r \<le> 2 ^ 63" if "duration_parts 0 t = Some r" for t r
    using duration_parts_range [OF that] by simp
  moreover have "r \<le> 2 ^ 63 \<longleftrightarrow> int r \<le> 2 ^ 63" "r \<le> 2 ^ 63 - 1 \<longleftrightarrow> int r < 2 ^ 63" for r
    by auto
  ultimately show "parseDuration s = Some d \<Longrightarrow> int64 d"
    unfolding parseDuration_def int64_def
    by (fastforce simp: Let_def split: if_splits option.splits)
qed

section \<open>The results of \<open>ParseFloat\<close> are \<open>float64\<close> values\<close>

lemma is_float_neg: "is_float x \<Longrightarrow> is_float (- x)"
  by (simp add: is_float_def fl_neg)

lemma pow2_nonneg_int: "0 \<le> k \<Longrightarrow> pow2 k = of_int (2 ^ nat k)"
  by (simp add: pow2_def)

lemma pow2_le_iff: "pow2 a \<le> pow2 b \<longleftrightarrow> a \<le> b"
  by (simp only: not_less [symmetric] pow2_less_iff)

lemma is_float_pos:
  assumes "0 < m" and "m \<le> 2 ^ 53"
  shows "is_float (of_int m * pow2 k)"
proof -
  define x where "x = of_int m * pow2 k"
  define j where "j = k - (ilog2 x - 52)"
  have pos: "0 < x"
    using assms(1) by (simp add: x_def)
  have m: "of_int m \<le> (2 ^ 53 :: rat)"
    using assms(2) by (metis of_int_le_iff of_int_numeral of_int_power)
  have top: "pow2 (53 + k) = 2 ^ 53 * pow2 k"
    by (simp add: pow2_add) (simp add: pow2_def)
  have "x \<le> pow2 (53 + k)"
    unfolding top x_def using m by (intro mult_right_mono) (auto simp: less_imp_le)
  then have "pow2 (ilog2 x) \<le> pow2 (53 + k)"
    using ilog2_bounds(1) [OF pos] by linarith
  then have "- 1 \<le> j"
    by (simp add: pow2_le_iff j_def)
  have q: "x / pow2 (ilog2 x - 52) = of_int m * pow2 j"
    by (simp add: x_def j_def pow2_diff)
  have "\<exists>n. x / pow2 (ilog2 x - 52) = of_int n"
  proof (cases "0 \<le> j")
    case True
    then have "x / pow2 (ilog2 x - 52) = of_int (m * 2 ^ nat j)"
      by (simp add: q pow2_nonneg_int)
    then show ?thesis ..
  next
    case False
    with \<open>- 1 \<le> j\<close> have j: "j = - 1" by simp
    then have "ilog2 x = 53 + k"
      by (simp add: j_def)
    then have "2 ^ 53 * pow2 k \<le> of_int m * pow2 k"
      using ilog2_bounds(1) [OF pos] top by (simp add: x_def)
    then have "of_int m = (2 ^ 53 :: rat)"
      using m by simp
    then have "x / pow2 (ilog2 x - 52) = of_int (2 ^ 52)"
      unfolding q j by (simp add: pow2_def)
    then show ?thesis ..
  qed
  then show ?thesis
    unfolding is_float_def x_def [symmetric] fl_pos [OF pos]
    by (metis nonzero_eq_divide_eq pow2_neq_0 round_even_of_int)
qed

lemma is_float_0: "is_float 0"
  by (simp add: is_float_def)

lemma is_float_sgn: "0 \<le> m \<Longrightarrow> m \<le> 2 ^ 53 \<Longrightarrow> is_float (sgn x * (of_int m * pow2 k))"
  using is_float_pos [of m k] is_float_neg [of "of_int m * pow2 k"]
  by (cases "m = 0"; cases x "0 :: rat" rule: linorder_cases) (simp_all add: is_float_0)

lemma is_float_fl: "is_float (fl x)"
proof (cases "x = 0")
  case False
  then have "0 < \<bar>x\<bar>" by simp
  then show ?thesis
    using significand_bounds [of "\<bar>x\<bar>"] False unfolding fl_def Let_def
    by (simp add: is_float_sgn del: abs_divide)
qed (simp add: is_float_0)

lemma is_float_to_float64: "to_float64 x = Some y \<Longrightarrow> is_float y"
proof -
  have "is_float (sgn x * (of_int (round_even (\<bar>x\<bar> / pow2 (-1074))) * pow2 (-1074)))" if small: "\<bar>x\<bar> < pow2 (-1022)"
  proof (rule is_float_sgn)
    have "\<bar>x\<bar> / pow2 (-1074) \<le> pow2 (-1022) / pow2 (-1074)"
      using small by (intro divide_right_mono) (auto simp: less_imp_le)
    also have "\<dots> = of_int (2 ^ 52)"
      unfolding pow2_diff [symmetric] by (simp add: pow2_def)
    finally have "round_even (\<bar>x\<bar> / pow2 (-1074)) \<le> 2 ^ 52"
      using round_even_mono round_even_of_int by metis
    then show "round_even (\<bar>x\<bar> / pow2 (-1074)) \<le> 2 ^ 53"
      by simp
    have "of_int 0 \<le> \<bar>x\<bar> / pow2 (-1074)"
      by (simp add: less_imp_le)
    then show "0 \<le> round_even (\<bar>x\<bar> / pow2 (-1074))"
      using round_even_mono round_even_of_int by metis
  qed
  then show "to_float64 x = Some y \<Longrightarrow> is_float y"
    using is_float_fl [of x] by (auto simp: to_float64_def Let_def split: if_splits)
qed

definition is_float64 :: "float64 \<Rightarrow> bool" where
  "is_float64 f \<longleftrightarrow> (case f of Finite x \<Rightarrow> is_float x | _ \<Rightarrow> True)"

lemma parseFloat_is_float64: "parseFloat s = Some f \<Longrightarrow> is_float64 f"
  using is_float_to_float64
  by (auto simp: parseFloat_def parse_special_def Let_def is_float64_def split: if_splits option.splits prod.splits)

end
