(* ===== verification/GoFlag.thy ===== *)
theory GoFlag
  imports GoNumber Config
begin

text \<open>
  The part of Go's \<open>flag\<close> package that the program uses: a flag sets a field of the settings \<open>'c\<close>, first to
  its default and then to what the command line says; errors end the process (\<open>ExitOnError\<close>).
\<close>

section \<open>Flags\<close>

datatype 'c flagvar =
    StringVar "string \<Rightarrow> 'c \<Rightarrow> 'c" string string
  | IntVar "int \<Rightarrow> 'c \<Rightarrow> 'c" string int
  | Uint64Var "u64 \<Rightarrow> 'c \<Rightarrow> 'c" string u64
  | Float64Var "float64 \<Rightarrow> 'c \<Rightarrow> 'c" string float64
  | BoolVar "bool \<Rightarrow> 'c \<Rightarrow> 'c" string bool
  | DurationVar "int \<Rightarrow> 'c \<Rightarrow> 'c" string int

fun flag_name :: "'c flagvar \<Rightarrow> string" where
  "flag_name (StringVar f n d) = n"
| "flag_name (IntVar f n d) = n"
| "flag_name (Uint64Var f n d) = n"
| "flag_name (Float64Var f n d) = n"
| "flag_name (BoolVar f n d) = n"
| "flag_name (DurationVar f n d) = n"

fun is_bool_flag :: "'c flagvar \<Rightarrow> bool" where
  "is_bool_flag (BoolVar f n d) = True"
| "is_bool_flag _ = False"

fun flag_default :: "'c flagvar \<Rightarrow> 'c \<Rightarrow> 'c" where
  "flag_default (StringVar f n d) c = f d c"
| "flag_default (IntVar f n d) c = f d c"
| "flag_default (Uint64Var f n d) c = f d c"
| "flag_default (Float64Var f n d) c = f d c"
| "flag_default (BoolVar f n d) c = f d c"
| "flag_default (DurationVar f n d) c = f d c"

text \<open>\<open>Value.Set\<close>; \<^term>\<open>None\<close> is its error.\<close>

fun flag_set :: "'c flagvar \<Rightarrow> string \<Rightarrow> ('c \<Rightarrow> 'c) option" where
  "flag_set (StringVar f n d) s = Some (f s)"
| "flag_set (IntVar f n d) s = map_option f (parseInt s)"
| "flag_set (Uint64Var f n d) s = map_option (\<lambda>u. f (of_nat u)) (parseUint s)"
| "flag_set (Float64Var f n d) s = map_option f (parseFloat s)"
| "flag_set (BoolVar f n d) s = map_option f (parseBool s)"
| "flag_set (DurationVar f n d) s = map_option f (parseDuration s)"

text \<open>Registration sets the default; a bad or repeated name panics.\<close>

definition flag_name_ok :: "string \<Rightarrow> bool" where
  "flag_name_ok n \<longleftrightarrow> (n = [] \<or> hd n \<noteq> CHR ''-'') \<and> CHR ''='' \<notin> set n"

fun define_flags :: "string list \<Rightarrow> 'c flagvar list \<Rightarrow> 'c \<Rightarrow> 'c option" where
  "define_flags seen [] c = Some c"
| "define_flags seen (f # fs) c =
     (if \<not> flag_name_ok (flag_name f) \<or> flag_name f \<in> set seen then None
      else define_flags (flag_name f # seen) fs (flag_default f c))"

section \<open>The command line\<close>

text \<open>How \<open>flag.Parse\<close> ends: with the settings and the arguments it left, or in \<open>os.Exit\<close>.\<close>

datatype 'c flag_result = FlagsDone 'c "string list" | FlagsExit int

text \<open>A name and its value, if there is an equals sign behind the first byte.\<close>

definition cut_value :: "string \<Rightarrow> string \<times> string option" where
  "cut_value name =
     (let i = index_byte (tl name) (CHR ''='')
      in if i < 0 then (name, None) else (take (nat i + 1) name, Some (drop (nat i + 2) name)))"

definition find_flag :: "'c flagvar list \<Rightarrow> string \<Rightarrow> 'c flagvar option" where
  "find_flag fs name = find (\<lambda>f. flag_name f = name) fs"

text \<open>
  \<open>parseOne\<close>: the end of the flags with the arguments behind them, the end of the process, or an assignment
  and the arguments that are left.
\<close>

datatype 'c parsed_one = NoFlag "string list" | BadFlag int | Assign "'c \<Rightarrow> 'c" "string list"

definition set_or_fail :: "'c flagvar \<Rightarrow> string \<Rightarrow> string list \<Rightarrow> 'c parsed_one" where
  "set_or_fail f v rest = (case flag_set f v of None \<Rightarrow> BadFlag 2 | Some u \<Rightarrow> Assign u rest)"

definition flag_value :: "'c flagvar \<Rightarrow> string option \<Rightarrow> string list \<Rightarrow> 'c parsed_one" where
  "flag_value f val args =
     (if is_bool_flag f then set_or_fail f (case val of Some v \<Rightarrow> v | None \<Rightarrow> ''true'') args
      else case val of
        Some v \<Rightarrow> set_or_fail f v args
      | None \<Rightarrow> (case args of [] \<Rightarrow> BadFlag 2 | v # rest \<Rightarrow> set_or_fail f v rest))"

definition parseOne :: "'c flagvar list \<Rightarrow> string list \<Rightarrow> 'c parsed_one" where
  "parseOne fs arguments =
     (case arguments of
        [] \<Rightarrow> NoFlag []
      | s # args \<Rightarrow>
          if length s < 2 \<or> hd s \<noteq> CHR ''-'' then NoFlag arguments
          else if s = ''--'' then NoFlag args
          else
            let name = drop (if s ! 1 = CHR ''-'' then 2 else 1) s
            in if name = [] \<or> hd name = CHR ''-'' \<or> hd name = CHR ''='' then BadFlag 2
               else
                 let (name, val) = cut_value name
                 in case find_flag fs name of
                      None \<Rightarrow> BadFlag (if name = ''help'' \<or> name = ''h'' then 0 else 2)
                    | Some f \<Rightarrow> flag_value f val args)"

lemma set_or_fail_Assign: "set_or_fail f v rest = Assign u r \<longleftrightarrow> flag_set f v = Some u \<and> r = rest"
  by (auto simp: set_or_fail_def split: option.splits)

lemma flag_value_Assign:
  "flag_value f val args = Assign u rest \<Longrightarrow> (\<exists>v. flag_set f v = Some u) \<and> length rest \<le> length args"
  by (auto simp: flag_value_def set_or_fail_Assign split: if_splits option.splits list.splits)

lemma find_flag_in: "find_flag fs n = Some f \<Longrightarrow> f \<in> set fs"
  by (auto simp: find_flag_def find_Some_iff)

lemma parseOne_Assign:
  assumes "parseOne fs args = Assign u rest"
  shows "(\<exists>f \<in> set fs. \<exists>v. flag_set f v = Some u) \<and> length rest < length args"
proof -
  obtain s as n val f where "args = s # as" "find_flag fs n = Some f" "flag_value f val as = Assign u rest"
    using assms by (auto simp: parseOne_def Let_def split: list.splits if_splits option.splits prod.splits)
  then show ?thesis
    using flag_value_Assign find_flag_in by (metis le_imp_less_Suc length_Cons)
qed

function parse_flags :: "'c flagvar list \<Rightarrow> string list \<Rightarrow> 'c \<Rightarrow> 'c flag_result" where
  "parse_flags fs args c =
     (case parseOne fs args of
        NoFlag rest \<Rightarrow> FlagsDone c rest
      | BadFlag n \<Rightarrow> FlagsExit n
      | Assign u rest \<Rightarrow> parse_flags fs rest (u c))"
  by pat_completeness auto
termination
  by (relation "measure (\<lambda>(fs, args, c). length args)") (auto dest: parseOne_Assign)

declare parse_flags.simps [simp del]

section \<open>What every flag keeps\<close>

text \<open>A property of the settings that every assignment of a flag's kind of value keeps.\<close>

fun var_keeps :: "('c \<Rightarrow> bool) \<Rightarrow> 'c flagvar \<Rightarrow> bool" where
  "var_keeps P (StringVar f n d) = (\<forall>v c. P c \<longrightarrow> P (f v c))"
| "var_keeps P (IntVar f n d) = (\<forall>v c. int64 v \<longrightarrow> P c \<longrightarrow> P (f v c))"
| "var_keeps P (Uint64Var f n d) = (\<forall>v c. P c \<longrightarrow> P (f v c))"
| "var_keeps P (Float64Var f n d) = (\<forall>v c. is_float64 v \<longrightarrow> P c \<longrightarrow> P (f v c))"
| "var_keeps P (BoolVar f n d) = (\<forall>v c. P c \<longrightarrow> P (f v c))"
| "var_keeps P (DurationVar f n d) = (\<forall>v c. int64 v \<longrightarrow> P c \<longrightarrow> P (f v c))"

fun default_typed :: "'c flagvar \<Rightarrow> bool" where
  "default_typed (IntVar f n d) = int64 d"
| "default_typed (Float64Var f n d) = is_float64 d"
| "default_typed (DurationVar f n d) = int64 d"
| "default_typed _ = True"

lemma flag_set_keeps: "var_keeps P f \<Longrightarrow> flag_set f s = Some u \<Longrightarrow> P c \<Longrightarrow> P (u c)"
  by (cases f) (auto dest: parseInt_int64 parseDuration_int64 parseFloat_is_float64)

lemma flag_default_keeps: "var_keeps P f \<Longrightarrow> default_typed f \<Longrightarrow> P c \<Longrightarrow> P (flag_default f c)"
  by (cases f) auto

text \<open>Settings that keep a property, whatever the command line says.\<close>

locale settings_invariant =
  fixes P :: "'c \<Rightarrow> bool" and fs :: "'c flagvar list"
  assumes keeps: "list_all (var_keeps P) fs"
    and defaults: "list_all default_typed fs"
begin

lemma set_keeps: "f \<in> set fs \<Longrightarrow> flag_set f s = Some u \<Longrightarrow> P c \<Longrightarrow> P (u c)"
  using keeps by (auto simp: list_all_iff intro: flag_set_keeps)

lemma fold_defaults: "set gs \<subseteq> set fs \<Longrightarrow> P c \<Longrightarrow> P (fold flag_default gs c)"
  using keeps defaults by (induction gs arbitrary: c) (auto simp: list_all_iff intro: flag_default_keeps)

lemma parsed: "parse_flags fs args c = FlagsDone c' rest \<Longrightarrow> P c \<Longrightarrow> P c'"
proof (induction args arbitrary: c rule: length_induct)
  case (1 args)
  show ?case
  proof (cases "parseOne fs args")
    case (Assign u as)
    then have "length as < length args" "P (u c)"
      using parseOne_Assign [OF Assign] set_keeps "1.prems"(2) by auto
    with 1 Assign show ?thesis
      by (simp add: parse_flags.simps [of _ args])
  qed (use "1.prems" in \<open>simp_all add: parse_flags.simps [of _ args]\<close>)
qed

end

section \<open>Independent flags\<close>

text \<open>The assignments a flag makes.\<close>

fun assigns :: "'c flagvar \<Rightarrow> ('c \<Rightarrow> 'c) \<Rightarrow> bool" where
  "assigns (StringVar f n d) u = (\<exists>v. u = f v)"
| "assigns (IntVar f n d) u = (\<exists>v. u = f v)"
| "assigns (Uint64Var f n d) u = (\<exists>v. u = f v)"
| "assigns (Float64Var f n d) u = (\<exists>v. u = f v)"
| "assigns (BoolVar f n d) u = (\<exists>v. u = f v)"
| "assigns (DurationVar f n d) u = (\<exists>v. u = f v)"

definition overwrites :: "'c flagvar \<Rightarrow> bool" where
  "overwrites f \<longleftrightarrow> (\<forall>u. assigns f u \<longrightarrow> (\<forall>w. assigns f w \<longrightarrow> (\<forall>c. u (w c) = u c)))"

definition independent :: "'c flagvar \<Rightarrow> 'c flagvar \<Rightarrow> bool" where
  "independent f g \<longleftrightarrow> (\<forall>u. assigns f u \<longrightarrow> (\<forall>w. assigns g w \<longrightarrow> (\<forall>c. u (w c) = w (u c))))"

lemma all_assigned: "(\<forall>u. (\<exists>v. u = f v) \<longrightarrow> P u) \<longleftrightarrow> (\<forall>v. P (f v))"
  by auto

lemmas assign_laws = overwrites_def independent_def assigns.simps all_assigned

lemma assigns_default: "assigns f (flag_default f)"
  by (cases f) (auto simp: fun_eq_iff)

lemma assigns_set: "flag_set f s = Some u \<Longrightarrow> assigns f u"
  by (cases f) auto

text \<open>Two flags that differ in their default only.\<close>

definition same_flag :: "'c flagvar \<Rightarrow> 'c flagvar \<Rightarrow> bool" where
  "same_flag f g \<longleftrightarrow> flag_name f = flag_name g \<and> is_bool_flag f = is_bool_flag g \<and> flag_set f = flag_set g"

lemma find_same:
  "list_all2 same_flag fs gs \<Longrightarrow> rel_option same_flag (find_flag fs n) (find_flag gs n)"
  by (induction rule: list_all2_induct) (auto simp: find_flag_def same_flag_def)

lemma flag_value_same: "same_flag f g \<Longrightarrow> flag_value f = flag_value g"
  by (auto simp: fun_eq_iff flag_value_def set_or_fail_def same_flag_def split: option.split list.split)

lemma parseOne_same: "list_all2 same_flag fs gs \<Longrightarrow> parseOne fs = parseOne gs"
proof -
  assume "list_all2 same_flag fs gs"
  note find = find_same [OF this]
  have "(case find_flag fs n of None \<Rightarrow> x | Some f \<Rightarrow> flag_value f val as)
      = (case find_flag gs n of None \<Rightarrow> x | Some f \<Rightarrow> flag_value f val as)" for n val as x
    using find [of n] by (cases "find_flag fs n"; cases "find_flag gs n") (auto dest!: flag_value_same)
  then show ?thesis
    by (auto simp: parseOne_def fun_eq_iff Let_def split: list.split prod.split)
qed

lemma parse_flags_same:
  assumes "list_all2 same_flag fs gs"
  shows "parse_flags fs args c = parse_flags gs args c"
proof (induction args arbitrary: c rule: length_induct)
  case (1 args)
  then show ?case
    by (simp add: parse_flags.simps [of _ args] parseOne_same [OF assms] parseOne_Assign split: parsed_one.split)
qed

text \<open>A table whose names can be used and whose flags set different fields.\<close>

locale independent_flags =
  fixes fs :: "'c flagvar list"
  assumes names_ok: "list_all (\<lambda>f. flag_name f \<noteq> [] \<and> flag_name_ok (flag_name f)) fs"
    and names_distinct: "distinct (map flag_name fs)"
    and independence: "sorted_wrt independent fs"
    and overwriting: "list_all overwrites fs"
begin

lemma registered_from:
  "set gs \<subseteq> set fs \<Longrightarrow> distinct (map flag_name gs) \<Longrightarrow> set seen \<inter> flag_name ` set gs = {} \<Longrightarrow>
     define_flags seen gs c = Some (fold flag_default gs c)"
proof (induction gs arbitrary: seen c)
  case (Cons g gs)
  then show ?case
    using names_ok by (auto simp: list_all_iff)
qed simp

lemma registered: "define_flags [] fs c = Some (fold flag_default fs c)"
  using names_distinct by (intro registered_from) auto

lemma found: "f \<in> set fs \<Longrightarrow> find_flag fs (flag_name f) = Some f"
  using names_distinct unfolding find_flag_def
  by (induction fs) (auto simp: rev_image_eqI)

text \<open>\<open>-name=value\<close>.\<close>

lemma one_argument:
  assumes "f \<in> set fs"
  shows "parse_flags fs ((CHR ''-'' # flag_name f @ CHR ''='' # v) # args) c =
     (case flag_set f v of None \<Rightarrow> FlagsExit 2 | Some u \<Rightarrow> parse_flags fs args (u c))"
proof -
  have "flag_name f \<noteq> [] \<and> flag_name_ok (flag_name f)"
    using names_ok assms by (auto simp: list_all_iff)
  then obtain a n where n: "flag_name f = a # n" "a \<noteq> CHR ''-''" "a \<noteq> CHR ''=''" "CHR ''='' \<notin> set n"
    by (cases "flag_name f") (auto simp: flag_name_ok_def)
  have "cut_value (a # n @ CHR ''='' # v) = (a # n, Some v)"
    using n(4) by (simp add: cut_value_def index_byte_append Let_def nat_add_distrib)
  then show ?thesis
    using n found [OF assms]
    by (simp add: parse_flags.simps [of _ "_ # _"] parseOne_def Let_def flag_value_def set_or_fail_def split: option.split)
qed

text \<open>Another default is a later assignment.\<close>

lemma fold_commute:
  "(\<And>g c. g \<in> set gs \<Longrightarrow> u (flag_default g c) = flag_default g (u c)) \<Longrightarrow> u (fold flag_default gs c) = fold flag_default gs (u c)"
  by (induction gs arbitrary: c) auto

lemma other_default:
  assumes fs: "fs = pre @ f # post" and u: "assigns f u" "flag_default f' = u"
  shows "fold flag_default (pre @ f' # post) c = u (fold flag_default fs c)"
proof -
  have "independent f g" if "g \<in> set post" for g
    using independence that by (simp add: fs sorted_wrt_append)
  then have "u (fold flag_default post d) = fold flag_default post (u d)" for d
    using u(1) assigns_default by (intro fold_commute) (auto simp: independent_def)
  moreover have "u (flag_default f d) = u d" for d
    using overwriting u(1) assigns_default by (auto simp: fs overwrites_def)
  ultimately show ?thesis
    by (simp add: fs u(2))
qed

end

end
