(* ===== verification/ConfigParse.thy ===== *)
theory ConfigParse
  imports GoFlag
begin

text \<open>
  \<open>Parse\<close> of \<open>internal/config/config.go\<close>: the table of flags, whose defaults come from the environment, the
  command line, and the derived settings.
\<close>

section \<open>Environment helpers\<close>

definition envUint :: "os_env \<Rightarrow> string \<Rightarrow> u64 \<Rightarrow> u64" where
  "envUint = envWith (\<lambda>s. map_option of_nat (parseUint s))"

definition envFloat :: "os_env \<Rightarrow> string \<Rightarrow> float64 \<Rightarrow> float64" where
  "envFloat = envWith parseFloat"

definition envDur :: "os_env \<Rightarrow> string \<Rightarrow> int \<Rightarrow> int" where
  "envDur = envWith parseDuration"

section \<open>The settings\<close>

text \<open>What the flags write: the configuration, and the two strings that \<open>Parse\<close> takes apart.\<close>

record settings =
  s_cfg :: Config
  chEndpoints :: string
  otlpHeaders :: string

definition settings0 :: settings where
  "settings0 =
     \<lparr>s_cfg =
        \<lparr>Sink = [], ReplicaIndex = 0, Seed = 0, HostID = 0, Metrics = \<lparr>Addr = []\<rparr>,
         Gen = \<lparr>Rate = Finite 0, Ramp = 0, Duration = 0, MaxSpans = 0, Workers = 0, Services = 0,
                SpansPerTraceMin = 0, SpansPerTraceMax = 0, ErrorRate = Finite 0, EventRate = Finite 0\<rparr>,
         CH = \<lparr>Endpoints = [], Database = [], Table = [], Protocol = [], Mode = [], Schema = [], Username = [],
               Password = [], TLS = False, Compression = [], BatchSize = 0, MaxOpenConns = 0, BlockBuffer = 0,
               Async = False, WaitForAsync = False, AsyncMaxDataSize = 0, AsyncBusyTimeoutMs = 0,
               DialTimeout = 0, SendTimeout = 0\<rparr>,
         OTLP = \<lparr>Endpoint = [], Insecure = False, Headers = Map.empty, Gzip = False, SpansPerRequest = 0,
                 Connections = 0, Timeout = 0\<rparr>\<rparr>,
      chEndpoints = [], otlpHeaders = []\<rparr>"

definition on_cfg :: "(Config \<Rightarrow> Config) \<Rightarrow> settings \<Rightarrow> settings" where
  "on_cfg f s = s\<lparr>s_cfg := f (s_cfg s)\<rparr>"

definition on_gen :: "(GenConfig \<Rightarrow> GenConfig) \<Rightarrow> settings \<Rightarrow> settings" where
  "on_gen f = on_cfg (\<lambda>c. c\<lparr>Gen := f (Gen c)\<rparr>)"

definition on_ch :: "(CHConfig \<Rightarrow> CHConfig) \<Rightarrow> settings \<Rightarrow> settings" where
  "on_ch f = on_cfg (\<lambda>c. c\<lparr>CH := f (CH c)\<rparr>)"

definition on_otlp :: "(OTLPConfig \<Rightarrow> OTLPConfig) \<Rightarrow> settings \<Rightarrow> settings" where
  "on_otlp f = on_cfg (\<lambda>c. c\<lparr>OTLP := f (OTLP c)\<rparr>)"

definition second :: int where
  "second = 10 ^ 9"

text \<open>The decimal constants of the source are rounded to \<open>float64\<close>.\<close>

definition flag_table :: "os_env \<Rightarrow> settings flagvar list" where
  "flag_table E =
   [StringVar (\<lambda>v. on_cfg (Sink_update (\<lambda>_. v))) ''sink'' (env E ''SPANGEN_SINK'' ''clickhouse''),
    IntVar (\<lambda>v. on_cfg (ReplicaIndex_update (\<lambda>_. v))) ''replica-index'' (envInt E ''SPANGEN_REPLICA_INDEX'' (detectReplicaIndex E)),
    Uint64Var (\<lambda>v. on_cfg (Seed_update (\<lambda>_. v))) ''seed'' (envUint E ''SPANGEN_SEED'' 0x9E3779B97F4A7C15),
    StringVar (\<lambda>v. on_cfg (Metrics_update (Addr_update (\<lambda>_. v)))) ''metrics.addr'' (env E ''SPANGEN_METRICS_ADDR'' '':8888''),

    Float64Var (\<lambda>v. on_gen (Rate_update (\<lambda>_. v))) ''rate'' (envFloat E ''SPANGEN_RATE'' (Finite 100000)),
    DurationVar (\<lambda>v. on_gen (Ramp_update (\<lambda>_. v))) ''ramp'' (envDur E ''SPANGEN_RAMP'' (30 * second)),
    DurationVar (\<lambda>v. on_gen (Duration_update (\<lambda>_. v))) ''duration'' (envDur E ''SPANGEN_DURATION'' 0),
    Uint64Var (\<lambda>v. on_gen (MaxSpans_update (\<lambda>_. unat v))) ''max-spans'' (envUint E ''SPANGEN_MAX_SPANS'' 0),
    IntVar (\<lambda>v. on_gen (Workers_update (\<lambda>_. v))) ''workers'' (envInt E ''SPANGEN_WORKERS'' 0),
    IntVar (\<lambda>v. on_gen (Services_update (\<lambda>_. v))) ''services'' (envInt E ''SPANGEN_SERVICES'' 30),
    IntVar (\<lambda>v. on_gen (SpansPerTraceMin_update (\<lambda>_. v))) ''spans-per-trace-min'' (envInt E ''SPANGEN_SPANS_PER_TRACE_MIN'' 5),
    IntVar (\<lambda>v. on_gen (SpansPerTraceMax_update (\<lambda>_. v))) ''spans-per-trace-max'' (envInt E ''SPANGEN_SPANS_PER_TRACE_MAX'' 20),
    Float64Var (\<lambda>v. on_gen (ErrorRate_update (\<lambda>_. v))) ''error-rate'' (envFloat E ''SPANGEN_ERROR_RATE'' (Finite (fl (15 / 1000)))),
    Float64Var (\<lambda>v. on_gen (EventRate_update (\<lambda>_. v))) ''event-rate'' (envFloat E ''SPANGEN_EVENT_RATE'' (Finite (fl (10 / 100)))),

    StringVar (\<lambda>v. chEndpoints_update (\<lambda>_. v)) ''ch.endpoints'' (env E ''SPANGEN_CH_ENDPOINTS'' ''localhost:9000''),
    StringVar (\<lambda>v. on_ch (Database_update (\<lambda>_. v))) ''ch.database'' (env E ''SPANGEN_CH_DATABASE'' ''otel''),
    StringVar (\<lambda>v. on_ch (Table_update (\<lambda>_. v))) ''ch.table'' (env E ''SPANGEN_CH_TABLE'' ''otel_traces''),
    StringVar (\<lambda>v. on_ch (Protocol_update (\<lambda>_. v))) ''ch.protocol'' (env E ''SPANGEN_CH_PROTOCOL'' ''native''),
    StringVar (\<lambda>v. on_ch (Mode_update (\<lambda>_. v))) ''ch.mode'' (env E ''SPANGEN_CH_MODE'' ''local''),
    StringVar (\<lambda>v. on_ch (Schema_update (\<lambda>_. v))) ''ch.schema'' (env E ''SPANGEN_CH_SCHEMA'' ''map''),
    StringVar (\<lambda>v. on_ch (Username_update (\<lambda>_. v))) ''ch.username'' (env E ''SPANGEN_CH_USERNAME'' ''default''),
    StringVar (\<lambda>v. on_ch (Password_update (\<lambda>_. v))) ''ch.password'' (env E ''SPANGEN_CH_PASSWORD'' []),
    BoolVar (\<lambda>v. on_ch (TLS_update (\<lambda>_. v))) ''ch.tls'' (envBool E ''SPANGEN_CH_TLS'' False),
    StringVar (\<lambda>v. on_ch (Compression_update (\<lambda>_. v))) ''ch.compression'' (env E ''SPANGEN_CH_COMPRESSION'' ''lz4''),
    IntVar (\<lambda>v. on_ch (BatchSize_update (\<lambda>_. v))) ''ch.batch-size'' (envInt E ''SPANGEN_CH_BATCH_SIZE'' 5000),
    IntVar (\<lambda>v. on_ch (MaxOpenConns_update (\<lambda>_. v))) ''ch.max-conns'' (envInt E ''SPANGEN_CH_MAX_CONNS'' 16),
    IntVar (\<lambda>v. on_ch (BlockBuffer_update (\<lambda>_. v))) ''ch.block-buffer'' (envInt E ''SPANGEN_CH_BLOCK_BUFFER'' 16),
    BoolVar (\<lambda>v. on_ch (Async_update (\<lambda>_. v))) ''ch.async'' (envBool E ''SPANGEN_CH_ASYNC'' True),
    BoolVar (\<lambda>v. on_ch (WaitForAsync_update (\<lambda>_. v))) ''ch.wait-for-async'' (envBool E ''SPANGEN_CH_WAIT_FOR_ASYNC'' True),
    IntVar (\<lambda>v. on_ch (AsyncMaxDataSize_update (\<lambda>_. v))) ''ch.async-max-data-size'' (envInt E ''SPANGEN_CH_ASYNC_MAX_DATA_SIZE'' 0),
    IntVar (\<lambda>v. on_ch (AsyncBusyTimeoutMs_update (\<lambda>_. v))) ''ch.async-busy-timeout-ms'' (envInt E ''SPANGEN_CH_ASYNC_BUSY_TIMEOUT_MS'' 0),
    DurationVar (\<lambda>v. on_ch (DialTimeout_update (\<lambda>_. v))) ''ch.dial-timeout'' (envDur E ''SPANGEN_CH_DIAL_TIMEOUT'' (10 * second)),
    DurationVar (\<lambda>v. on_ch (SendTimeout_update (\<lambda>_. v))) ''ch.send-timeout'' (envDur E ''SPANGEN_CH_SEND_TIMEOUT'' (30 * second)),

    StringVar (\<lambda>v. on_otlp (Endpoint_update (\<lambda>_. v))) ''otlp.endpoint'' (env E ''SPANGEN_OTLP_ENDPOINT'' ''localhost:4317''),
    BoolVar (\<lambda>v. on_otlp (Insecure_update (\<lambda>_. v))) ''otlp.insecure'' (envBool E ''SPANGEN_OTLP_INSECURE'' True),
    StringVar (\<lambda>v. otlpHeaders_update (\<lambda>_. v)) ''otlp.headers'' (env E ''SPANGEN_OTLP_HEADERS'' []),
    BoolVar (\<lambda>v. on_otlp (Gzip_update (\<lambda>_. v))) ''otlp.gzip'' (envBool E ''SPANGEN_OTLP_GZIP'' False),
    IntVar (\<lambda>v. on_otlp (SpansPerRequest_update (\<lambda>_. v))) ''otlp.spans-per-request'' (envInt E ''SPANGEN_OTLP_SPANS_PER_REQUEST'' 2000),
    IntVar (\<lambda>v. on_otlp (Connections_update (\<lambda>_. v))) ''otlp.connections'' (envInt E ''SPANGEN_OTLP_CONNECTIONS'' 4),
    DurationVar (\<lambda>v. on_otlp (Timeout_update (\<lambda>_. v))) ''otlp.timeout'' (envDur E ''SPANGEN_OTLP_TIMEOUT'' (30 * second))]"

section \<open>\<open>Parse\<close>\<close>

text \<open>How \<open>Parse\<close> ends: the process exits in \<open>flag.Parse\<close>, the configuration is refused, or it is returned.\<close>

datatype parse_result = Exits int | Refused config_error | Parsed Config

definition finish :: "os_env \<Rightarrow> settings \<Rightarrow> parse_result" where
  "finish E s =
     (let c = s_cfg s;
          c = c\<lparr>CH := (CH c)\<lparr>Endpoints := splitCSV (chEndpoints s)\<rparr>\<rparr>;
          c = c\<lparr>OTLP := (OTLP c)\<lparr>Headers := parseKV (otlpHeaders s)\<rparr>\<rparr>;
          c = c\<lparr>HostID := hostID E\<rparr>
      in case validate c of
           Some e \<Rightarrow> Refused e
         | None \<Rightarrow> Parsed c)"

text \<open>\<open>Parse\<close> on the arguments after the program's name; \<^term>\<open>None\<close> is the panic of a flag's registration.\<close>

definition Parse :: "os_env \<Rightarrow> string list \<Rightarrow> parse_result option" where
  "Parse E args =
     (case define_flags [] (flag_table E) settings0 of
        None \<Rightarrow> None
      | Some s \<Rightarrow>
          Some (case parse_flags (flag_table E) args s of
             FlagsExit n \<Rightarrow> Exits n
           | FlagsDone s rest \<Rightarrow> finish E s))"

end
