(* ===== verification/FlagTable.thy ===== *)
theory FlagTable
  imports ConfigParse
begin

text \<open>
  The laws of the flag table of \<open>Parse\<close>: every flag keeps the types of the settings, the flags have different
  names and set different fields, and the default of a flag depends on one variable of the environment.
\<close>

section \<open>Types\<close>

definition typed_gen :: "GenConfig \<Rightarrow> bool" where
  "typed_gen g \<longleftrightarrow> int64 (Ramp g) \<and> int64 (Duration g) \<and> MaxSpans g < 2 ^ 64 \<and> int64 (Workers g) \<and> int64 (Services g)
     \<and> int64 (SpansPerTraceMin g) \<and> int64 (SpansPerTraceMax g) \<and> is_float64 (Rate g) \<and> is_float64 (ErrorRate g) \<and> is_float64 (EventRate g)"

definition typed_ch :: "CHConfig \<Rightarrow> bool" where
  "typed_ch ch \<longleftrightarrow> int64 (BatchSize ch) \<and> int64 (MaxOpenConns ch) \<and> int64 (BlockBuffer ch) \<and> int64 (AsyncMaxDataSize ch)
     \<and> int64 (AsyncBusyTimeoutMs ch) \<and> int64 (DialTimeout ch) \<and> int64 (SendTimeout ch)"

definition typed_otlp :: "OTLPConfig \<Rightarrow> bool" where
  "typed_otlp ot \<longleftrightarrow> int64 (SpansPerRequest ot) \<and> int64 (Connections ot) \<and> int64 (Timeout ot)"

definition typed_config :: "Config \<Rightarrow> bool" where
  "typed_config c \<longleftrightarrow> int64 (ReplicaIndex c) \<and> typed_gen (Gen c) \<and> typed_ch (CH c) \<and> typed_otlp (OTLP c)"

definition typed_settings :: "settings \<Rightarrow> bool" where
  "typed_settings s \<longleftrightarrow> typed_config (s_cfg s)"

lemmas typed_defs = typed_settings_def typed_config_def typed_gen_def typed_ch_def typed_otlp_def
lemmas update_defs = on_gen_def on_ch_def on_otlp_def on_cfg_def

lemma int64_numerals [simp]: "int64 0" "int64 (numeral n) \<longleftrightarrow> numeral n < (2 ^ 63 :: int)"
  by (auto simp: int64_def intro: order_trans [of _ 0])

lemma is_float64_Finite [simp]: "is_float64 (Finite x) = is_float x"
  by (simp add: is_float64_def)

lemma u64_range: "unat (v :: u64) < 2 ^ 64"
  using unsigned_less [of v, where 'a = nat] by simp

lemma envWith_keeps: "(\<And>s x. parse s = Some x \<Longrightarrow> P x) \<Longrightarrow> P d \<Longrightarrow> P (envWith parse E k d)"
  by (auto simp: envWith_def split: option.split)

lemma envInt_int64: "int64 d \<Longrightarrow> int64 (envInt E k d)"
  unfolding envInt_def by (rule envWith_keeps [OF atoi_int64])

lemma envDur_int64: "int64 d \<Longrightarrow> int64 (envDur E k d)"
  unfolding envDur_def by (rule envWith_keeps [OF parseDuration_int64])

lemma envFloat_is_float64: "is_float64 d \<Longrightarrow> is_float64 (envFloat E k d)"
  unfolding envFloat_def by (rule envWith_keeps [OF parseFloat_is_float64])

lemma detectReplicaIndex_int64: "int64 (detectReplicaIndex E)"
proof -
  have "uint (h mod 1024 :: u32) < 1024" for h
    by (simp add: uint_mod)
  from order_less_trans [OF this] have "int64 (uint (h mod 1024 :: u32))" for h
    by (simp add: int64_def order_trans [OF _ uint_ge_0])
  then show ?thesis
    using atoi_int64 by (auto simp: detectReplicaIndex_def Let_def split: option.split)
qed

lemma is_float64_Finite_int: "0 < m \<Longrightarrow> m \<le> 2 ^ 53 \<Longrightarrow> is_float64 (Finite (of_int m))"
  using is_float_pos [of m 0] by (simp add: is_float64_def pow2_def)

lemma table_defaults: "list_all default_typed (flag_table E)"
  using is_float64_Finite_int [of 100000]
  by (simp add: flag_table_def envInt_int64 envDur_int64 envFloat_is_float64 detectReplicaIndex_int64 is_float_fl second_def)

lemma table_keeps: "list_all (var_keeps typed_settings) (flag_table E)"
  using u64_range by (simp add: flag_table_def update_defs typed_defs)

lemma typed0: "typed_settings settings0"
  by (simp add: settings0_def typed_defs is_float_0)

interpretation typed: settings_invariant typed_settings "flag_table E" for E
  by unfold_locales (rule table_keeps, rule table_defaults)

section \<open>Independence\<close>

definition flag_names :: "string list" where
  "flag_names =
   [''sink'', ''replica-index'', ''seed'', ''metrics.addr'', ''rate'', ''ramp'', ''duration'', ''max-spans'',
    ''workers'', ''services'', ''spans-per-trace-min'', ''spans-per-trace-max'', ''error-rate'', ''event-rate'',
    ''ch.endpoints'', ''ch.database'', ''ch.table'', ''ch.protocol'', ''ch.mode'', ''ch.schema'', ''ch.username'',
    ''ch.password'', ''ch.tls'', ''ch.compression'', ''ch.batch-size'', ''ch.max-conns'', ''ch.block-buffer'',
    ''ch.async'', ''ch.wait-for-async'', ''ch.async-max-data-size'', ''ch.async-busy-timeout-ms'', ''ch.dial-timeout'',
    ''ch.send-timeout'', ''otlp.endpoint'', ''otlp.insecure'', ''otlp.headers'', ''otlp.gzip'',
    ''otlp.spans-per-request'', ''otlp.connections'', ''otlp.timeout'']"

lemma table_names: "map flag_name (flag_table E) = flag_names"
  by (simp add: flag_table_def flag_names_def)

lemma names_usable: "list_all (\<lambda>f. flag_name f \<noteq> [] \<and> flag_name_ok (flag_name f)) (flag_table E)"
  by (simp add: flag_table_def flag_name_ok_def)

lemma table_distinct: "distinct (map flag_name (flag_table E))"
  by (simp add: table_names flag_names_def)

lemma on_cfg_compose [simp]: "on_cfg f (on_cfg g s) = on_cfg (\<lambda>c. f (g c)) s"
  by (simp add: on_cfg_def)

lemma on_cfg_eq [simp]: "(\<forall>s. on_cfg f s = on_cfg g s) \<longleftrightarrow> (\<forall>c. f c = g c)"
proof
  assume eq: "\<forall>s. on_cfg f s = on_cfg g s"
  have "f c = g c" for c
    using arg_cong [OF eq [rule_format, of "settings0\<lparr>s_cfg := c\<rparr>"], of s_cfg] by (simp add: on_cfg_def)
  then show "\<forall>c. f c = g c" ..
qed (simp add: on_cfg_def)

lemma on_cfg_texts [simp]:
  "chEndpoints_update h (on_cfg g s) = on_cfg g (chEndpoints_update h s)"
  "otlpHeaders_update h (on_cfg g s) = on_cfg g (otlpHeaders_update h s)"
  by (simp_all add: on_cfg_def)

lemma table_overwrites: "list_all overwrites (flag_table E)"
  unfolding flag_table_def list.pred_inject assign_laws by (simp add: on_gen_def on_ch_def on_otlp_def)

lemma table_independent: "sorted_wrt independent (flag_table E)"
  unfolding flag_table_def sorted_wrt.simps list.set ball_simps assign_laws by (simp add: on_gen_def on_ch_def on_otlp_def)

interpretation table: independent_flags "flag_table E" for E
  by unfold_locales (rule names_usable table_distinct table_independent table_overwrites)+

section \<open>The environment\<close>

text \<open>The variable of a flag: its name in upper case, with underscores, behind \<open>SPANGEN_\<close>.\<close>

definition env_char :: "char \<Rightarrow> char" where
  "env_char c =
     (if c = CHR ''.'' \<or> c = CHR ''-'' then CHR ''_''
      else if 97 \<le> (of_char c :: nat) \<and> (of_char c :: nat) \<le> 122 then char_of ((of_char c :: nat) - 32) else c)"

definition env_name :: "string \<Rightarrow> string" where
  "env_name n = ''SPANGEN_'' @ map env_char n"

text \<open>The flag whose default is what the text of its variable says, if it can be read.\<close>

fun with_env :: "string \<Rightarrow> 'c flagvar \<Rightarrow> 'c flagvar" where
  "with_env v (StringVar f n d) = StringVar f n v"
| "with_env v (IntVar f n d) = IntVar f n (case atoi (trim_space v) of Some i \<Rightarrow> i | None \<Rightarrow> d)"
| "with_env v (Uint64Var f n d) = Uint64Var f n (case parseUint (trim_space v) of Some u \<Rightarrow> of_nat u | None \<Rightarrow> d)"
| "with_env v (Float64Var f n d) = Float64Var f n (case parseFloat (trim_space v) of Some x \<Rightarrow> x | None \<Rightarrow> d)"
| "with_env v (BoolVar f n d) = BoolVar f n (case parseBool (trim_space v) of Some b \<Rightarrow> b | None \<Rightarrow> d)"
| "with_env v (DurationVar f n d) = DurationVar f n (case parseDuration (trim_space v) of Some i \<Rightarrow> i | None \<Rightarrow> d)"

definition from_env :: "os_env \<Rightarrow> 'c flagvar \<Rightarrow> 'c flagvar" where
  "from_env E f = (case LookupEnv E (env_name (flag_name f)) of Some v \<Rightarrow> with_env v f | None \<Rightarrow> f)"

text \<open>The assignment that the variable's text stands for.\<close>

fun env_assign :: "'c flagvar \<Rightarrow> string \<Rightarrow> ('c \<Rightarrow> 'c) option" where
  "env_assign (StringVar f n d) v = Some (f v)"
| "env_assign (IntVar f n d) v = map_option f (atoi (trim_space v))"
| "env_assign (Uint64Var f n d) v = map_option (\<lambda>u. f (of_nat u)) (parseUint (trim_space v))"
| "env_assign (Float64Var f n d) v = map_option f (parseFloat (trim_space v))"
| "env_assign (BoolVar f n d) v = map_option f (parseBool (trim_space v))"
| "env_assign (DurationVar f n d) v = map_option f (parseDuration (trim_space v))"

lemma with_env_simps: "flag_name (with_env v f) = flag_name f" "is_bool_flag (with_env v f) = is_bool_flag f"
    "flag_set (with_env v f) = flag_set f" "env_assign (with_env v f) = env_assign f"
  by (cases f; simp add: fun_eq_iff)+

lemma same_with_env: "same_flag (with_env v f) f" "same_flag f f"
  by (simp_all add: same_flag_def with_env_simps)

lemma with_env_none: "env_assign f v = None \<Longrightarrow> with_env v f = f"
  by (cases f) auto

lemma with_env_some: "env_assign f v = Some u \<Longrightarrow> flag_default (with_env v f) = u"
  by (cases f) (auto simp: fun_eq_iff)

lemma env_assigns: "env_assign f v = Some u \<Longrightarrow> assigns f u"
  by (cases f) auto

definition no_vars :: "os_env \<Rightarrow> os_env" where
  "no_vars E = E\<lparr>LookupEnv := (\<lambda>k. if take 8 k = ''SPANGEN_'' then None else LookupEnv E k)\<rparr>"

lemma variable_names: "map env_name flag_names =
   [''SPANGEN_SINK'', ''SPANGEN_REPLICA_INDEX'', ''SPANGEN_SEED'', ''SPANGEN_METRICS_ADDR'', ''SPANGEN_RATE'',
    ''SPANGEN_RAMP'', ''SPANGEN_DURATION'', ''SPANGEN_MAX_SPANS'', ''SPANGEN_WORKERS'', ''SPANGEN_SERVICES'',
    ''SPANGEN_SPANS_PER_TRACE_MIN'', ''SPANGEN_SPANS_PER_TRACE_MAX'', ''SPANGEN_ERROR_RATE'', ''SPANGEN_EVENT_RATE'',
    ''SPANGEN_CH_ENDPOINTS'', ''SPANGEN_CH_DATABASE'', ''SPANGEN_CH_TABLE'', ''SPANGEN_CH_PROTOCOL'',
    ''SPANGEN_CH_MODE'', ''SPANGEN_CH_SCHEMA'', ''SPANGEN_CH_USERNAME'', ''SPANGEN_CH_PASSWORD'', ''SPANGEN_CH_TLS'',
    ''SPANGEN_CH_COMPRESSION'', ''SPANGEN_CH_BATCH_SIZE'', ''SPANGEN_CH_MAX_CONNS'', ''SPANGEN_CH_BLOCK_BUFFER'',
    ''SPANGEN_CH_ASYNC'', ''SPANGEN_CH_WAIT_FOR_ASYNC'', ''SPANGEN_CH_ASYNC_MAX_DATA_SIZE'',
    ''SPANGEN_CH_ASYNC_BUSY_TIMEOUT_MS'', ''SPANGEN_CH_DIAL_TIMEOUT'', ''SPANGEN_CH_SEND_TIMEOUT'',
    ''SPANGEN_OTLP_ENDPOINT'', ''SPANGEN_OTLP_INSECURE'', ''SPANGEN_OTLP_HEADERS'', ''SPANGEN_OTLP_GZIP'',
    ''SPANGEN_OTLP_SPANS_PER_REQUEST'', ''SPANGEN_OTLP_CONNECTIONS'', ''SPANGEN_OTLP_TIMEOUT'']"
  unfolding flag_names_def by code_simp

lemmas env_names = variable_names [unfolded flag_names_def list.map list.inject, simplified]

lemma no_vars_env: "env (no_vars E) (env_name n) d = d"
  by (simp add: env_def env_name_def no_vars_def)

lemma no_vars_envWith: "envWith parse (no_vars E) (env_name n) d = d"
  by (simp add: envWith_def env_name_def no_vars_def)

lemma from_env_flag:
  "env_name n = k \<Longrightarrow> from_env E (StringVar f n (env (no_vars E) k s)) = StringVar f n (env E k s)"
  "env_name n = k \<Longrightarrow> from_env E (IntVar f' n (envInt (no_vars E) k i)) = IntVar f' n (envInt E k i)"
  "env_name n = k \<Longrightarrow> from_env E (Uint64Var g n (envUint (no_vars E) k u)) = Uint64Var g n (envUint E k u)"
  "env_name n = k \<Longrightarrow> from_env E (Float64Var g' n (envFloat (no_vars E) k x)) = Float64Var g' n (envFloat E k x)"
  "env_name n = k \<Longrightarrow> from_env E (BoolVar h n (envBool (no_vars E) k b)) = BoolVar h n (envBool E k b)"
  "env_name n = k \<Longrightarrow> from_env E (DurationVar h' n (envDur (no_vars E) k i)) = DurationVar h' n (envDur E k i)"
  unfolding from_env_def envInt_def envUint_def envFloat_def envBool_def envDur_def
  by (hypsubst, simp only: no_vars_env no_vars_envWith, simp add: env_def envWith_def split: option.split)+

lemma table_env: "flag_table E = map (from_env E) (flag_table (no_vars E))"
proof -
  have "detectReplicaIndex (no_vars E) = detectReplicaIndex E"
    by (simp add: detectReplicaIndex_def pod_hostname_def env_def no_vars_def)
  then show ?thesis
    by (simp add: flag_table_def from_env_flag env_names)
qed

definition set_var :: "os_env \<Rightarrow> string \<Rightarrow> string option \<Rightarrow> os_env" where
  "set_var E k x = E\<lparr>LookupEnv := (LookupEnv E)(k := x)\<rparr>"

lemma no_vars_set_var: "no_vars (set_var E (env_name n) x) = no_vars E"
  by (auto simp: no_vars_def set_var_def env_name_def fun_eq_iff)

lemma finish_no_vars: "finish (no_vars E) = finish E"
proof -
  have "pod_hostname (no_vars E) = pod_hostname E" "RandRead (no_vars E) = RandRead E" "UnixNano (no_vars E) = UnixNano E"
    by (simp_all add: pod_hostname_def env_def no_vars_def)
  then have "hostID (no_vars E) = hostID E"
    by (simp add: hostID_def Let_def split: option.split)
  then show ?thesis
    by (simp add: finish_def fun_eq_iff)
qed

lemma finish_set_var: "finish (set_var E (env_name n) x) = finish (set_var E (env_name n) y)"
  by (metis finish_no_vars no_vars_set_var)

lemma from_env_simps: "flag_name (from_env E f) = flag_name f" "flag_set (from_env E f) = flag_set f"
    "env_assign (from_env E f) = env_assign f"
  by (simp_all add: from_env_def with_env_simps split: option.split)

text \<open>Setting one variable changes the default of one flag.\<close>

lemma one_variable:
  assumes "f \<in> set (flag_table E)"
  obtains pre b post where
    "flag_table (set_var E (env_name (flag_name f)) None) = pre @ b # post"
    "\<And>v. flag_table (set_var E (env_name (flag_name f)) (Some v)) = pre @ with_env v b # post"
    "flag_name b = flag_name f" "flag_set b = flag_set f" "env_assign b = env_assign f"
proof -
  let ?k = "env_name (flag_name f)" and ?B = "flag_table (no_vars E)"
  have "f \<in> from_env E ` set ?B"
    using assms by (subst (asm) table_env) simp
  then obtain b where b: "b \<in> set ?B" "f = from_env E b"
    by blast
  then obtain ps qs where B: "?B = ps @ b # qs"
    by (meson split_list)
  have k: "?k = env_name (flag_name b)"
    by (simp add: b(2) from_env_simps)
  have "distinct (map env_name flag_names)"
    by (simp add: variable_names)
  then have "distinct (map env_name (map flag_name ?B))"
    by (simp only: table_names)
  then have other: "env_name (flag_name g) \<noteq> ?k" if "g \<in> set ps \<union> set qs" for g
    using that unfolding B k by (auto simp: rev_image_eqI image_iff)
  have rest: "map (from_env (set_var E ?k x)) gs = map (from_env E) gs" if "set gs \<subseteq> set ps \<union> set qs" for x gs
    using other that by (auto simp: from_env_def set_var_def)
  have here: "from_env (set_var E ?k x) b = (case x of Some v \<Rightarrow> with_env v b | None \<Rightarrow> b)" for x
    by (simp add: from_env_def set_var_def k)
  have "flag_table (set_var E ?k x) = map (from_env (set_var E ?k x)) (ps @ b # qs)" for x
  using table_env [of "set_var E ?k x"] by (simp add: no_vars_set_var B)
  then have "flag_table (set_var E ?k x)
      = map (from_env E) ps @ (case x of Some v \<Rightarrow> with_env v b | None \<Rightarrow> b) # map (from_env E) qs" for x
    by (simp add: rest here)
  with b(2) show ?thesis
    by (intro that [of "map (from_env E) ps" b "map (from_env E) qs"]) (simp_all add: from_env_simps)
qed

text \<open>The settings before the command line is read, and \<open>Parse\<close> in terms of them.\<close>

definition env_settings :: "os_env \<Rightarrow> settings" where
  "env_settings E = fold flag_default (flag_table E) settings0"

definition Parse_from :: "os_env \<Rightarrow> settings flag_result \<Rightarrow> parse_result" where
  "Parse_from E r = (case r of FlagsExit n \<Rightarrow> Exits n | FlagsDone s rest \<Rightarrow> finish E s)"

lemma Parse_eq: "Parse E args = Some (Parse_from E (parse_flags (flag_table E) args (env_settings E)))"
  by (simp add: Parse_def table.registered Parse_from_def env_settings_def)

lemma one_default:
  assumes "f \<in> set (flag_table E)"
  shows "env_settings (set_var E (env_name (flag_name f)) (Some v))
      = (case env_assign f v of Some u \<Rightarrow> u | None \<Rightarrow> id) (env_settings (set_var E (env_name (flag_name f)) None))"
    and "parse_flags (flag_table (set_var E (env_name (flag_name f)) (Some v))) args c
      = parse_flags (flag_table (set_var E (env_name (flag_name f)) None)) args c"
proof -
  obtain pre b post where t: "flag_table (set_var E (env_name (flag_name f)) None) = pre @ b # post"
    "flag_table (set_var E (env_name (flag_name f)) (Some v)) = pre @ with_env v b # post" "env_assign b = env_assign f"
    by (rule one_variable [OF assms]) blast
  have "fold flag_default (pre @ with_env v b # post) settings0
      = (case env_assign b v of Some u \<Rightarrow> u | None \<Rightarrow> id) (fold flag_default (pre @ b # post) settings0)"
  proof (cases "env_assign b v")
    case (Some u)
    with table.other_default [OF t(1), of u "with_env v b" settings0] t(1) show ?thesis
      by (simp add: env_assigns with_env_some)
  qed (simp add: with_env_none)
  then show "env_settings (set_var E (env_name (flag_name f)) (Some v))
      = (case env_assign f v of Some u \<Rightarrow> u | None \<Rightarrow> id) (env_settings (set_var E (env_name (flag_name f)) None))"
    by (simp add: env_settings_def t)
  have "list_all2 same_flag (pre @ with_env v b # post) (pre @ b # post)"
    by (intro list_all2_appendI list.rel_intros list.rel_refl same_with_env)
  then show "parse_flags (flag_table (set_var E (env_name (flag_name f)) (Some v))) args c
      = parse_flags (flag_table (set_var E (env_name (flag_name f)) None)) args c"
    unfolding t by (rule parse_flags_same)
qed

end
