(* ===== verification/ConfigParseProps.thy ===== *)
theory ConfigParseProps
  imports FlagTable ConfigProps
begin

text \<open>
  The properties of \<open>Parse\<close>: what it returns is well typed and valid, its defaults, and the equivalence of a
  variable of the environment with the flag of its name.
\<close>

section \<open>Defaults\<close>

text \<open>The configuration of a process without arguments and variables, on a host with the given name.\<close>

definition default_config :: "string \<Rightarrow> Config" where
  "default_config h =
     \<lparr>Sink = ''clickhouse'', ReplicaIndex = detectReplicaIndex (sample_env h), Seed = 0x9E3779B97F4A7C15,
      HostID = hostID (sample_env h), Metrics = \<lparr>Addr = '':8888''\<rparr>,
      Gen = \<lparr>Rate = Finite 100000, Ramp = 30 * second, Duration = 0, MaxSpans = 0, Workers = 0, Services = 30,
             SpansPerTraceMin = 5, SpansPerTraceMax = 20, ErrorRate = Finite (fl (15 / 1000)), EventRate = Finite (fl (10 / 100))\<rparr>,
      CH = \<lparr>Endpoints = [''localhost:9000''], Database = ''otel'', Table = ''otel_traces'', Protocol = ''native'',
            Mode = ''local'', Schema = ''map'', Username = ''default'', Password = [], TLS = False, Compression = ''lz4'',
            BatchSize = 5000, MaxOpenConns = 16, BlockBuffer = 16, Async = True, WaitForAsync = True,
            AsyncMaxDataSize = 0, AsyncBusyTimeoutMs = 0, DialTimeout = 10 * second, SendTimeout = 30 * second\<rparr>,
      OTLP = \<lparr>Endpoint = ''localhost:4317'', Insecure = True, Headers = Map.empty, Gzip = False,
              SpansPerRequest = 2000, Connections = 4, Timeout = 30 * second\<rparr>\<rparr>"

lemma sample_env_unset: "env (sample_env h) k d = d" "envWith parse (sample_env h) k d' = d'"
  by (simp_all add: env_def envWith_def sample_env_def)

lemma default_settings:
  "env_settings (sample_env h) =
     \<lparr>s_cfg = (default_config h)\<lparr>HostID := 0, CH := (CH (default_config h))\<lparr>Endpoints := []\<rparr>\<rparr>,
      chEndpoints = ''localhost:9000'', otlpHeaders = []\<rparr>"
  by (simp add: env_settings_def flag_table_def settings0_def update_defs default_config_def sample_env_unset
      envInt_def envUint_def envFloat_def envBool_def envDur_def)

lemma default_parse: "Parse (sample_env h) [] = Some (Parsed (default_config h))"
proof -
  have texts: "splitCSV ''localhost:9000'' = [''localhost:9000'']" "parseKV [] = Map.empty"
    by (simp_all add: splitCSV_def parseKV_def parseKV_step_def text_eval)
  let ?s = "env_settings (sample_env h)"
  have "finish (sample_env h) ?s = Parsed (default_config h)"
    by (simp add: finish_def default_settings texts Let_def default_config_def validate_def)
  moreover have "parse_flags (flag_table (sample_env h)) [] ?s = FlagsDone ?s []"
    by (simp add: parse_flags.simps [of _ "[]"] parseOne_def)
  ultimately show ?thesis
    by (simp add: Parse_eq Parse_from_def)
qed


section \<open>Types\<close>

lemma Parsed_typed:
  assumes "Parse E args = Some (Parsed c)"
  shows "typed_config c" and "valid_config c" and "HostID c = hostID E"
    and "\<forall>p \<in> set (Endpoints (CH c)). p \<noteq> [] \<and> trimmed p" and "\<forall>k \<in> dom (Headers (OTLP c)). trimmed k"
proof -
  obtain s rest where s: "parse_flags (flag_table E) args (env_settings E) = FlagsDone s rest" "finish E s = Parsed c"
    using assms by (auto simp: Parse_eq Parse_from_def split: flag_result.splits)
  have typed: "typed_settings s"
    using typed.parsed [OF s(1)] typed.fold_defaults [OF subset_refl typed0] by (simp add: env_settings_def)
  have fields: "Gen c = Gen (s_cfg s)" "CH c = (CH (s_cfg s))\<lparr>Endpoints := splitCSV (chEndpoints s)\<rparr>"
      "OTLP c = (OTLP (s_cfg s))\<lparr>Headers := parseKV (otlpHeaders s)\<rparr>"
      "ReplicaIndex c = ReplicaIndex (s_cfg s)" "HostID c = hostID E" "validate c = None"
    using s(2) by (auto simp: finish_def Let_def split: option.splits if_splits)
  with typed fields show typed: "typed_config c"
    by (simp add: typed_defs)
  show "valid_config c" "HostID c = hostID E"
    using fields by (simp_all add: validate_iff)
  show "\<forall>p \<in> set (Endpoints (CH c)). p \<noteq> [] \<and> trimmed p" "\<forall>k \<in> dom (Headers (OTLP c)). trimmed k"
    using splitCSV_elem parseKV_keys_trimmed by (simp_all add: fields)
qed

text \<open>
  C12. \<open>Parse\<close> never panics, and a configuration that it returns is well typed: every integer and duration fits its
  64 bits, the finite rates are \<open>float64\<close> values, the lists are trimmed; it is valid and carries the host id.
\<close>

theorem Parse_types:
  "\<exists>r. Parse E args = Some r \<and>
     (\<forall>c. r = Parsed c \<longrightarrow> typed_config c \<and> valid_config c \<and> HostID c = hostID E
        \<and> (\<forall>p \<in> set (Endpoints (CH c)). p \<noteq> [] \<and> trimmed p) \<and> (\<forall>k \<in> dom (Headers (OTLP c)). trimmed k))"
  using Parsed_typed [of E args] by (simp add: Parse_eq)

lemma Parse_types_witness:
  "\<exists>c. Parse (sample_env ''spangen-2'') [] = Some (Parsed c) \<and> typed_config c"
  using Parse_types [of "sample_env ''spangen-2''" "[]"] default_parse [of "''spangen-2''"] by auto

section \<open>Variables and flags\<close>

lemma Parse_from_set_var: "Parse_from (set_var E (env_name n) x) r = Parse_from (set_var E (env_name n) None) r"
  by (simp add: Parse_from_def finish_set_var [of E n x None] cong: flag_result.case_cong)

lemma flag_without_variable:
  assumes "f \<in> set (flag_table E)"
  obtains b where "b \<in> set (flag_table (set_var E (env_name (flag_name f)) None))" "flag_name b = flag_name f"
    "flag_set b = flag_set f" "env_assign b = env_assign f"
  by (rule one_variable [OF assms]) (metis in_set_conv_decomp)

text \<open>The flag of the number of workers.\<close>

definition workers_flag :: "settings flagvar" where
  "workers_flag = IntVar (\<lambda>v. on_gen (Workers_update (\<lambda>_. v))) ''workers'' 0"

lemma workers_flag_facts: "workers_flag \<in> set (flag_table (sample_env h))" "env_name ''workers'' = ''SPANGEN_WORKERS''"
    "flag_name workers_flag = ''workers''"
  by (simp_all add: workers_flag_def flag_table_def envInt_def sample_env_unset env_names)

lemma workers_texts: "parseInt ''8'' = Some 8" "atoi (trim_space ''8'') = Some 8" "parseInt ''many'' = None"
    "atoi (trim_space ''many'') = None"
proof -
  have "trim_space ''8'' = ''8''" "trim_space ''many'' = ''many''"
    by (simp_all add: text_eval)
  moreover have "parseInt ''8'' = Some 8 \<and> atoi ''8'' = Some 8 \<and> parseInt ''many'' = None \<and> atoi ''many'' = None"
    by (simp add: parseInt_def parseUint_def no_sign_def has_sign_def digit_in_def digit36_def lower_def is_digit_def
        digit_val_def atoi_def nat_of_digits_def Let_def)
  ultimately show "parseInt ''8'' = Some 8" "atoi (trim_space ''8'') = Some 8" "parseInt ''many'' = None"
      "atoi (trim_space ''many'') = None"
    by simp_all
qed

text \<open>An integer with a leading zero or a base prefix means different things in the two places.\<close>

lemma integer_bases: "parseInt ''010'' = Some 8" "atoi ''010'' = Some 10" "parseInt ''0x10'' = Some 16" "atoi ''0x10'' = None"
  by (simp_all add: parseInt_def parseUint_def no_sign_def has_sign_def digit_in_def digit36_def lower_def is_digit_def
      digit_val_def atoi_def nat_of_digits_def base_prefix_def Let_def)

text \<open>
  C13. A variable of the environment stands for the flag of its name: where both read the same value from a text,
  setting the variable to it and putting the flag before the arguments lead to the same result of \<open>Parse\<close>. (An
  integer is read in base 10 from the environment and with Go's base prefixes from a flag.)
\<close>

theorem variable_is_flag:
  assumes "f \<in> set (flag_table E)" and "env_assign f v = Some u" and "flag_set f v = Some u"
  shows "Parse (set_var E (env_name (flag_name f)) (Some v)) args
    = Parse (set_var E (env_name (flag_name f)) None) ((CHR ''-'' # flag_name f @ CHR ''='' # v) # args)"
proof -
  obtain b where b: "b \<in> set (flag_table (set_var E (env_name (flag_name f)) None))" "flag_name b = flag_name f" "flag_set b = flag_set f"
    by (rule flag_without_variable [OF assms(1)])
  show ?thesis
    using table.one_argument [OF b(1), of v args] one_default [OF assms(1), of v]
    by (simp add: Parse_eq b assms(2,3) Parse_from_set_var [of E "flag_name f" "Some v"])
qed

lemma variable_is_flag_witness:
  "Parse (set_var (sample_env ''spangen-0'') ''SPANGEN_WORKERS'' (Some ''8'')) []
     = Parse (set_var (sample_env ''spangen-0'') ''SPANGEN_WORKERS'' None) [''-workers=8'']"
proof -
  have "env_assign workers_flag ''8'' = Some (on_gen (Workers_update (\<lambda>_. 8)))"
      "flag_set workers_flag ''8'' = Some (on_gen (Workers_update (\<lambda>_. 8)))"
    by (simp_all add: workers_flag_def workers_texts)
  from variable_is_flag [OF workers_flag_facts(1) this, of "''spangen-0''" "[]"] show ?thesis
    by (simp add: workers_flag_facts)
qed

text \<open>
  C14. A flag overrides its variable: whatever the variable holds, the result is the one without it.
\<close>

theorem flag_overrides:
  assumes "f \<in> set (flag_table E)"
  shows "Parse (set_var E (env_name (flag_name f)) (Some w)) ((CHR ''-'' # flag_name f @ CHR ''='' # v) # args)
    = Parse (set_var E (env_name (flag_name f)) None) ((CHR ''-'' # flag_name f @ CHR ''='' # v) # args)"
proof -
  obtain b where b: "b \<in> set (flag_table (set_var E (env_name (flag_name f)) None))" "flag_name b = flag_name f" "flag_set b = flag_set f"
      "env_assign b = env_assign f"
    by (rule flag_without_variable [OF assms])
  show ?thesis
  proof (cases "flag_set f v")
    case (Some x)
    then have "x ((case env_assign f w of Some u \<Rightarrow> u | None \<Rightarrow> id) c) = x c" for c
      using table.overwriting b assigns_set [of b v x] env_assigns [of b w]
      by (auto simp: list_all_iff overwrites_def split: option.split)
    then show ?thesis
      using table.one_argument [OF b(1), of v args] one_default [OF assms, of w]
      by (simp add: Parse_eq b Some Parse_from_set_var [of E "flag_name f" "Some w"])
  next
    case None
    then show ?thesis
      using table.one_argument [OF b(1), of v args] one_default [OF assms, of w]
      by (simp add: Parse_eq b Parse_from_set_var [of E "flag_name f" "Some w"])
  qed
qed

lemma flag_overrides_witness:
  "Parse (set_var (sample_env ''spangen-0'') ''SPANGEN_WORKERS'' (Some ''4'')) [''-workers=8'']
     = Parse (set_var (sample_env ''spangen-0'') ''SPANGEN_WORKERS'' None) [''-workers=8'']"
  using flag_overrides [OF workers_flag_facts(1), of "''spangen-0''" "''4''" "''8''" "[]"] by (simp add: workers_flag_facts)

text \<open>
  C15. A text that cannot be read ends the process with status 2 as the value of a flag; as the value of a variable
  it is ignored without a message.
\<close>

theorem unreadable_values:
  assumes "f \<in> set (flag_table E)"
  shows "(flag_set f v = None \<longrightarrow> Parse E ((CHR ''-'' # flag_name f @ CHR ''='' # v) # args) = Some (Exits 2))
    \<and> (env_assign f v = None \<longrightarrow>
         Parse (set_var E (env_name (flag_name f)) (Some v)) args = Parse (set_var E (env_name (flag_name f)) None) args)"
  using table.one_argument [OF assms, of v args] one_default [OF assms, of v]
  by (auto simp: Parse_eq Parse_from_set_var [of E "flag_name f" "Some v"]) (simp add: Parse_from_def)

lemma unreadable_values_witness:
  "Parse (sample_env ''spangen-0'') [''-workers=many''] = Some (Exits 2)
     \<and> Parse (set_var (sample_env ''spangen-0'') ''SPANGEN_WORKERS'' (Some ''many'')) [] = Parse (set_var (sample_env ''spangen-0'') ''SPANGEN_WORKERS'' None) []"
  using unreadable_values [OF workers_flag_facts(1) [of "''spangen-0''"], of "''many''" "[]"]
  by (simp add: workers_flag_facts) (simp add: workers_flag_def workers_texts)

end
