(* ===== verification/GoRand.thy ===== *)
theory GoRand
  imports Complex_Main Prelude "HOL-Library.While_Combinator"
begin

text \<open>
  Go's \<open>math/rand/v2\<close> as far as the program uses it: the PCG-DXSM source, \<open>Uint64\<close>, \<open>Uint32\<close>,
  \<open>IntN\<close> and \<open>Float64\<close>. The rejection loop of \<open>IntN\<close> is a \<^const>\<open>while\<close>; that it ends for every
  argument and every state is proved from the full period of the 128-bit congruential generator.
  \<open>NormFloat64\<close> (a table-driven ziggurat) stays a parameter of the definitions that use it.
\<close>

section \<open>The source\<close>

type_synonym pcg = "128 word"

definition pcg_mul :: pcg where
  "pcg_mul = 47026247687942121848144207491837523525"

definition pcg_inc :: pcg where
  "pcg_inc = 117397592171526113268558934119004209487"

definition new_pcg :: "u64 \<Rightarrow> u64 \<Rightarrow> pcg" where
  "new_pcg seed1 seed2 = push_bit 64 (ucast seed1) OR ucast seed2"

definition pcg_next :: "pcg \<Rightarrow> pcg" where
  "pcg_next s = s * pcg_mul + pcg_inc"

definition pcg_out :: "pcg \<Rightarrow> u64" where
  "pcg_out s =
     (let hi = ucast (drop_bit 64 s); lo = ucast s;
          hi = hi XOR drop_bit 32 hi;
          hi = hi * 0xda942042e4dd58b5;
          hi = hi XOR drop_bit 48 hi
      in hi * (lo OR 1))"

definition rand_uint64 :: "pcg \<Rightarrow> u64 \<times> pcg" where
  "rand_uint64 s = (pcg_out (pcg_next s), pcg_next s)"

definition rand_uint32 :: "pcg \<Rightarrow> u32 \<times> pcg" where
  "rand_uint32 s = (let (x, s') = rand_uint64 s in (ucast (drop_bit 32 x), s'))"

text \<open>\<open>Float64\<close>: the low 53 bits of a draw over \<open>2^53\<close>, an exact value.\<close>

definition rand_float64 :: "pcg \<Rightarrow> rat \<times> pcg" where
  "rand_float64 s =
     (let (x, s') = rand_uint64 s in (of_int (uint x mod 2 ^ 53) / 2 ^ 53, s'))"

section \<open>Bounded integers\<close>

text \<open>\<open>bits.Mul64(r.Uint64(), n)\<close>: the two halves of the product, and the new state.\<close>

definition draw_mul :: "u64 \<Rightarrow> pcg \<Rightarrow> int \<times> int \<times> pcg" where
  "draw_mul n s =
     (let (x, s') = rand_uint64 s; p = uint x * uint n in (p div 2 ^ 64, p mod 2 ^ 64, s'))"

definition uint64n :: "u64 \<Rightarrow> pcg \<Rightarrow> int \<times> pcg" where
  "uint64n n s =
     (if n AND (n - 1) = 0 then
        (let (x, s') = rand_uint64 s in (uint (x AND (n - 1)), s'))
      else
        (let first = draw_mul n s; thresh = uint ((- n) mod n)
         in if fst (snd first) < uint n then
              (let (hi, lo, s') =
                 while (\<lambda>(hi, lo, s). lo < thresh) (\<lambda>(hi, lo, s). draw_mul n s) first
               in (hi, s'))
            else (fst first, snd (snd first))))"

text \<open>\<open>IntN(n)\<close> panics for \<open>n \<le> 0\<close>.\<close>

definition rand_intN :: "int \<Rightarrow> pcg \<Rightarrow> (int \<times> pcg) option" where
  "rand_intN n s =
     (if n \<le> 0 then None
      else let (r, s') = uint64n (word_of_int n) s in Some (r, s'))"

section \<open>Full period\<close>

text \<open>
  The affine map \<open>x \<mapsto> a x + c\<close> with \<open>a \<equiv> 1 (mod 4)\<close> and odd \<open>c\<close> visits every residue
  modulo every power of two, whatever it starts from.
\<close>

lemma affine_pow2:
  fixes a c :: int
  assumes "a mod 4 = 1" and "odd c"
  shows "\<exists>q r. \<forall>x. ((\<lambda>x. a * x + c) ^^ (2 ^ k)) x = (1 + 2 ^ (k + 2) * q) * x + 2 ^ k * (1 + 2 * r)"
proof (induction k)
  case 0
  from assms(1) have "a = 1 + 4 * (a div 4)" by (metis add.commute mult_div_mod_eq)
  moreover from assms(2) have "c = 1 + 2 * (c div 2)" by presburger
  ultimately show ?case
    by (intro exI [of _ "a div 4"] exI [of _ "c div 2"]) simp
next
  case (Suc k)
  let ?f = "\<lambda>x. a * x + c"
  obtain q r where qr: "\<And>x. (?f ^^ (2 ^ k)) x = (1 + 2 ^ (k + 2) * q) * x + 2 ^ k * (1 + 2 * r)"
    using Suc by blast
  define z :: int where "z = 2 ^ k"
  have "(?f ^^ (2 ^ Suc k)) x
      = (1 + 2 ^ (Suc k + 2) * (q + 2 * z * q * q)) * x
        + 2 ^ Suc k * (1 + 2 * (z * q + r + 2 * z * q * r))" for x
  proof -
    have "(?f ^^ (2 ^ Suc k)) x = (?f ^^ (2 ^ k)) ((?f ^^ (2 ^ k)) x)"
      by (simp add: funpow_add mult_2)
    also have "\<dots> = (1 + 4 * z * q) * ((1 + 4 * z * q) * x + z * (1 + 2 * r)) + z * (1 + 2 * r)"
      by (simp only: qr z_def power_add) (simp add: mult.commute)
    also have "\<dots> = (1 + 8 * z * (q + 2 * z * q * q)) * x + 2 * z * (1 + 2 * (z * q + r + 2 * z * q * r))"
      by (simp add: algebra_simps)
    finally show ?thesis
      by (simp add: z_def power_add)
  qed
  then show ?case by blast
qed

lemma affine_reaches:
  fixes a c s t :: int
  assumes "a mod 4 = 1" and "odd c"
  shows "\<exists>m. 2 ^ k dvd ((\<lambda>x. a * x + c) ^^ m) s - t"
proof (induction k)
  case (Suc k)
  let ?f = "\<lambda>x. a * x + c"
  obtain m j where m: "(?f ^^ m) s - t = 2 ^ k * j"
    using Suc by (auto simp: dvd_def)
  show ?case
  proof (cases "even j")
    case True
    with m show ?thesis by (intro exI [of _ m]) (auto elim!: evenE)
  next
    case False
    obtain q r where qr: "\<And>x. (?f ^^ (2 ^ k)) x = (1 + 2 ^ (k + 2) * q) * x + 2 ^ k * (1 + 2 * r)"
      using affine_pow2 [OF assms] by blast
    let ?y = "(?f ^^ m) s"
    have "(?f ^^ (2 ^ k + m)) s - t = (1 + 2 ^ (k + 2) * q) * ?y + 2 ^ k * (1 + 2 * r) - t"
      by (simp add: funpow_add qr)
    also have "\<dots> = 2 ^ k * (j + 1 + 2 * (2 * q * ?y + r))"
      using m by (simp add: algebra_simps power_add)
    also have "even (j + 1 + 2 * (2 * q * ?y + r))"
      using False by simp
    then obtain i where "j + 1 + 2 * (2 * q * ?y + r) = 2 * i" by (rule evenE)
    finally have "(?f ^^ (2 ^ k + m)) s - t = 2 ^ Suc k * i"
      by (metis mult.assoc mult.commute power_Suc)
    then show ?thesis by (metis dvd_triv_left)
  qed
qed simp

lemma pcg_next_funpow:
  "(pcg_next ^^ m) s
     = word_of_int (((\<lambda>x. uint pcg_mul * x + uint pcg_inc) ^^ m) (uint s))"
  by (induction m) (simp_all add: pcg_next_def wi_hom_syms mult.commute)

lemma pcg_reaches: "\<exists>m. (pcg_next ^^ m) s = t"
proof -
  have "uint pcg_mul mod 4 = 1" "odd (uint pcg_inc)"
    by (simp_all add: pcg_mul_def pcg_inc_def)
  then obtain m where
    "2 ^ 128 dvd ((\<lambda>x. uint pcg_mul * x + uint pcg_inc) ^^ m) (uint s) - uint t"
    using affine_reaches by blast
  then have "word_of_int (((\<lambda>x. uint pcg_mul * x + uint pcg_inc) ^^ m) (uint s))
           = (word_of_int (uint t) :: pcg)"
    unfolding word_of_int_eq_iff take_bit_eq_mod by (simp add: mod_eq_dvd_iff)
  then show ?thesis
    by (metis pcg_next_funpow word_of_int_uint)
qed

section \<open>\<open>IntN\<close> returns, and in range\<close>

lemma pcg_out_one: "pcg_out 185445742429152484065345008305017192448 = 1"
  by (simp add: pcg_out_def)

lemma draw_mul_state: "snd (snd (draw_mul n s)) = pcg_next s"
  by (simp add: draw_mul_def rand_uint64_def Let_def)

lemma draw_mul_funpow:
  "((\<lambda>(hi, lo, s). draw_mul n s) ^^ k) (draw_mul n s) = draw_mul n ((pcg_next ^^ k) s)"
proof (induction k)
  case (Suc k)
  then show ?case
    by (simp add: case_prod_beta draw_mul_state)
qed simp

text \<open>The loop's state is always a fresh draw, so its high half is below the bound.\<close>

lemma uint_pos: "(n :: u64) \<noteq> 0 \<Longrightarrow> 0 < uint n"
  by (simp add: word_neq_0_conv word_less_alt)

lemma uint_u64_less: "uint (x :: u64) < 2 ^ 64"
  using unsigned_less [of x, where 'a = int] by simp

lemma int_div_less:
  fixes p m n :: int
  assumes "p < 2 ^ k * n"
  shows "p div 2 ^ k < n"
proof -
  have "2 ^ k * (p div 2 ^ k) \<le> p"
    using mult_div_mod_eq [of "2 ^ k" p] by (smt (verit) pos_mod_sign zero_less_power)
  then have "2 ^ k * (p div 2 ^ k) < 2 ^ k * n"
    using assms by (rule le_less_trans)
  then show ?thesis
    by (rule mult_left_less_imp_less) simp
qed

lemma draw_mul_range: "n \<noteq> 0 \<Longrightarrow> 0 \<le> fst (draw_mul n s) \<and> fst (draw_mul n s) < uint n"
proof -
  assume "n \<noteq> 0"
  then have "uint (pcg_out (pcg_next s)) * uint n < 2 ^ 64 * uint n"
    using uint_u64_less uint_pos by (intro mult_strict_right_mono) auto
  then have "uint (pcg_out (pcg_next s)) * uint n div 2 ^ 64 < uint n"
    by (rule int_div_less)
  then show ?thesis
    by (simp add: draw_mul_def rand_uint64_def Let_def pos_imp_zdiv_nonneg_iff)
qed

lemma intN_loop_returns:
  fixes n :: u64
  assumes "n \<noteq> 0"
  shows "\<exists>s'. while_option (\<lambda>(hi, lo, s). lo < uint ((- n) mod n)) (\<lambda>(hi, lo, s). draw_mul n s)
                 (draw_mul n s) = Some (draw_mul n s')"
    (is "\<exists>s'. while_option ?b ?c _ = _")
proof -
  let ?one = "185445742429152484065345008305017192448 :: pcg"
  obtain m where m: "(pcg_next ^^ m) (pcg_next s) = ?one"
    using pcg_reaches by blast
  have "pcg_next ((pcg_next ^^ m) s) = ?one"
    using m by (simp add: funpow_swap1)
  then have "draw_mul n ((pcg_next ^^ m) s) = (0, uint n, ?one)"
    using uint_u64_less [of n]
    by (simp add: draw_mul_def rand_uint64_def Let_def pcg_out_one)
  moreover have "uint ((- n) mod n) < uint n"
    using uint_pos [OF assms] by (simp add: uint_mod)
  ultimately have "\<not> ?b ((?c ^^ m) (draw_mul n s))"
    by (simp add: draw_mul_funpow)
  then have ex: "\<exists>k. \<not> ?b ((?c ^^ k) (draw_mul n s))"
    by (rule exI)
  obtain t where t: "while_option ?b ?c (draw_mul n s) = Some t"
    using that unfolding while_option_def if_P [OF ex] by simp
  have "\<exists>s'. t = draw_mul n s'"
    by (rule while_option_rule [where P = "\<lambda>t. \<exists>s'. t = draw_mul n s'", OF _ t]) auto
  with t show ?thesis by blast
qed

lemma uint64n_range: "n \<noteq> 0 \<Longrightarrow> 0 \<le> fst (uint64n n s) \<and> fst (uint64n n s) < uint n"
proof -
  assume n: "n \<noteq> 0"
  show ?thesis
  proof (cases "n AND (n - 1) = 0")
    case True
    have "uint (x AND (n - 1)) < uint n" for x
    proof -
      have "x AND (n - 1) \<le> n - 1" by (rule word_and_le1)
      also have "n - 1 < n" using n by (simp add: word_less_nat_alt unat_minus_one unat_gt_0)
      finally show ?thesis by (simp add: word_less_alt)
    qed
    with True show ?thesis
      by (simp add: uint64n_def rand_uint64_def)
  next
    case False
    obtain s' where "while_option (\<lambda>(hi, lo, s). lo < uint ((- n) mod n))
        (\<lambda>(hi, lo, s). draw_mul n s) (draw_mul n s) = Some (draw_mul n s')"
      using intN_loop_returns [OF n] by blast
    with False draw_mul_range [OF n, of s'] draw_mul_range [OF n, of s] show ?thesis
      by (simp add: uint64n_def Let_def while_def case_prod_beta)
  qed
qed

lemma rand_intN_opost [opost_rules]:
  assumes "0 < n" and "n < 2 ^ 64" and "\<And>r s'. 0 \<le> r \<Longrightarrow> r < n \<Longrightarrow> P (r, s')"
  shows "opost (rand_intN n s) P"
proof -
  have n: "uint (word_of_int n :: u64) = n"
    using assms(1,2) by (simp add: unsigned_of_int take_bit_int_eq_self)
  then have "(word_of_int n :: u64) \<noteq> 0"
    using assms(1) by auto
  from uint64n_range [OF this, of s] n show ?thesis
    using assms(1) assms(3) [of "fst (uint64n (word_of_int n) s)" "snd (uint64n (word_of_int n) s)"]
    by (simp add: rand_intN_def case_prod_beta)
qed

lemma rand_float64_range: "0 \<le> fst (rand_float64 s)" "fst (rand_float64 s) < 1"
  by (simp_all add: rand_float64_def rand_uint64_def)

end
