(* ===== verification/Catalog.thy ===== *)
theory Catalog
  imports GoText GoRand GoFloat
begin

text \<open>
  \<open>internal/model/catalog.go\<close>: the synthetic service topology and its seeded construction. The
  random draws are threaded in the order of the source; a panicking index or \<open>IntN\<close> is
  \<^term>\<open>None\<close>.
\<close>

section \<open>Data\<close>

datatype opType =
    opHTTPServer
  | opHTTPClient
  | opDBClient
  | opRPCServer
  | opRPCClient
  | opInternal
  | opMsgProducer
  | opMsgConsumer

text \<open>The span kinds the program names, and the zero value of the type.\<close>

datatype SpanKind =
    SpanKindUnspecified
  | SpanKindInternal
  | SpanKindServer
  | SpanKindClient
  | SpanKindConsumer

record operation =
  op_name :: string
  op_typ :: opType
  op_kind :: SpanKind
  muLog :: rat
  sigmaLog :: rat
  op_method :: string
  route :: string
  dbSystem :: string
  dbName :: string
  dbOp :: string
  collection :: string
  rpcService :: string
  rpcMethod :: string
  destination :: string
  peer :: int

text \<open>The zero value that a composite literal starts from.\<close>

definition operation0 :: operation where
  "operation0 =
     \<lparr>op_name = [], op_typ = opHTTPServer, op_kind = SpanKindUnspecified, muLog = 0, sigmaLog = 0,
      op_method = [], route = [], dbSystem = [], dbName = [], dbOp = [], collection = [],
      rpcService = [], rpcMethod = [], destination = [], peer = 0\<rparr>"

record service =
  idx :: int
  svc_name :: string
  namespace :: string
  version :: string
  host :: string
  resourceAttrs :: "(string \<times> string) list"
  entryOps :: "operation list"
  childOps :: "operation list"

record Catalog =
  services :: "service list"
  ScopeName :: string
  ScopeVer :: string

definition serviceNames :: "string list" where
  "serviceNames =
     [''frontend'', ''api-gateway'', ''checkout'', ''cart'', ''catalog'', ''payment'',
      ''shipping'', ''inventory'', ''user'', ''auth'', ''recommendation'', ''search'',
      ''pricing'', ''promotion'', ''order'', ''notification'', ''email'', ''fraud'',
      ''analytics'', ''loyalty'', ''wishlist'', ''review'', ''media'', ''session'']"

definition httpRoutes :: "(string \<times> string) list" where
  "httpRoutes =
     [(''GET'', ''/api/products''), (''GET'', ''/api/products/{id}''), (''POST'', ''/api/cart''),
      (''GET'', ''/api/cart''), (''POST'', ''/api/checkout''), (''POST'', ''/api/orders''),
      (''GET'', ''/api/orders/{id}''), (''POST'', ''/api/payments''), (''GET'', ''/api/users/{id}''),
      (''POST'', ''/api/login''), (''GET'', ''/api/search''), (''POST'', ''/api/recommendations'')]"

definition dbSystems :: "(string \<times> string \<times> string) list" where
  "dbSystems =
     [(''postgresql'', ''SELECT'', ''orders''), (''postgresql'', ''INSERT'', ''orders''),
      (''postgresql'', ''SELECT'', ''products''), (''mysql'', ''SELECT'', ''users''),
      (''redis'', ''GET'', ''session''), (''redis'', ''SETEX'', ''cart''),
      (''mongodb'', ''find'', ''catalog''), (''cassandra'', ''SELECT'', ''events'')]"

definition environments :: "string list" where
  "environments = [''production'', ''staging'']"

definition regions :: "string list" where
  "regions = [''us-east-1'', ''us-west-2'', ''eu-central-1'']"

section \<open>Construction\<close>

text \<open>\<open>xs[rng.IntN(len(xs))]\<close>.\<close>

definition pick :: "'a list \<Rightarrow> pcg \<Rightarrow> ('a \<times> pcg) option" where
  "pick xs r = do { (i, r) \<leftarrow> rand_intN (int (length xs)) r; x \<leftarrow> slice_at xs i; Some (x, r) }"

definition service_name :: "nat \<Rightarrow> string option" where
  "service_name i = do {
     name \<leftarrow> slice_at serviceNames (int (i mod length serviceNames));
     Some (if length serviceNames \<le> i then name @ ''-'' @ dec (int (i div length serviceNames)) else name)
   }"

definition http_entry :: "string \<times> string \<Rightarrow> operation" where
  "http_entry r = operation0
     \<lparr>op_name := fst r @ '' '' @ snd r, op_typ := opHTTPServer, op_kind := SpanKindServer,
      op_method := fst r, route := snd r, peer := -1, muLog := 16, sigmaLog := fl (6 / 10)\<rparr>"

definition consumer_entry :: "string \<Rightarrow> operation" where
  "consumer_entry dst = operation0
     \<lparr>op_name := dst @ '' process'', op_typ := opMsgConsumer, op_kind := SpanKindConsumer,
      destination := dst, peer := -1, muLog := 31 / 2, sigmaLog := fl (7 / 10)\<rparr>"

text \<open>\<open>for e := 0; e < nEntry; e++\<close>, with \<open>k = nEntry - e\<close> rounds to go.\<close>

fun entry_loop :: "nat \<Rightarrow> operation list \<Rightarrow> pcg \<Rightarrow> (operation list \<times> pcg) option" where
  "entry_loop 0 ops r = Some (ops, r)"
| "entry_loop (Suc k) ops r = do { (x, r) \<leftarrow> pick httpRoutes r; entry_loop k (ops @ [http_entry x]) r }"

definition build_service :: "nat \<Rightarrow> pcg \<Rightarrow> (service \<times> pcg) option" where
  "build_service i r = do {
     name \<leftarrow> service_name i;
     (v1, r) \<leftarrow> rand_intN 8 r;
     (v2, r) \<leftarrow> rand_intN 20 r;
     let ver = ''1.'' @ dec v1 @ ''.'' @ dec v2;
     (environment, r) \<leftarrow> pick environments r;
     (region, r) \<leftarrow> pick regions r;
     (inst, r) \<leftarrow> rand_intN 3 r;
     (node, r) \<leftarrow> rand_intN 12 r;
     let (pod, r) = rand_uint32 r;
     (worker, r) \<leftarrow> rand_intN 12 r;
     let attrs =
       [(''service.name'', name), (''service.namespace'', ''shop''), (''service.version'', ver),
        (''service.instance.id'', name @ ''-'' @ dec inst),
        (''deployment.environment'', environment), (''telemetry.sdk.name'', ''opentelemetry''),
        (''telemetry.sdk.language'', ''go''), (''telemetry.sdk.version'', ''1.31.0''),
        (''host.name'', ''node-'' @ dec node), (''host.arch'', ''amd64''), (''os.type'', ''linux''),
        (''cloud.provider'', ''onprem''), (''cloud.region'', region),
        (''k8s.namespace.name'', ''shop''), (''k8s.deployment.name'', name),
        (''k8s.pod.name'', name @ ''-'' @ hex_nat (unat (pod AND 0xffff))),
        (''k8s.node.name'', ''worker-'' @ dec worker)];
     (more, r) \<leftarrow> rand_intN 3 r;
     (ops, r) \<leftarrow> entry_loop (nat (2 + more)) [] r;
     let (u, r) = rand_float64 r;
     let ops = (if u < fl (4 / 10) then ops @ [consumer_entry (name @ ''.events'')] else ops);
     Some (\<lparr>idx = int i, svc_name = name, namespace = ''shop'', version = ver,
            host = name @ ''.shop.svc.cluster.local'', resourceAttrs = attrs,
            entryOps = ops, childOps = []\<rparr>, r)
   }"

fun build_services :: "nat list \<Rightarrow> pcg \<Rightarrow> (service list \<times> pcg) option" where
  "build_services [] r = Some ([], r)"
| "build_services (i # is) r = do {
     (s, r) \<leftarrow> build_service i r;
     (ss, r) \<leftarrow> build_services is r;
     Some (s # ss, r)
   }"

text \<open>The second pass: outbound calls go to services of higher index.\<close>

definition http_call :: "string \<times> string \<Rightarrow> int \<Rightarrow> operation" where
  "http_call x p = operation0
     \<lparr>op_name := fst x @ '' '' @ snd x, op_typ := opHTTPClient, op_kind := SpanKindClient,
      op_method := fst x, route := snd x, peer := p, muLog := 15, sigmaLog := fl (7 / 10)\<rparr>"

definition rpc_call :: "string \<Rightarrow> int \<Rightarrow> operation" where
  "rpc_call nm p = operation0
     \<lparr>op_name := ''grpc.'' @ nm @ ''/Get'', op_typ := opRPCClient, op_kind := SpanKindClient,
      rpcService := nm @ ''.v1.Service'', rpcMethod := ''Get'', peer := p,
      muLog := 29 / 2, sigmaLog := fl (7 / 10)\<rparr>"

definition db_call :: "string \<Rightarrow> string \<times> string \<times> string \<Rightarrow> operation" where
  "db_call ns db = operation0
     \<lparr>op_name := fst (snd db) @ '' '' @ snd (snd db), op_typ := opDBClient, op_kind := SpanKindClient,
      dbSystem := fst db, dbOp := fst (snd db), collection := snd (snd db), dbName := ns, peer := -1,
      muLog := 27 / 2, sigmaLog := fl (8 / 10)\<rparr>"

definition compute_op :: "string \<Rightarrow> operation" where
  "compute_op nm = operation0
     \<lparr>op_name := ''compute.'' @ nm, op_typ := opInternal, op_kind := SpanKindInternal, peer := -1,
      muLog := 13, sigmaLog := fl (9 / 10)\<rparr>"

fun peer_loop :: "nat \<Rightarrow> service list \<Rightarrow> int \<Rightarrow> int \<Rightarrow> operation list \<Rightarrow> pcg
    \<Rightarrow> (operation list \<times> pcg) option" where
  "peer_loop 0 ss n i ops r = Some (ops, r)"
| "peer_loop (Suc k) ss n i ops r =
     (if i + 1 < n then do {
        (d, r) \<leftarrow> rand_intN (n - i - 1) r;
        let p = i + 1 + d;
        let (u, r) = rand_float64 r;
        if u < 1 / 2 then do {
          (x, r) \<leftarrow> pick httpRoutes r;
          peer_loop k ss n i (ops @ [http_call x p]) r
        } else do {
          s \<leftarrow> slice_at ss p;
          peer_loop k ss n i (ops @ [rpc_call (svc_name s) p]) r
        }
      } else Some (ops, r))"

fun db_loop :: "nat \<Rightarrow> string \<Rightarrow> operation list \<Rightarrow> pcg \<Rightarrow> (operation list \<times> pcg) option" where
  "db_loop 0 ns ops r = Some (ops, r)"
| "db_loop (Suc k) ns ops r = do { (db, r) \<leftarrow> pick dbSystems r; db_loop k ns (ops @ [db_call ns db]) r }"

definition build_children :: "service list \<Rightarrow> int \<Rightarrow> int \<Rightarrow> pcg \<Rightarrow> (service list \<times> pcg) option" where
  "build_children ss n i r = do {
     s \<leftarrow> slice_at ss i;
     (nPeers, r) \<leftarrow> rand_intN 3 r;
     (ops, r) \<leftarrow> peer_loop (nat nPeers) ss n i (childOps s) r;
     (d, r) \<leftarrow> rand_intN 2 r;
     (ops, r) \<leftarrow> db_loop (nat (1 + d)) (namespace s) ops r;
     Some (ss[nat i := s\<lparr>childOps := ops @ [compute_op (svc_name s)]\<rparr>], r)
   }"

fun children_loop :: "nat list \<Rightarrow> service list \<Rightarrow> int \<Rightarrow> pcg \<Rightarrow> service list option" where
  "children_loop [] ss n r = Some ss"
| "children_loop (i # is) ss n r = do {
     (ss, r) \<leftarrow> build_children ss n (int i) r;
     children_loop is ss n r
   }"

text \<open>
  \<open>make([]service, n)\<close> panics for a negative \<open>n\<close>, and for one whose slice would not fit the address space: the size
  of a \<open>service\<close> in bytes (an \<open>int\<close>, four strings, a map, two slices) times \<open>n\<close> may not exceed the largest allocation of
  the runtime (\<open>maxAlloc\<close>, 48 bits on linux/amd64 and arm64).
\<close>

definition service_size :: int where
  "service_size = 8 + 4 * 16 + 8 + 2 * 24"

definition max_alloc :: int where
  "max_alloc = 2 ^ 48"

definition BuildCatalog :: "int \<Rightarrow> string \<Rightarrow> string \<Rightarrow> u64 \<Rightarrow> Catalog option" where
  "BuildCatalog n scopeName scopeVer seed =
     (if n < 0 \<or> max_alloc < n * service_size then None
      else do {
        let r = new_pcg seed 0xD1B54A32D192ED03;
        (ss, r) \<leftarrow> build_services [0 ..< nat n] r;
        ss \<leftarrow> children_loop [0 ..< nat n] ss n r;
        Some \<lparr>services = ss, ScopeName = scopeName, ScopeVer = scopeVer\<rparr>
      })"

section \<open>Well-formed catalogs\<close>

text \<open>
  The parameters of the latency model leave room: at thirty standard deviations above the mean the exponent is at
  most 41.
\<close>

definition latency_params :: "operation \<Rightarrow> bool" where
  "latency_params op \<longleftrightarrow> 0 \<le> muLog op \<and> 0 \<le> sigmaLog op \<and> muLog op + 30 * sigmaLog op \<le> 41"

definition entry_ok :: "operation \<Rightarrow> bool" where
  "entry_ok op \<longleftrightarrow> peer op = -1 \<and> latency_params op \<and>
     (op_typ op = opHTTPServer \<and> op_kind op = SpanKindServer
      \<or> op_typ op = opMsgConsumer \<and> op_kind op = SpanKindConsumer)"

definition child_ok :: "int \<Rightarrow> int \<Rightarrow> operation \<Rightarrow> bool" where
  "child_ok n i op \<longleftrightarrow> latency_params op \<and>
     (op_typ op \<in> {opHTTPClient, opRPCClient} \<and> op_kind op = SpanKindClient \<and> i < peer op \<and> peer op < n
      \<or> op_typ op = opDBClient \<and> op_kind op = SpanKindClient \<and> peer op = -1
      \<or> op_typ op = opInternal \<and> op_kind op = SpanKindInternal \<and> peer op = -1)"

text \<open>What the first pass establishes for service \<open>i\<close>, and what holds after the second one.\<close>

definition base_ok :: "nat \<Rightarrow> service \<Rightarrow> bool" where
  "base_ok i s \<longleftrightarrow> idx s = int i \<and> service_name i = Some (svc_name s) \<and> namespace s = ''shop''
     \<and> 2 \<le> length (entryOps s) \<and> length (entryOps s) \<le> 5 \<and> (\<forall>op \<in> set (entryOps s). entry_ok op)
     \<and> distinct (map fst (resourceAttrs s))
     \<and> map_of (resourceAttrs s) ''service.name'' = Some (svc_name s)"

definition service_ok :: "int \<Rightarrow> nat \<Rightarrow> service \<Rightarrow> bool" where
  "service_ok n i s \<longleftrightarrow> base_ok i s \<and> 2 \<le> length (childOps s) \<and> length (childOps s) \<le> 5
     \<and> (\<forall>op \<in> set (childOps s). child_ok n (int i) op)"

definition catalog_ok :: "Catalog \<Rightarrow> bool" where
  "catalog_ok cat \<longleftrightarrow>
     (\<forall>i < length (services cat). service_ok (int (length (services cat))) i (services cat ! i))"

lemmas op_defs = http_entry_def consumer_entry_def http_call_def rpc_call_def db_call_def
  compute_op_def operation0_def

lemma op_params [simp]:
  "latency_params (http_entry x)" "latency_params (consumer_entry d)" "latency_params (http_call x p)"
  "latency_params (rpc_call nm p)" "latency_params (db_call ns db)" "latency_params (compute_op nm)"
  using fl_upper [of "6 / 10"] fl_upper [of "7 / 10"] fl_upper [of "8 / 10"] fl_upper [of "9 / 10"]
  by (simp_all add: latency_params_def op_defs fl_nonneg)

lemma ops_ok [simp]:
  "entry_ok (http_entry x)" "entry_ok (consumer_entry d)" "child_ok n i (db_call ns db)" "child_ok n i (compute_op nm)"
  "child_ok n i (http_call x p) \<longleftrightarrow> i < p \<and> p < n" "child_ok n i (rpc_call nm p) \<longleftrightarrow> i < p \<and> p < n"
  by (simp_all add: entry_ok_def child_ok_def) (simp_all add: op_defs)

section \<open>The construction does not panic and keeps the form\<close>

lemma pick_opost [opost_rules]:
  assumes "xs \<noteq> []" and "length xs < 2 ^ 63" and "\<And>x r'. x \<in> set xs \<Longrightarrow> P (x, r')"
  shows "opost (pick xs r) P"
proof -
  have "int (length xs) < 2 ^ 64"
    using assms(2) by simp
  then show ?thesis
    using assms(1,3) unfolding pick_def opost_bind
    by (intro rand_intN_opost) (auto simp: slice_at_def)
qed

lemma service_names_length [simp]: "length serviceNames = 24"
  by (simp add: serviceNames_def)

lemma pools_nonempty [simp]:
  "httpRoutes \<noteq> []" "dbSystems \<noteq> []" "environments \<noteq> []" "regions \<noteq> []"
  "length httpRoutes = 12" "length dbSystems = 8" "length environments = 2" "length regions = 3"
  by (simp_all add: httpRoutes_def dbSystems_def environments_def regions_def)

lemma service_name_Some: "\<exists>nm. service_name i = Some nm"
  by (simp add: service_name_def slice_at_def)

lemma entry_loop_opost:
  "(\<And>ops' r'. length ops' = length ops + k \<Longrightarrow> (\<forall>op \<in> set ops'. op \<in> set ops \<or> entry_ok op) \<Longrightarrow> P (ops', r'))
     \<Longrightarrow> opost (entry_loop k ops r) P"
proof (induction k arbitrary: ops r)
  case (Suc k)
  have "opost (entry_loop k (ops @ [http_entry x]) r') P" for x r'
    by (rule Suc.IH, rule Suc.prems) auto
  then show ?case
    by (auto simp: opost_bind intro!: pick_opost)
qed simp

lemma build_service_opost:
  "opost (build_service i r) (\<lambda>(s, r'). base_ok i s \<and> childOps s = [])"
proof -
  obtain nm where "service_name i = Some nm"
    using service_name_Some by blast
  then show ?thesis
    unfolding build_service_def
    by (auto simp: opost_bind Let_def base_ok_def split: prod.splits
        intro!: rand_intN_opost pick_opost entry_loop_opost)
qed

lemma build_services_opost:
  "opost (build_services is r) (\<lambda>(ss, r'). list_all2 (\<lambda>i s. base_ok i s \<and> childOps s = []) is ss)"
proof (induction "is" arbitrary: r)
  case (Cons i "is")
  show ?case
    by (auto simp: opost_bind intro!: opost_mono [OF build_service_opost] opost_mono [OF Cons.IH])
qed simp

lemma peer_loop_opost:
  assumes "0 \<le> i" and "n < 2 ^ 63" and "n = int (length ss)"
    and "\<And>ops' r'. length ops \<le> length ops' \<Longrightarrow> length ops' \<le> length ops + k \<Longrightarrow>
           (\<forall>op \<in> set ops'. op \<in> set ops \<or> child_ok n i op) \<Longrightarrow> P (ops', r')"
  shows "opost (peer_loop k ss n i ops r) P"
  using assms(4)
proof (induction k arbitrary: ops r)
  case (Suc k)
  have more: "opost (peer_loop k ss n i (ops @ [op]) r') P" if "child_ok n i op" for op r'
    by (rule Suc.IH, rule Suc.prems) (use that in auto)
  have ok: "child_ok n i (http_call x (i + 1 + d))" "child_ok n i (rpc_call nm (i + 1 + d))"
    if "0 \<le> d" "d < n - i - 1" for x nm d
    using that by auto
  have at: "slice_at ss (i + 1 + d) = Some (ss ! nat (i + 1 + d))" if "0 \<le> d" "d < n - i - 1" for d
    using that assms(1,3) by (intro slice_at_SomeI) auto
  show ?case
  proof (cases "i + 1 < n")
    case True
    show ?thesis
      unfolding peer_loop.simps if_P [OF True] opost_bind
    proof (rule rand_intN_opost)
      fix d r'
      assume "0 \<le> d" "d < n - i - 1"
      then show "opost (case (d, r') of (d, r) \<Rightarrow>
          let p = i + 1 + d; (u, r) = rand_float64 r
          in if u < 1 / 2 then do {
               (x, r) \<leftarrow> pick httpRoutes r;
               peer_loop k ss n i (ops @ [http_call x p]) r
             } else do {
               s \<leftarrow> slice_at ss p;
               peer_loop k ss n i (ops @ [rpc_call (svc_name s) p]) r
             }) P"
        by (auto simp: opost_bind Let_def case_prod_beta at intro!: pick_opost more ok)
    qed (use True assms(1,2) in auto)
  next
    case False
    with Suc.prems show ?thesis by simp
  qed
qed simp

lemma db_loop_opost:
  "(\<And>ops' r'. length ops' = length ops + k \<Longrightarrow>
       (\<forall>op \<in> set ops'. op \<in> set ops \<or> child_ok n i op) \<Longrightarrow> P (ops', r'))
     \<Longrightarrow> opost (db_loop k ns ops r) P"
proof (induction k arbitrary: ops r)
  case (Suc k)
  have "opost (db_loop k ns (ops @ [db_call ns x]) r') P" for x r'
    by (rule Suc.IH, rule Suc.prems) auto
  then show ?case
    by (auto simp: opost_bind intro!: pick_opost)
qed simp

text \<open>The services before the second pass has reached them, and after.\<close>

definition pass2_inv :: "nat set \<Rightarrow> service list \<Rightarrow> bool" where
  "pass2_inv todo ss \<longleftrightarrow>
     (\<forall>i < length ss. if i \<in> todo then base_ok i (ss ! i) \<and> childOps (ss ! i) = []
                     else service_ok (int (length ss)) i (ss ! i))"

lemma base_ok_childOps [simp]: "base_ok i (s\<lparr>childOps := ops\<rparr>) = base_ok i s"
  by (simp add: base_ok_def)

lemma build_children_opost:
  assumes i: "i < length ss" "i \<in> todo" and inv: "pass2_inv todo ss" and n: "int (length ss) < 2 ^ 63"
  shows "opost (build_children ss (int (length ss)) (int i) r)
           (\<lambda>(ss', r'). length ss' = length ss \<and> pass2_inv (todo - {i}) ss')"
proof -
  have s: "base_ok i (ss ! i)" "childOps (ss ! i) = []"
    using i inv by (auto simp: pass2_inv_def)
  have "service_ok (int (length ss)) i ((ss ! i)\<lparr>childOps := ops @ [compute_op nm]\<rparr>)"
    if "\<forall>op \<in> set ops. child_ok (int (length ss)) (int i) op" "1 \<le> length ops" "length ops \<le> 4" for ops nm
    using that s by (auto simp: service_ok_def)
  then have fin: "pass2_inv (todo - {i}) (ss[i := (ss ! i)\<lparr>childOps := ops @ [compute_op nm]\<rparr>])"
    if "\<forall>op \<in> set ops. child_ok (int (length ss)) (int i) op" "1 \<le> length ops" "length ops \<le> 4" for ops nm
    using that inv i by (simp add: pass2_inv_def nth_list_update)
  show ?thesis
    unfolding build_children_def
    using i s n
    by (auto simp: opost_bind slice_at_def
        intro!: rand_intN_opost peer_loop_opost db_loop_opost [where n = "int (length ss)" and i = "int i"] fin;
        (blast | arith))
qed

lemma children_loop_opost:
  assumes "int (length ss) < 2 ^ 63" and "pass2_inv (set is) ss" and "distinct is"
    and "\<forall>i \<in> set is. i < length ss"
  shows "opost (children_loop is ss (int (length ss)) r)
           (\<lambda>ss'. length ss' = length ss \<and> pass2_inv {} ss')"
  using assms
proof (induction "is" arbitrary: ss r)
  case (Cons i "is")
  have "set (i # is) - {i} = set is"
    using Cons.prems(3) by auto
  then have step: "opost (build_children ss (int (length ss)) (int i) r)
      (\<lambda>(ss', r'). length ss' = length ss \<and> pass2_inv (set is) ss')"
    using build_children_opost [of i ss "set (i # is)" r] Cons.prems by simp
  have rest: "opost (children_loop is ss' (int (length ss)) r')
      (\<lambda>ss''. length ss'' = length ss \<and> pass2_inv {} ss'')"
    if "length ss' = length ss" "pass2_inv (set is) ss'" for ss' r'
    using Cons.IH [of ss' r'] Cons.prems that by simp
  show ?case
    by (auto simp: opost_bind intro!: opost_mono [OF step] rest)
qed simp

lemma allocatable: "n * service_size \<le> max_alloc \<longleftrightarrow> n \<le> 2 ^ 41"
  by (simp add: service_size_def max_alloc_def)

lemma BuildCatalog_bound: "BuildCatalog n nm ver seed = Some cat \<Longrightarrow> 0 \<le> n \<and> n \<le> 2 ^ 41"
  by (auto simp: BuildCatalog_def not_less allocatable split: if_splits)

lemma BuildCatalog_too_large: "2 ^ 41 < n \<Longrightarrow> BuildCatalog n nm ver seed = None"
  using allocatable [of n] by (simp add: BuildCatalog_def)

lemma BuildCatalog_opost:
  assumes "0 \<le> n" and "n \<le> 2 ^ 41"
  shows "opost (BuildCatalog n nm ver seed)
           (\<lambda>cat. int (length (services cat)) = n \<and> catalog_ok cat
                  \<and> ScopeName cat = nm \<and> ScopeVer cat = ver)"
proof -
  have pass2: "opost (children_loop [0 ..< nat n] ss n r)
      (\<lambda>ss'. int (length ss') = n \<and> pass2_inv {} ss')"
    if ss: "list_all2 (\<lambda>i s. base_ok i s \<and> childOps s = []) [0 ..< nat n] ss" for ss r
  proof -
    have len: "length ss = nat n"
      using list_all2_lengthD [OF ss] by simp
    have "pass2_inv (set [0 ..< nat n]) ss"
      using list_all2_nthD2 [OF ss] len by (auto simp: pass2_inv_def)
    then have "opost (children_loop [0 ..< nat n] ss (int (length ss)) r)
        (\<lambda>ss'. length ss' = length ss \<and> pass2_inv {} ss')"
      using assms len by (intro children_loop_opost) auto
    then show ?thesis
      using assms len by (auto elim: opost_mono)
  qed
  have "n * service_size \<le> max_alloc"
    using assms(2) by (simp only: allocatable)
  with assms(1) show ?thesis
    by (auto simp: BuildCatalog_def opost_bind Let_def catalog_ok_def pass2_inv_def
        intro!: opost_mono [OF build_services_opost] opost_mono [OF pass2])
qed

section \<open>Names\<close>

lemma service_name_parts:
  assumes "service_name i = Some nm"
  shows "takeWhile (\<lambda>c. \<not> is_digit c) nm
           = serviceNames ! (i mod 24) @ (if 24 \<le> i then ''-'' else [])"
    and "dropWhile (\<lambda>c. \<not> is_digit c) nm = (if 24 \<le> i then dec_nat (i div 24) else [])"
proof -
  have "list_all (list_all (\<lambda>c. \<not> is_digit c)) serviceNames"
    by code_simp
  moreover have "serviceNames ! (i mod 24) \<in> set serviceNames"
    by simp
  ultimately have b: "\<forall>c \<in> set (serviceNames ! (i mod 24)). \<not> is_digit c"
    unfolding list_all_iff by blast
  have nm: "nm = (serviceNames ! (i mod 24) @ (if 24 \<le> i then ''-'' else []))
                   @ (if 24 \<le> i then dec_nat (i div 24) else [])" (is "_ = ?p @ ?q")
    using assms by (simp add: service_name_def slice_at_def dec_def nat_div_distrib split: if_splits)
  have p: "\<forall>c \<in> set ?p. \<not> is_digit c"
    using b by (auto simp: is_digit_def)
  have q: "?q = [] \<or> is_digit (hd ?q)"
    using hd_dec_nat_digit by simp
  have tw: "takeWhile (\<lambda>c. \<not> is_digit c) ?q = []" "dropWhile (\<lambda>c. \<not> is_digit c) ?q = ?q"
    using q by (cases ?q; simp)+
  show "takeWhile (\<lambda>c. \<not> is_digit c) nm = ?p"
    unfolding nm using p tw by (subst takeWhile_append2) auto
  show "dropWhile (\<lambda>c. \<not> is_digit c) nm = ?q"
    unfolding nm using p tw by (subst dropWhile_append2) auto
qed

lemma service_name_inj:
  assumes "service_name i = Some nm" and "service_name j = Some nm"
  shows "i = j"
proof -
  have d: "distinct serviceNames"
    by code_simp
  have big: "24 \<le> i \<longleftrightarrow> 24 \<le> j" and q: "24 \<le> i \<Longrightarrow> i div 24 = j div 24"
    using service_name_parts(2) [OF assms(1)] service_name_parts(2) [OF assms(2)]
    by (auto split: if_splits)
  then have "serviceNames ! (i mod 24) = serviceNames ! (j mod 24)"
    using service_name_parts(1) [OF assms(1)] service_name_parts(1) [OF assms(2)]
    by (auto split: if_splits)
  then have "i mod 24 = j mod 24"
    using d by (simp add: nth_eq_iff_index_eq)
  moreover have "i div 24 = j div 24"
    using big q by (cases "24 \<le> i") auto
  ultimately show ?thesis
    by (metis div_mult_mod_eq)
qed

lemma catalog_names_distinct: "catalog_ok cat \<Longrightarrow> distinct (map svc_name (services cat))"
  using service_name_inj
  by (auto simp: distinct_conv_nth catalog_ok_def service_ok_def base_ok_def)

section \<open>The call graph\<close>

text \<open>Service \<open>i\<close> has an operation that calls service \<open>j\<close>.\<close>

definition calls :: "Catalog \<Rightarrow> (nat \<times> nat) set" where
  "calls cat = {(i, j). i < length (services cat)
     \<and> (\<exists>op \<in> set (childOps (services cat ! i)). peer op = int j)}"

lemma calls_upward: "catalog_ok cat \<Longrightarrow> (i, j) \<in> calls cat \<Longrightarrow> i < j \<and> j < length (services cat)"
  by (force simp: calls_def catalog_ok_def service_ok_def child_ok_def)

lemma calls_acyclic: "catalog_ok cat \<Longrightarrow> acyclic (calls cat)"
proof -
  assume "catalog_ok cat"
  then have "calls cat \<subseteq> {(i, j). i < j}"
    using calls_upward by auto
  moreover have "acyclic {(i, j). i < (j :: nat)}"
    using wf_less by (simp add: wf_acyclic less_eq)
  ultimately show ?thesis
    by (meson acyclic_subset)
qed

end
