(* ===== verification/CatalogProps.thy ===== *)
theory CatalogProps
  imports Catalog
begin

text \<open>
  The properties of \<open>internal/model/catalog.go\<close>: the topology that every replica builds from the base
  seed is well formed, its services have names of their own, and its calls only go up.
\<close>



text \<open>
  The services of a catalog have distinct names, also when there are more services than base names,
  and \<open>service.name\<close> of a service is its own name.
\<close>

theorem BuildCatalog_names:
  assumes "BuildCatalog n nm ver seed = Some cat" and "0 \<le> n" and "n < 2 ^ 63"
  shows "distinct (map svc_name (services cat))
     \<and> (\<forall>s \<in> set (services cat). map_of (resourceAttrs s) ''service.name'' = Some (svc_name s))"
proof -
  have ok: "catalog_ok cat"
    using BuildCatalog_opost [of n nm ver seed] BuildCatalog_bound [OF assms(1)] assms(1) by simp
  then show ?thesis
    using catalog_names_distinct
    by (auto simp: in_set_conv_nth catalog_ok_def service_ok_def base_ok_def)
qed

lemma BuildCatalog_names_witness:
  "\<exists>cat. BuildCatalog 30 ''spangen'' ''1.0.0'' 42 = Some cat \<and> distinct (map svc_name (services cat))"
  using BuildCatalog_names [of 30 "''spangen''" "''1.0.0''" 42]
    BuildCatalog_opost [of 30 "''spangen''" "''1.0.0''" 42] by (auto simp: opost_iff)

text \<open>
  C21. Remote calls go from a service to one of higher index only, so the call graph has no cycle and the
  last service calls nobody.
\<close>

theorem BuildCatalog_calls:
  assumes "BuildCatalog n nm ver seed = Some cat" and "0 \<le> n" and "n < 2 ^ 63"
  shows "acyclic (calls cat)
     \<and> (\<forall>i < length (services cat). \<forall>op \<in> set (childOps (services cat ! i)).
          0 \<le> peer op \<longrightarrow> int i < peer op \<and> peer op < n \<and> op_kind op = SpanKindClient)"
proof -
  have ok: "catalog_ok cat" "int (length (services cat)) = n"
    using BuildCatalog_opost [of n nm ver seed] BuildCatalog_bound [OF assms(1)] assms(1) by simp_all
  then show ?thesis
    using calls_acyclic [OF ok(1)]
    by (force simp: catalog_ok_def service_ok_def child_ok_def)
qed

lemma BuildCatalog_calls_witness:
  "\<exists>cat. BuildCatalog 30 ''spangen'' ''1.0.0'' 42 = Some cat \<and> acyclic (calls cat)"
  using BuildCatalog_calls [of 30 "''spangen''" "''1.0.0''" 42]
    BuildCatalog_opost [of 30 "''spangen''" "''1.0.0''" 42] by (auto simp: opost_iff)

end
