(* ===== verification/Pdata.thy ===== *)
theory Pdata
  imports Complex_Main Catalog
begin

text \<open>
  The OpenTelemetry message tree that the generator builds and the sinks read, as plain records:
  a field holds what the program set. An attribute list is the sequence of \<open>Put\<close> calls in their
  order. The library functions whose results the program uses are fields of \<open>lib\<close>; what the
  program relies on is \<open>lib_ok\<close>.
\<close>

datatype attr_value = VStr string | VInt int | VBool bool

type_synonym attributes = "(string \<times> attr_value) list"

datatype StatusCode = StatusCodeUnset | StatusCodeError

type_synonym TraceID = "u8 list"
type_synonym SpanID = "u8 list"

record event =
  ev_name :: string
  ev_timestamp :: u64
  ev_attributes :: attributes

record link =
  lk_traceID :: TraceID
  lk_spanID :: SpanID
  lk_traceState :: string
  lk_attributes :: attributes

record span =
  traceID :: TraceID
  spanID :: SpanID
  parentSpanID :: SpanID
  traceState :: string
  span_name :: string
  span_kind :: SpanKind
  startTimestamp :: u64
  endTimestamp :: u64
  span_attributes :: attributes
  statusCode :: StatusCode
  statusMessage :: string
  span_events :: "event list"
  span_links :: "link list"

record scope_spans =
  scope_name :: string
  scope_version :: string
  scope_attributes :: attributes
  spans :: "span list"

record resource_spans =
  rs_attributes :: attributes
  rs_scopes :: "scope_spans list"

type_synonym Traces = "resource_spans list"

definition scope_total :: "resource_spans \<Rightarrow> nat" where
  "scope_total rs = sum_list (map (\<lambda>ss. length (spans ss)) (rs_scopes rs))"

definition total_spans :: "Traces \<Rightarrow> nat" where
  "total_spans td = sum_list (map scope_total td)"

definition all_spans :: "Traces \<Rightarrow> span list" where
  "all_spans td = concat (map (\<lambda>rs. concat (map spans (rs_scopes rs))) td)"

lemma length_all_spans: "length (all_spans td) = total_spans td"
  by (simp add: all_spans_def total_spans_def scope_total_def [abs_def] length_concat comp_def)

section \<open>Library functions\<close>

text \<open>
  \<^item> \<open>normFloat64\<close>, \<open>mathExp\<close>: \<open>rand.NormFloat64\<close> and \<open>math.Exp\<close>;
  \<^item> \<open>timeNow\<close>: the \<open>n\<close>-th reading of the clock, in nanoseconds since the epoch;
  \<^item> \<open>rangeOrder\<close>: the order in which a \<open>range\<close> loop visits the entries of a map;
  \<^item> \<open>idIsEmpty\<close>: \<open>IsEmpty\<close> of \<open>pcommon.TraceID\<close> and \<open>pcommon.SpanID\<close>;
  \<^item> \<open>newTimestamp\<close>: \<open>pcommon.NewTimestampFromTime\<close>.
\<close>

record lib =
  normFloat64 :: "pcg \<Rightarrow> rat \<times> pcg"
  mathExp :: "rat \<Rightarrow> rat"
  timeNow :: "nat \<Rightarrow> int"
  rangeOrder :: "(string \<times> string) list \<Rightarrow> (string \<times> string) list"
  idIsEmpty :: "u8 list \<Rightarrow> bool"
  newTimestamp :: "int \<Rightarrow> u64"

definition lib_ok :: "lib \<Rightarrow> bool" where
  "lib_ok L \<longleftrightarrow>
     (\<forall>xs. mset (rangeOrder L xs) = mset xs)
     \<and> (\<forall>b. idIsEmpty L b \<longleftrightarrow> (\<forall>x \<in> set b. x = 0))
     \<and> (\<forall>t. newTimestamp L t = word_of_int t)"

end
