(* ===== verification/Generator.thy ===== *)
theory Generator
  imports Pdata
begin

text \<open>
  \<open>internal/model/generator.go\<close>: the trace generator of one worker. The generator's mutable fields
  and the batch \<open>td\<close> are threaded through every function in the order of the source; a panic is
  \<^term>\<open>None\<close>. The \<open>SpanSlice\<close> values that \<open>g.scopes\<close> keeps are references into \<open>td\<close>; they are
  modelled by the position of their \<open>ResourceSpans\<close> in \<open>td\<close>.
\<close>

section \<open>The generator\<close>

text \<open>\<open>nowCalls\<close> counts the readings of the clock; the other fields are the source's.\<close>

record Generator =
  gcat :: Catalog
  rng :: pcg
  spansPerTraceMin :: int
  spansPerTraceMax :: int
  errorRate :: float64
  eventRate :: float64
  scopes :: "int \<rightharpoonup> nat"
  lastSpanID :: SpanID
  nowCalls :: nat

definition zeroSpanID :: SpanID where
  "zeroSpanID = replicate 8 0"

definition NewGenerator :: "Catalog \<Rightarrow> u64 \<Rightarrow> int \<Rightarrow> int \<Rightarrow> float64 \<Rightarrow> float64 \<Rightarrow> Generator" where
  "NewGenerator cat seed spMin spMax eRate vRate =
     \<lparr>gcat = cat, rng = new_pcg seed (NOT seed), spansPerTraceMin = spMin, spansPerTraceMax = spMax,
      errorRate = eRate, eventRate = vRate, scopes = Map.empty, lastSpanID = zeroSpanID, nowCalls = 0\<rparr>"

section \<open>Value pools\<close>

definition exceptionTypes :: "string list" where
  "exceptionTypes = [''java.lang.RuntimeException'', ''context.DeadlineExceeded'', ''sql.ErrNoRows'',
     ''net.OpError'', ''ValidationError'']"

definition infoStages :: "string list" where
  "infoStages = [''validate'', ''enrich'', ''persist'', ''publish'', ''respond'']"

definition userAgents :: "string list" where
  "userAgents =
     [''Mozilla/5.0 (Windows NT 10.0; Win64; x64)'', ''Mozilla/5.0 (Macintosh; Intel Mac OS X 10_15)'',
      ''curl/8.4.0'', ''okhttp/4.12.0'', ''Go-http-client/2.0'', ''PostmanRuntime/7.36.0'']"

definition httpStatusCode :: "bool \<Rightarrow> pcg \<Rightarrow> (int \<times> pcg) option" where
  "httpStatusCode isErr r =
     (if isErr then pick [500, 502, 503, 504, 400, 404] r else pick [200, 200, 200, 201, 204, 304] r)"

definition grpcStatus :: "bool \<Rightarrow> pcg \<Rightarrow> (int \<times> pcg) option" where
  "grpcStatus isErr r = (if isErr then pick [2, 4, 13, 14] r else Some (0, r))"

definition clientIP :: "pcg \<Rightarrow> (string \<times> pcg) option" where
  "clientIP r = do {
     (a, r) \<leftarrow> rand_intN 4 r;
     (b, r) \<leftarrow> rand_intN 256 r;
     (c, r) \<leftarrow> rand_intN 256 r;
     Some (''10.'' @ dec a @ ''.'' @ dec b @ ''.'' @ dec c, r)
   }"

definition userAgent :: "pcg \<Rightarrow> (string \<times> pcg) option" where
  "userAgent r = pick userAgents r"

definition sampleDur :: "lib \<Rightarrow> operation \<Rightarrow> pcg \<Rightarrow> int \<times> pcg" where
  "sampleDur L op r =
     (let (z, r) = normFloat64 L r;
          ns = mathExp L (fl (muLog op + fl (sigmaLog op * z)));
          ns = (if ns < 1000 then 1000 else ns)
      in (to_int64 ns, r))"

text \<open>\<open>binary.LittleEndian.PutUint64\<close>.\<close>

definition le_bytes :: "u64 \<Rightarrow> u8 list" where
  "le_bytes x = map (\<lambda>i. ucast (drop_bit (8 * i) x)) [0 ..< 8]"

definition fillTraceID :: "pcg \<Rightarrow> TraceID \<times> pcg" where
  "fillTraceID r = (let (x, r) = rand_uint64 r; (y, r) = rand_uint64 r in (le_bytes x @ le_bytes y, r))"

definition fillSpanID :: "pcg \<Rightarrow> SpanID \<times> pcg" where
  "fillSpanID r = (let (x, r) = rand_uint64 r in (le_bytes x, r))"

definition peerHost :: "operation \<Rightarrow> string" where
  "peerHost op = (if route op \<noteq> [] then ''svc.shop.svc.cluster.local'' else ''localhost'')"

definition dbPort :: "string \<Rightarrow> int" where
  "dbPort system =
     (if system = ''postgresql'' then 5432
      else if system = ''mysql'' then 3306
      else if system = ''redis'' then 6379
      else if system = ''mongodb'' then 27017
      else if system = ''cassandra'' then 9042
      else 0)"

definition msgOp :: "opType \<Rightarrow> string" where
  "msgOp t = (if t = opMsgProducer then ''publish'' else ''process'')"

section \<open>One span\<close>

definition http_attributes :: "operation \<Rightarrow> int \<Rightarrow> attributes" where
  "http_attributes op status =
     [(''http.request.method'', VStr (op_method op)),
      (''url.path'', VStr (route op)),
      (''url.scheme'', VStr ''http''),
      (''network.protocol.version'', VStr ''1.1''),
      (''server.address'', VStr (peerHost op)),
      (''server.port'', VInt 8080),
      (''http.response.status_code'', VInt status)]"

definition applyAttributes :: "operation \<Rightarrow> bool \<Rightarrow> pcg \<Rightarrow> (attributes \<times> pcg) option" where
  "applyAttributes op isErr r =
     (case op_typ op of
        opHTTPServer \<Rightarrow> do {
          (st, r) \<leftarrow> httpStatusCode isErr r;
          (ip, r) \<leftarrow> clientIP r;
          (ua, r) \<leftarrow> userAgent r;
          Some (http_attributes op st @
            [(''client.address'', VStr ip), (''user_agent.original'', VStr ua),
             (''url.full'', VStr (''http://'' @ peerHost op @ route op))], r)
        }
      | opHTTPClient \<Rightarrow> do {
          (st, r) \<leftarrow> httpStatusCode isErr r;
          Some (http_attributes op st, r)
        }
      | opDBClient \<Rightarrow> Some (
          [(''db.system'', VStr (dbSystem op)),
           (''db.namespace'', VStr (dbName op)),
           (''db.operation.name'', VStr (dbOp op)),
           (''db.collection.name'', VStr (collection op)),
           (''server.address'', VStr (dbSystem op @ ''.db.svc.cluster.local'')),
           (''server.port'', VInt (dbPort (dbSystem op))),
           (''db.query.text'', VStr (dbOp op @ '' FROM '' @ collection op @ '' WHERE id = ?''))], r)
      | opRPCServer \<Rightarrow> do {
          (st, r) \<leftarrow> grpcStatus isErr r;
          Some ([(''rpc.system'', VStr ''grpc''), (''rpc.service'', VStr (rpcService op)),
                 (''rpc.method'', VStr (rpcMethod op)), (''rpc.grpc.status_code'', VInt st)], r)
        }
      | opRPCClient \<Rightarrow> do {
          (st, r) \<leftarrow> grpcStatus isErr r;
          Some ([(''rpc.system'', VStr ''grpc''), (''rpc.service'', VStr (rpcService op)),
                 (''rpc.method'', VStr (rpcMethod op)), (''rpc.grpc.status_code'', VInt st)], r)
        }
      | opInternal \<Rightarrow> do {
          (w, r) \<leftarrow> rand_intN 16 r;
          Some ([(''code.namespace'', VStr (op_name op)), (''thread.name'', VStr (''worker-'' @ dec w))], r)
        }
      | _ \<Rightarrow> do {
          (n, r) \<leftarrow> rand_intN 8192 r;
          Some ([(''messaging.system'', VStr ''kafka''),
                 (''messaging.destination.name'', VStr (destination op)),
                 (''messaging.operation'', VStr (msgOp (op_typ op))),
                 (''messaging.message.body.size'', VInt (256 + n))], r)
        })"

definition exceptionEvent :: "lib \<Rightarrow> int \<Rightarrow> pcg \<Rightarrow> (event \<times> pcg) option" where
  "exceptionEvent L t r = do {
     (x, r) \<leftarrow> pick exceptionTypes r;
     Some (\<lparr>ev_name = ''exception'', ev_timestamp = newTimestamp L t,
            ev_attributes = [(''exception.type'', VStr x),
                             (''exception.message'', VStr ''request processing failed''),
                             (''exception.escaped'', VBool False)]\<rparr>, r)
   }"

definition infoEvent :: "lib \<Rightarrow> int \<Rightarrow> pcg \<Rightarrow> (event \<times> pcg) option" where
  "infoEvent L t r = do {
     (x, r) \<leftarrow> pick infoStages r;
     Some (\<lparr>ev_name = ''processing'', ev_timestamp = newTimestamp L t,
            ev_attributes = [(''stage'', VStr x)]\<rparr>, r)
   }"

text \<open>The status, message and events that \<open>emitSpan\<close> sets once \<open>isErr\<close> is drawn.\<close>

definition span_outcome :: "lib \<Rightarrow> float64 \<Rightarrow> bool \<Rightarrow> int \<Rightarrow> int \<Rightarrow> pcg
    \<Rightarrow> ((StatusCode \<times> string \<times> event list) \<times> pcg) option" where
  "span_outcome L vRate isErr start dur r =
     (if isErr then do {
        (ev, r) \<leftarrow> exceptionEvent L (start + dur sdiv 2) r;
        Some ((StatusCodeError, ''operation failed'', [ev]), r)
      } else do {
        let (u, r) = rand_float64 r;
        if f_less (Finite u) vRate then do {
          (ev, r) \<leftarrow> infoEvent L (start + dur sdiv 3) r;
          Some ((StatusCodeUnset, [], [ev]), r)
        } else Some ((StatusCodeUnset, [], []), r)
      })"

text \<open>The span that \<open>emitSpan\<close> fills in, and the random state after it.\<close>

definition make_span :: "lib \<Rightarrow> float64 \<Rightarrow> float64 \<Rightarrow> TraceID \<Rightarrow> SpanID \<Rightarrow> operation \<Rightarrow> int \<Rightarrow> int \<Rightarrow> pcg
    \<Rightarrow> (span \<times> pcg) option" where
  "make_span L eRate vRate tid parent op start dur r = do {
     let (sid, r) = fillSpanID r;
     let (u, r) = rand_float64 r;
     let isErr = f_less (Finite u) eRate;
     (attrs, r) \<leftarrow> applyAttributes op isErr r;
     ((code, msg, evs), r) \<leftarrow> span_outcome L vRate isErr start dur r;
     Some (\<lparr>traceID = tid, spanID = sid,
            parentSpanID = (if \<not> idIsEmpty L parent then parent else zeroSpanID),
            traceState = [], span_name = op_name op, span_kind = op_kind op,
            startTimestamp = newTimestamp L start, endTimestamp = newTimestamp L (start + dur),
            span_attributes = attrs, statusCode = code, statusMessage = msg,
            span_events = evs, span_links = []\<rparr>, r)
   }"

definition scopeFor :: "lib \<Rightarrow> Generator \<Rightarrow> Traces \<Rightarrow> int \<Rightarrow> (Generator \<times> Traces \<times> nat) option" where
  "scopeFor L g td svcIdx =
     (case scopes g svcIdx of
        Some i \<Rightarrow> Some (g, td, i)
      | None \<Rightarrow> do {
          s \<leftarrow> slice_at (services (gcat g)) svcIdx;
          let rs = \<lparr>rs_attributes = map (\<lambda>(k, v). (k, VStr v)) (rangeOrder L (resourceAttrs s)),
                    rs_scopes = [\<lparr>scope_name = ScopeName (gcat g), scope_version = ScopeVer (gcat g),
                                  scope_attributes = [], spans = []\<rparr>]\<rparr>;
          Some (g\<lparr>scopes := (scopes g)(svcIdx \<mapsto> length td)\<rparr>, td @ [rs], length td)
        })"

text \<open>\<open>spans.AppendEmpty()\<close> on the slice that position \<open>i\<close> of the batch refers to.\<close>

definition add_span :: "span \<Rightarrow> resource_spans \<Rightarrow> resource_spans" where
  "add_span sp rs =
     rs\<lparr>rs_scopes := (case rs_scopes rs of [] \<Rightarrow> []
                       | ss # sss \<Rightarrow> ss\<lparr>spans := spans ss @ [sp]\<rparr> # sss)\<rparr>"

definition append_span :: "Traces \<Rightarrow> nat \<Rightarrow> span \<Rightarrow> Traces" where
  "append_span td i sp = td[i := add_span sp (td ! i)]"

definition emitSpan :: "lib \<Rightarrow> Generator \<Rightarrow> Traces \<Rightarrow> TraceID \<Rightarrow> SpanID \<Rightarrow> service \<Rightarrow> operation
    \<Rightarrow> int \<Rightarrow> int \<Rightarrow> (Generator \<times> Traces) option" where
  "emitSpan L g td tid parent s op start dur = do {
     (g, td, i) \<leftarrow> scopeFor L g td (idx s);
     (sp, r) \<leftarrow> make_span L (errorRate g) (eventRate g) tid parent op start dur (rng g);
     Some (g\<lparr>rng := r, lastSpanID := spanID sp\<rparr>, append_span td i sp)
   }"

section \<open>One trace\<close>

definition serverCounterpart :: "operation \<Rightarrow> service \<Rightarrow> operation" where
  "serverCounterpart client p =
     (if op_typ client = opRPCClient then operation0
        \<lparr>op_name := rpcService client @ ''/'' @ rpcMethod client, op_typ := opRPCServer,
         op_kind := SpanKindServer, rpcService := rpcService client, rpcMethod := rpcMethod client,
         peer := -1, muLog := fl (muLog client - fl (3 / 10)), sigmaLog := sigmaLog client\<rparr>
      else operation0
        \<lparr>op_name := op_method client @ '' '' @ route client, op_typ := opHTTPServer,
         op_kind := SpanKindServer, op_method := op_method client, route := route client,
         peer := -1, muLog := fl (muLog client - fl (3 / 10)), sigmaLog := sigmaLog client\<rparr>)"

text \<open>\<open>time.Duration(float64(pDur) * 0.7 * g.rng.Float64())\<close>, and a fraction of a duration.\<close>

definition child_offset :: "int \<Rightarrow> rat \<Rightarrow> int" where
  "child_offset pDur u = to_int64 (fl (fl (fl (of_int pDur) * fl (7 / 10)) * u))"

definition scaled :: "int \<Rightarrow> rat \<Rightarrow> int" where
  "scaled d q = to_int64 (fl (fl (of_int d) * fl q))"

text \<open>\<open>if rem := pDur - offset; cDur > rem && rem > 0 { cDur = rem }\<close>.\<close>

definition clip_dur :: "int \<Rightarrow> int \<Rightarrow> int \<Rightarrow> int" where
  "clip_dur pDur offset cDur =
     (let rem = pDur - offset in if cDur > rem \<and> rem > 0 then rem else cDur)"

text \<open>The state of the recursion: generator, batch and \<open>*remaining\<close>.\<close>

type_synonym tstate = "Generator \<times> Traces \<times> int"

text \<open>
  The body of the loop of \<open>addChildren\<close>; \<open>rec\<close> is the recursive call at \<open>depth+1\<close>, on a parent id, a
  service index, a start and a duration. \<open>descend\<close> is the part after the child's own span: the
  callee's SERVER span and the recursion into the peer, or the recursion below an internal span.
\<close>

definition descend :: "lib \<Rightarrow> (SpanID \<Rightarrow> int \<Rightarrow> int \<Rightarrow> int \<Rightarrow> tstate \<Rightarrow> tstate option) \<Rightarrow> TraceID
    \<Rightarrow> int \<Rightarrow> operation \<Rightarrow> int \<Rightarrow> int \<Rightarrow> int \<Rightarrow> tstate \<Rightarrow> tstate option" where
  "descend L rec tid svcIdx op cStart cDur depth st =
     (let (g, td, remaining) = st; clientSpanID = lastSpanID g
      in if peer op \<ge> 0 \<and> remaining > 0 then do {
           p \<leftarrow> slice_at (services (gcat g)) (peer op);
           let srvOp = serverCounterpart op p;
           let sStart = cStart + scaled cDur (1 / 10);
           let sDur = scaled cDur (85 / 100);
           let remaining = remaining - 1;
           (g, td) \<leftarrow> emitSpan L g td tid clientSpanID p srvOp sStart sDur;
           rec (lastSpanID g) (idx p) sStart sDur (g, td, remaining)
         } else if op_typ op = opInternal \<and> remaining > 0 \<and> depth < 3 then
           rec clientSpanID svcIdx cStart cDur (g, td, remaining)
         else Some (g, td, remaining))"

definition child_step :: "lib \<Rightarrow> (SpanID \<Rightarrow> int \<Rightarrow> int \<Rightarrow> int \<Rightarrow> tstate \<Rightarrow> tstate option) \<Rightarrow> TraceID
    \<Rightarrow> SpanID \<Rightarrow> int \<Rightarrow> service \<Rightarrow> int \<Rightarrow> int \<Rightarrow> int \<Rightarrow> tstate \<Rightarrow> tstate option" where
  "child_step L rec tid parentID svcIdx s pStart pDur depth st = do {
     let (g, td, remaining) = st;
     (op, r) \<leftarrow> pick (childOps s) (rng g);
     let (u, r) = rand_float64 r;
     let offset = child_offset pDur u;
     let cStart = pStart + offset;
     let (d, r) = sampleDur L op r;
     let cDur = clip_dur pDur offset d;
     let remaining = remaining - 1;
     (g, td) \<leftarrow> emitSpan L (g\<lparr>rng := r\<rparr>) td tid parentID s op cStart cDur;
     descend L rec tid svcIdx op cStart cDur depth (g, td, remaining)
   }"

text \<open>\<open>for i := 0; i < nChildren && *remaining > 0; i++\<close>, with \<open>k = nChildren - i\<close>.\<close>

fun child_loop :: "lib \<Rightarrow> (SpanID \<Rightarrow> int \<Rightarrow> int \<Rightarrow> int \<Rightarrow> tstate \<Rightarrow> tstate option) \<Rightarrow> TraceID
    \<Rightarrow> SpanID \<Rightarrow> int \<Rightarrow> service \<Rightarrow> int \<Rightarrow> int \<Rightarrow> int \<Rightarrow> nat \<Rightarrow> tstate \<Rightarrow> tstate option" where
  "child_loop L rec tid parentID svcIdx s pStart pDur depth 0 st = Some st"
| "child_loop L rec tid parentID svcIdx s pStart pDur depth (Suc k) st =
     (if snd (snd st) > 0 then do {
        st \<leftarrow> child_step L rec tid parentID svcIdx s pStart pDur depth st;
        child_loop L rec tid parentID svcIdx s pStart pDur depth k st
      } else Some st)"

function addChildren :: "lib \<Rightarrow> TraceID \<Rightarrow> SpanID \<Rightarrow> int \<Rightarrow> int \<Rightarrow> int \<Rightarrow> tstate \<Rightarrow> int \<Rightarrow> tstate option"
  where
  "addChildren L tid parentID svcIdx pStart pDur st depth =
     (if snd (snd st) \<le> 0 \<or> depth > 6 then Some st
      else do {
        s \<leftarrow> slice_at (services (gcat (fst st))) svcIdx;
        if childOps s = [] then Some st
        else do {
          (n, r) \<leftarrow> rand_intN 3 (rng (fst st));
          child_loop L (\<lambda>p i t d st. addChildren L tid p i t d st (depth + 1)) tid parentID svcIdx s
            pStart pDur depth (nat (1 + n)) ((fst st)\<lparr>rng := r\<rparr>, snd st)
        }
      })"
  by pat_completeness auto
termination
  by (relation "measure (\<lambda>(L, tid, p, i, t, d, st, depth). nat (7 - depth))") auto

declare addChildren.simps [simp del]

definition genTrace :: "lib \<Rightarrow> Generator \<Rightarrow> Traces \<Rightarrow> int \<Rightarrow> (int \<times> Generator \<times> Traces) option" where
  "genTrace L g td budget = do {
     let (tid, r) = fillTraceID (rng g);
     (k, r) \<leftarrow> rand_intN (spansPerTraceMax g - spansPerTraceMin g + 1) r;
     let maxSpans = spansPerTraceMin g + k;
     let maxSpans = (if maxSpans > budget then budget else maxSpans);
     let maxSpans = (if maxSpans < 1 then 1 else maxSpans);
     (root, r) \<leftarrow> pick (services (gcat g)) r;
     (entry, r) \<leftarrow> pick (entryOps root) r;
     (back, r) \<leftarrow> rand_intN 2000 r;
     let start = timeNow L (nowCalls g) - back * 1000000;
     let (dur, r) = sampleDur L entry r;
     let remaining = maxSpans - 1;
     (g, td) \<leftarrow> emitSpan L (g\<lparr>rng := r, nowCalls := nowCalls g + 1\<rparr>) td tid zeroSpanID root entry start dur;
     (g, td, remaining) \<leftarrow> addChildren L tid (lastSpanID g) (idx root) start dur (g, td, remaining) 1;
     Some (maxSpans - remaining, g, td)
   }"

section \<open>The budget only shrinks\<close>

abbreviation remaining_of :: "tstate \<Rightarrow> int" where
  "remaining_of st \<equiv> snd (snd st)"

lemma child_step_le:
  assumes "\<And>p i t d st. oall (rec p i t d st) (\<lambda>st'. remaining_of st' \<le> remaining_of st)"
  shows "oall (child_step L rec tid parentID svcIdx s pStart pDur depth st)
           (\<lambda>st'. remaining_of st' \<le> remaining_of st)"
proof -
  have rec: "oall (rec p i t d (g, td, n)) (\<lambda>st'. remaining_of st' \<le> m)" if "n \<le> m" for p i t d g td n m
    using that by (intro oall_mono [OF assms]) simp
  show ?thesis
    by (auto simp: child_step_def descend_def Let_def oall_bind case_prod_beta intro!: oallI [of "pick _ _"]
        oallI [of "emitSpan _ _ _ _ _ _ _ _ _"] oallI [of "slice_at _ _"] rec)
qed

lemma child_loop_le:
  assumes "\<And>p i t d st. oall (rec p i t d st) (\<lambda>st'. remaining_of st' \<le> remaining_of st)"
  shows "oall (child_loop L rec tid parentID svcIdx s pStart pDur depth k st)
           (\<lambda>st'. remaining_of st' \<le> remaining_of st)"
proof (induction k arbitrary: st)
  case (Suc k)
  have "oall (child_loop L rec tid parentID svcIdx s pStart pDur depth k st')
      (\<lambda>st''. remaining_of st'' \<le> remaining_of st)" if "remaining_of st' \<le> remaining_of st" for st'
    using that by (intro oall_mono [OF Suc.IH]) simp
  then show ?case
    by (auto simp: oall_bind intro!: oall_mono [OF child_step_le [OF assms]])
qed simp

text \<open>The depth cap as an induction rule.\<close>

lemma depth_induct [case_names deeper]:
  assumes "\<And>d :: int. (d \<le> 6 \<Longrightarrow> P (d + 1)) \<Longrightarrow> P d"
  shows "P d"
proof (induction "nat (7 - d)" arbitrary: d rule: less_induct)
  case less
  show ?case by (rule assms) (rule less, simp)
qed

lemma addChildren_le:
  "oall (addChildren L tid parentID svcIdx pStart pDur st depth)
     (\<lambda>st'. remaining_of st' \<le> remaining_of st)"
proof (induction depth arbitrary: parentID svcIdx pStart pDur st rule: depth_induct)
  case (deeper depth)
  show ?case
  proof (cases "remaining_of st \<le> 0 \<or> depth > 6")
    case True
    then show ?thesis by (simp add: addChildren.simps)
  next
    case False
    then have IH: "oall (addChildren L tid p i t d st' (depth + 1))
        (\<lambda>st''. remaining_of st'' \<le> remaining_of st')" for p i t d st'
      using deeper by simp
    show ?thesis
      using False
      by (subst addChildren.simps)
        (auto simp: oall_bind intro!: oallI [of "slice_at _ _"] oallI [of "rand_intN _ _"]
          oall_mono [OF child_loop_le [OF IH]])
  qed
qed

lemma genTrace_pos: "genTrace L g td budget = Some (n, g', td') \<Longrightarrow> 1 \<le> n"
proof -
  have "oall (genTrace L g td budget) (\<lambda>(n, g', td'). 1 \<le> n)"
    unfolding genTrace_def oall_bind Let_def case_prod_beta
    by (intro oallI oall_mono [OF addChildren_le]) (auto split: if_splits)
  then show "genTrace L g td budget = Some (n, g', td') \<Longrightarrow> 1 \<le> n"
    by simp
qed

section \<open>One batch\<close>

text \<open>
  \<open>for count < target { count += g.genTrace(td, target-count) }\<close>. Every trace has at least one
  span, so the loop ends for every generator and every target.
\<close>

function fill_loop :: "lib \<Rightarrow> Generator \<Rightarrow> Traces \<Rightarrow> int \<Rightarrow> int \<Rightarrow> (int \<times> Generator \<times> Traces) option" where
  "fill_loop L g td target cnt =
     (if cnt < target then do {
        (n, g', td') \<leftarrow> genTrace L g td (target - cnt);
        fill_loop L g' td' target (cnt + n)
      } else Some (cnt, g, td))"
  by pat_completeness auto
termination
proof (relation "measure (\<lambda>(L, g, td, target, cnt). nat (target - cnt))", goal_cases)
  case (2 L g td target cnt x n y g' td')
  then show ?case
    using genTrace_pos [of L g td "target - cnt" n g' td'] by simp
qed simp

declare fill_loop.simps [simp del]

definition FillBatch :: "lib \<Rightarrow> Generator \<Rightarrow> Traces \<Rightarrow> int \<Rightarrow> (int \<times> Generator \<times> Traces) option" where
  "FillBatch L g td target = fill_loop L (g\<lparr>scopes := Map.empty\<rparr>) td target 0"

end
