(* ===== verification/GeneratorTiming.thy ===== *)
theory GeneratorTiming
  imports Generator
begin

text \<open>
  The arithmetic of span times: where a child starts inside its parent, how its duration is
  clipped, and where the callee's span lies inside the caller's. Durations are nanoseconds below
  \<open>2^62\<close>, so that no conversion leaves the range of \<open>int64\<close>.
\<close>

lemma of_int_less_2_62: "d < 2 ^ 62 \<Longrightarrow> (of_int d :: rat) < 2 ^ 62"
  by (metis of_int_less_iff of_int_numeral of_int_power)

lemma to_int64_upper:
  assumes "0 \<le> x" and "x \<le> y" and "y < 2 ^ 63"
  shows "0 \<le> to_int64 x \<and> of_int (to_int64 x) \<le> y"
  using to_int64_bounds [of x] assms by force

lemma child_offset_bounds:
  assumes "0 \<le> pDur" and "pDur < 2 ^ 62" and "0 \<le> u" and "u < 1"
  shows "0 \<le> child_offset pDur u"
    and "(of_int (child_offset pDur u) :: rat) \<le> of_int pDur * (7 / 10) * (1 + 1 / 2 ^ 50)"
proof -
  let ?x = "fl (fl (of_int pDur) * fl (7 / 10))" and ?d = "of_int pDur :: rat"
  have d: "0 \<le> ?d" "?d < 2 ^ 62"
    using assms(1,2) of_int_less_2_62 by auto
  have x: "0 \<le> ?x" "?x \<le> ?d * (7 / 10) * (1 + 1 / 2 ^ 51)"
    using d fl_mult_nonneg [of ?d "7 / 10"] fl_mult_upper [of ?d "7 / 10"] by auto
  have "fl (?x * u) \<le> ?x * u * (1 + 1 / 2 ^ 53)"
    using x assms(3) by (intro fl_upper) simp
  also have "\<dots> \<le> ?x * 1 * (1 + 1 / 2 ^ 53)"
    using x assms(4) by (intro mult_right_mono mult_left_mono) auto
  also have "\<dots> \<le> (?d * (7 / 10) * (1 + 1 / 2 ^ 51)) * 1 * (1 + 1 / 2 ^ 53)"
    using x by (intro mult_right_mono) auto
  also have "\<dots> = ?d * (7 / 10) * ((1 + 1 / 2 ^ 51) * (1 + 1 / 2 ^ 53))"
    by (simp only: ac_simps mult_1)
  also have "\<dots> \<le> ?d * (7 / 10) * (1 + 1 / 2 ^ 50)"
    using d by (intro mult_left_mono) auto
  finally have up: "fl (?x * u) \<le> ?d * (7 / 10) * (1 + 1 / 2 ^ 50)" .
  moreover have "0 \<le> fl (?x * u)"
    using x assms(3) by (intro fl_nonneg) simp
  moreover have "?d * (7 / 10) * (1 + 1 / 2 ^ 50) < 2 ^ 63"
    using d by simp
  ultimately show "0 \<le> child_offset pDur u"
    "(of_int (child_offset pDur u) :: rat) \<le> ?d * (7 / 10) * (1 + 1 / 2 ^ 50)"
    using to_int64_upper unfolding child_offset_def by blast+
qed

lemma child_offset_80_percent:
  assumes "0 \<le> pDur" and "pDur < 2 ^ 62" and "0 \<le> u" and "u < 1"
  shows "5 * child_offset pDur u \<le> 4 * pDur"
proof -
  have "(of_int pDur :: rat) * (7 / 10) * (1 + 1 / 2 ^ 50) \<le> of_int pDur * (8 / 10)"
    using assms(1) by simp
  with child_offset_bounds(2) [OF assms]
  have *: "(of_int (child_offset pDur u) :: rat) \<le> of_int pDur * (8 / 10)"
    by (rule order_trans)
  then have "(of_int (5 * child_offset pDur u) :: rat) \<le> of_int (4 * pDur)"
    by simp
  then show ?thesis
    by (simp only: of_int_le_iff)
qed

lemma child_offset_inside:
  assumes "0 \<le> pDur" and "pDur < 2 ^ 62" and "0 \<le> u" and "u < 1"
  shows "child_offset pDur u \<le> pDur" and "0 < pDur \<Longrightarrow> child_offset pDur u < pDur"
  using child_offset_80_percent [OF assms] assms(1) by auto

lemma child_offset_70_percent:
  assumes "0 \<le> pDur" and "pDur < 2 ^ 47" and "0 \<le> u" and "u < 1"
  shows "10 * child_offset pDur u \<le> 7 * pDur"
proof -
  have "pDur < 2 ^ 62"
    using assms(2) by simp
  then have "(of_int (child_offset pDur u) :: rat) \<le> of_int pDur * (7 / 10) * (1 + 1 / 2 ^ 50)"
    using assms by (intro child_offset_bounds(2))
  also have "\<dots> < of_int pDur * (7 / 10) + 1 / 10"
  proof -
    have "(of_int pDur :: rat) < 2 ^ 47"
      using assms(2) by (metis of_int_less_iff of_int_numeral of_int_power)
    then show ?thesis by simp
  qed
  finally have "(of_int (10 * child_offset pDur u) :: rat) < of_int (7 * pDur + 1)"
    by simp
  then show ?thesis
    by (simp only: of_int_less_iff)
qed

lemma clip_dur_bounds:
  assumes "0 \<le> d" and "offset \<le> pDur"
  shows "0 \<le> clip_dur pDur offset d" and "clip_dur pDur offset d \<le> d"
    and "offset < pDur \<Longrightarrow> offset + clip_dur pDur offset d \<le> pDur"
  using assms by (auto simp: clip_dur_def Let_def)

lemma scaled_bounds:
  assumes "0 \<le> d" and "d < 2 ^ 62" and "0 \<le> q" and "q \<le> 1"
  shows "0 \<le> scaled d q" and "(of_int (scaled d q) :: rat) \<le> of_int d * q * (1 + 1 / 2 ^ 51)"
proof -
  let ?d = "of_int d :: rat"
  have d: "0 \<le> ?d" "?d < 2 ^ 62"
    using assms(1,2) of_int_less_2_62 by auto
  have "?d * q * (1 + 1 / 2 ^ 51) \<le> ?d * 1 * (1 + 1 / 2 ^ 51)"
    using d assms(4) by (intro mult_right_mono mult_left_mono) auto
  also have "\<dots> < 2 ^ 63"
    using d by simp
  finally show "0 \<le> scaled d q" "of_int (scaled d q) \<le> ?d * q * (1 + 1 / 2 ^ 51)"
    using to_int64_upper [OF fl_mult_nonneg [OF d(1) assms(3)] fl_mult_upper [OF d(1) assms(3)]]
    unfolding scaled_def by blast+
qed

lemma server_inside:
  assumes "0 \<le> d" and "d < 2 ^ 62"
  shows "0 \<le> scaled d (1 / 10)" and "0 \<le> scaled d (85 / 100)"
    and "scaled d (1 / 10) + scaled d (85 / 100) \<le> d"
proof -
  show a: "0 \<le> scaled d (1 / 10)" "0 \<le> scaled d (85 / 100)"
    using assms by (auto intro!: scaled_bounds(1))
  have "(of_int (scaled d (1 / 10) + scaled d (85 / 100)) :: rat)
      \<le> of_int d * (1 / 10) * (1 + 1 / 2 ^ 51) + of_int d * (85 / 100) * (1 + 1 / 2 ^ 51)"
    unfolding of_int_add using assms by (intro add_mono scaled_bounds(2)) auto
  also have "\<dots> \<le> of_int d"
    using assms(1) by simp
  finally show "scaled d (1 / 10) + scaled d (85 / 100) \<le> d"
    by (simp only: of_int_le_iff)
qed

lemma scaled_lower:
  assumes "0 \<le> d" and "d < 2 ^ 62" and "0 \<le> q" and "q \<le> 1" and "of_int m \<le> of_int d * q * (1 - 1 / 2 ^ 51)"
  shows "m \<le> scaled d q"
proof -
  let ?x = "fl (fl (of_int d) * fl q)"
  have d: "0 \<le> (of_int d :: rat)"
    using assms(1) by simp
  have "of_int (scaled d q) \<le> of_int d * q * (1 + 1 / 2 ^ 51)"
    using assms(1-4) by (rule scaled_bounds(2))
  have "?x \<le> of_int d * q * (1 + 1 / 2 ^ 51)"
    using d assms(3) by (rule fl_mult_upper)
  also have "\<dots> \<le> of_int d * 1 * (1 + 1 / 2 ^ 51)"
    using d assms(4) by (intro mult_right_mono mult_left_mono) auto
  also have "\<dots> < 2 ^ 63"
    using of_int_less_2_62 [OF assms(2)] d by simp
  finally have "?x < 2 ^ 63" .
  moreover have "of_int m \<le> ?x"
    using fl_mult_lower [OF d assms(3)] assms(5) by (rule order_trans [rotated])
  ultimately show ?thesis
    using fl_mult_nonneg [OF d assms(3)] by (simp add: scaled_def to_int64_def Let_def le_floor_iff floor_less_iff)
qed

section \<open>Durations down the tree\<close>

text \<open>
  The least duration of a span below which \<open>addChildren\<close> works at a depth, and of a child of it: a child
  gets at least three tenths of its parent, a callee at least 849 thousandths of the call. So a parent's duration is
  always positive.
\<close>

definition min_dur :: "int \<Rightarrow> int" where
  "min_dur d = (if d \<le> 1 then 1000 else if d = 2 then 254 else if d = 3 then 65 else if d = 4 then 16
     else if d = 5 then 4 else if d = 6 then 1 else 0)"

definition child_min :: "int \<Rightarrow> int" where
  "child_min d = (if d \<le> 1 then 300 else if d = 2 then 77 else if d = 3 then 20 else if d = 4 then 5
     else if d = 5 then 2 else 1)"

lemma min_dur_facts:
  assumes "1 \<le> d" and "d \<le> 6"
  shows "1 \<le> min_dur d" and "3 * min_dur d \<le> 10 * child_min d" and "10 * child_min d < 3 * min_dur d + 10"
    and "child_min d \<le> 1000" and "min_dur (d + 1) \<le> child_min d" and "0 < child_min d"
    and "of_int (min_dur (d + 1)) \<le> of_int (child_min d) * (849 / 1000 :: rat)"
proof -
  consider "d = 1" | "d = 2" | "d = 3" | "d = 4" | "d = 5" | "d = 6"
    using assms by linarith
  then have "1 \<le> min_dur d \<and> 3 * min_dur d \<le> 10 * child_min d \<and> 10 * child_min d < 3 * min_dur d + 10
      \<and> child_min d \<le> 1000 \<and> min_dur (d + 1) \<le> child_min d \<and> 0 < child_min d
      \<and> of_int (min_dur (d + 1)) \<le> of_int (child_min d) * (849 / 1000 :: rat)"
    by cases (simp_all add: min_dur_def child_min_def)
  then show "1 \<le> min_dur d" "3 * min_dur d \<le> 10 * child_min d" "10 * child_min d < 3 * min_dur d + 10"
    "child_min d \<le> 1000" "min_dur (d + 1) \<le> child_min d" "0 < child_min d"
    "of_int (min_dur (d + 1)) \<le> of_int (child_min d) * (849 / 1000 :: rat)"
    by blast+
qed

lemma child_room:
  assumes "1 \<le> d" and "d \<le> 6" and D: "min_dur d \<le> D" "D < 2 ^ 62" and u: "0 \<le> u" "u < 1" and s: "1000 \<le> s"
  defines "off \<equiv> child_offset D u"
  shows "0 \<le> off" and "child_min d \<le> clip_dur D off s" and "clip_dur D off s \<le> s" and "off + clip_dur D off s \<le> D"
proof -
  note m = min_dur_facts [OF assms(1,2)]
  have pos: "0 \<le> D" "0 < D"
    using D(1) m(1) by auto
  show "0 \<le> off"
    unfolding off_def by (rule child_offset_bounds(1) [OF pos(1) D(2) u])
  have lt: "off < D" "off \<le> D"
    unfolding off_def using child_offset_inside [OF pos(1) D(2) u] pos(2) by auto
  then show "clip_dur D off s \<le> s" "off + clip_dur D off s \<le> D"
    using clip_dur_bounds [of s off D] s by auto
  have "child_min d \<le> D - off"
  proof (cases "D < 2 ^ 47")
    case True
    then have "10 * off \<le> 7 * D"
      unfolding off_def by (rule child_offset_70_percent [OF pos(1) _ u])
    with m(3) D(1) show ?thesis by linarith
  next
    case False
    have "5 * off \<le> 4 * D"
      unfolding off_def by (rule child_offset_80_percent [OF pos(1) D(2) u])
    with False m(4) show ?thesis by simp
  qed
  with s m(4) show "child_min d \<le> clip_dur D off s"
    by (auto simp: clip_dur_def Let_def)
qed

lemma callee_room:
  assumes "1 \<le> d" and "d \<le> 6" and "child_min d \<le> c" and "c < 2 ^ 62"
  shows "min_dur (d + 1) \<le> scaled c (85 / 100)"
proof (rule scaled_lower)
  note m = min_dur_facts [OF assms(1,2)]
  show "0 \<le> c"
    using m(6) assms(3) by simp
  have "(of_int (min_dur (d + 1)) :: rat) \<le> of_int (child_min d) * (849 / 1000)"
    by (rule m(7))
  also have "\<dots> \<le> of_int c * (849 / 1000)"
    using assms(3) by simp
  also have "\<dots> \<le> of_int c * (85 / 100) * (1 - 1 / 2 ^ 51)"
    using \<open>0 \<le> c\<close> by simp
  finally show "(of_int (min_dur (d + 1)) :: rat) \<le> of_int c * (85 / 100) * (1 - 1 / 2 ^ 51)" .
qed (use assms(4) in simp_all)

section \<open>The latency model\<close>

text \<open>
  What the latencies need of the two library functions: \<open>math.Exp\<close> is below \<open>2^62\<close> up to 42 (\<open>e^42\<close> is about
  \<open>1.74 * 10^18\<close>), and no deviate exceeds 30. (The ziggurat method of \<open>rand.NormFloat64\<close> gives values up to 3.72 in
  its body and below 14.2 in its tail, unless two draws of \<open>Float64\<close> in a row are 0.)
\<close>

definition latency_ok :: "lib \<Rightarrow> bool" where
  "latency_ok L \<longleftrightarrow> (\<forall>x \<le> 42. mathExp L x < 2 ^ 62) \<and> (\<forall>r. fst (normFloat64 L r) \<le> 30)"

text \<open>An exponential within a factor of two of the real one is in range.\<close>

lemma exp_42: "exp (42 :: real) < 2 ^ 61"
proof -
  have "exp (1 :: real) = exp (1 / 128) ^ 128"
    using exp_of_nat_mult [of 128 "1 / 128 :: real"] by simp
  also have "\<dots> \<le> (16513 / 16384) ^ 128"
    using exp_bound [of "1 / 128"] by (intro power_mono) (simp_all add: power2_eq_square)
  also have "\<dots> \<le> 2729 / 1000"
    by (simp add: power_divide)
  finally have e: "exp (1 :: real) \<le> 2729 / 1000" .
  have "exp (42 :: real) = exp 1 ^ 42"
    using exp_of_nat_mult [of 42 "1 :: real"] by simp
  also have "\<dots> \<le> (2729 / 1000) ^ 42"
    using e by (intro power_mono) simp_all
  also have "\<dots> < 2 ^ 61"
    by (simp add: power_divide)
  finally show ?thesis .
qed

lemma mathExp_in_range:
  assumes "\<And>x. real_of_rat (mathExp L x) \<le> 2 * exp (real_of_rat x)" and "x \<le> 42"
  shows "mathExp L x < 2 ^ 62"
proof -
  have "real_of_rat x \<le> 42"
    using assms(2) by (metis of_rat_less_eq of_rat_numeral_eq)
  then have "exp (real_of_rat x) < 2 ^ 61"
    using exp_42 by (meson exp_le_cancel_iff order_le_less_trans)
  with assms(1) [of x] have "real_of_rat (mathExp L x) < real_of_rat (2 ^ 62)"
    by (simp add: of_rat_power)
  then show ?thesis
    by (simp only: of_rat_less)
qed

lemma exponent_bound:
  assumes "latency_params op" and "z \<le> 30"
  shows "fl (muLog op + fl (sigmaLog op * z)) \<le> 42"
proof -
  let ?m = "muLog op" and ?s = "sigmaLog op"
  have p: "0 \<le> ?m" "0 \<le> ?s" "?m + 30 * ?s \<le> 41"
    using assms(1) by (auto simp: latency_params_def)
  have "?s * z \<le> ?s * 30"
    using p(2) assms(2) by (rule mult_left_mono [rotated])
  have "fl (?s * z) \<le> ?s * 30 + 1 / 2"
  proof (cases "0 \<le> ?s * z")
    case True
    then have "fl (?s * z) \<le> ?s * z * (1 + 1 / 2 ^ 53)"
      by (rule fl_upper)
    also have "\<dots> \<le> ?s * 30 * (1 + 1 / 2 ^ 53)"
      using \<open>?s * z \<le> ?s * 30\<close> by (rule mult_right_mono) simp
    finally show ?thesis
      using p by (simp add: field_simps)
  next
    case False
    then have "fl (?s * z) \<le> 0"
      by (intro fl_nonpos) simp
    with p(2) show ?thesis by simp
  qed
  then have x: "?m + fl (?s * z) \<le> 41 + 1 / 2"
    using p(3) by simp
  show ?thesis
  proof (cases "0 \<le> ?m + fl (?s * z)")
    case True
    from fl_upper [OF this] x show ?thesis by simp
  next
    case False
    then have "fl (?m + fl (?s * z)) \<le> 0"
      by (intro fl_nonpos) simp
    then show ?thesis by simp
  qed
qed

lemma sampleDur_bounds:
  assumes "latency_ok L" and "latency_params op"
  shows "1000 \<le> fst (sampleDur L op r)" and "fst (sampleDur L op r) < 2 ^ 62"
proof -
  have *: "mathExp L (fl (muLog op + fl (sigmaLog op * fst (normFloat64 L r)))) < 2 ^ 62"
    using assms exponent_bound by (auto simp: latency_ok_def)
  have "1000 \<le> to_int64 x \<and> to_int64 x < 2 ^ 62" if "1000 \<le> x" "x < 2 ^ 62" for x
    using that by (auto simp: to_int64_def Let_def le_floor_iff floor_less_iff)
  then show "1000 \<le> fst (sampleDur L op r)" "fst (sampleDur L op r) < 2 ^ 62"
    using * by (auto simp: sampleDur_def Let_def case_prod_beta not_less)
qed

end
