(* ===== verification/GeneratorInv.thy ===== *)
theory GeneratorInv
  imports GeneratorTiming
begin

text \<open>
  The invariants of a batch under construction: \<open>batch_inv\<close> (the references in \<open>g.scopes\<close> are in
  step with the batch), \<open>emits\<close> (what a run of the generator adds to the batch, as the list of the
  spans it emitted in order), and \<open>grows\<close> (every emitted span hangs below an earlier one). The
  result is that no function of the generator panics on a well-formed catalog and what a batch
  looks like afterwards.
\<close>

section \<open>The batch and its references\<close>

definition service_attributes :: "lib \<Rightarrow> Catalog \<Rightarrow> int \<Rightarrow> attributes" where
  "service_attributes L c sv =
     map (\<lambda>(k, v). (k, VStr v)) (rangeOrder L (resourceAttrs (services c ! nat sv)))"

definition entry_for :: "lib \<Rightarrow> Catalog \<Rightarrow> int \<Rightarrow> resource_spans \<Rightarrow> bool" where
  "entry_for L c sv rs \<longleftrightarrow>
     0 \<le> sv \<and> sv < int (length (services c)) \<and> rs_attributes rs = service_attributes L c sv
     \<and> (\<exists>ss. rs_scopes rs = [ss] \<and> scope_name ss = ScopeName c \<and> scope_version ss = ScopeVer c)"

definition batch_inv :: "lib \<Rightarrow> Generator \<Rightarrow> Traces \<Rightarrow> bool" where
  "batch_inv L g td \<longleftrightarrow>
     (\<forall>sv i. scopes g sv = Some i \<longrightarrow> i < length td \<and> entry_for L (gcat g) sv (td ! i))
     \<and> (\<forall>i < length td. \<exists>sv. scopes g sv = Some i)
     \<and> (\<forall>sv sv' i. scopes g sv = Some i \<longrightarrow> scopes g sv' = Some i \<longrightarrow> sv' = sv)"

definition entry_spans :: "resource_spans \<Rightarrow> span list" where
  "entry_spans rs = concat (map spans (rs_scopes rs))"

text \<open>The spans that the batch holds for a service.\<close>

definition svc_spans :: "Generator \<Rightarrow> Traces \<Rightarrow> int \<Rightarrow> span list" where
  "svc_spans g td sv = (case scopes g sv of None \<Rightarrow> [] | Some i \<Rightarrow> entry_spans (td ! i))"

text \<open>A span as it was emitted: with its start, its duration, the index of its service and its operation.\<close>

record emitted =
  em_span :: span
  em_start :: int
  em_dur :: int
  em_svc :: int
  em_op :: operation

definition shown :: "lib \<Rightarrow> emitted \<Rightarrow> bool" where
  "shown L e \<longleftrightarrow> startTimestamp (em_span e) = newTimestamp L (em_start e)
     \<and> endTimestamp (em_span e) = newTimestamp L (em_start e + em_dur e)
     \<and> span_name (em_span e) = op_name (em_op e) \<and> span_kind (em_span e) = op_kind (em_op e)"

definition same_config :: "Generator \<Rightarrow> Generator \<Rightarrow> bool" where
  "same_config g g' \<longleftrightarrow> gcat g' = gcat g \<and> spansPerTraceMin g' = spansPerTraceMin g
     \<and> spansPerTraceMax g' = spansPerTraceMax g \<and> errorRate g' = errorRate g \<and> eventRate g' = eventRate g"

definition adds :: "lib \<Rightarrow> Generator \<Rightarrow> Traces \<Rightarrow> emitted list \<Rightarrow> Generator \<Rightarrow> Traces \<Rightarrow> bool" where
  "adds L g td em g' td' \<longleftrightarrow>
     same_config g g' \<and> batch_inv L g' td'
     \<and> (\<forall>sv. svc_spans g' td' sv = svc_spans g td sv @ map em_span (filter (\<lambda>e. em_svc e = sv) em))
     \<and> mset (all_spans td') = mset (all_spans td) + mset (map em_span em)
     \<and> (\<forall>e \<in> set em. shown L e)"

text \<open>A run opens the entries of the services that it emits spans of, and no other.\<close>

definition emits :: "lib \<Rightarrow> Generator \<Rightarrow> Traces \<Rightarrow> emitted list \<Rightarrow> Generator \<Rightarrow> Traces \<Rightarrow> bool" where
  "emits L g td em g' td' \<longleftrightarrow> adds L g td em g' td' \<and> dom (scopes g') \<subseteq> dom (scopes g) \<union> em_svc ` set em"

lemma adds_refl: "batch_inv L g td \<Longrightarrow> adds L g td [] g td"
  by (simp add: adds_def same_config_def)

lemma adds_trans: "adds L g td a g1 td1 \<Longrightarrow> adds L g1 td1 b g2 td2 \<Longrightarrow> adds L g td (a @ b) g2 td2"
  by (auto simp: adds_def same_config_def)

lemma emits_refl: "batch_inv L g td \<Longrightarrow> emits L g td [] g td"
  by (simp add: emits_def adds_refl)

lemma emits_trans: "emits L g td a g1 td1 \<Longrightarrow> emits L g1 td1 b g2 td2 \<Longrightarrow> emits L g td (a @ b) g2 td2"
  by (simp add: emits_def) (blast intro: adds_trans)

lemma adds_inv: "adds L g td em g' td' \<Longrightarrow> batch_inv L g' td'"
  by (simp add: adds_def)

lemma emits_config: "emits L g td em g' td' \<Longrightarrow> same_config g g'"
  by (simp add: emits_def adds_def)

text \<open>The fields that the invariants do not read.\<close>

lemma frame_simps [simp]:
  "batch_inv L (g\<lparr>rng := r\<rparr>) td = batch_inv L g td"
  "batch_inv L (g\<lparr>lastSpanID := i\<rparr>) td = batch_inv L g td"
  "batch_inv L (g\<lparr>nowCalls := n\<rparr>) td = batch_inv L g td"
  "svc_spans (g\<lparr>rng := r\<rparr>) = svc_spans g"
  "svc_spans (g\<lparr>lastSpanID := i\<rparr>) = svc_spans g"
  "svc_spans (g\<lparr>nowCalls := n\<rparr>) = svc_spans g"
  "emits L (g\<lparr>rng := r\<rparr>) td em g' td' = emits L g td em g' td'"
  "emits L (g\<lparr>nowCalls := n\<rparr>) td em g' td' = emits L g td em g' td'"
  "emits L g td em (g'\<lparr>rng := r\<rparr>) td' = emits L g td em g' td'"
  "emits L g td em (g'\<lparr>lastSpanID := i\<rparr>) td' = emits L g td em g' td'"
  "adds L g td em (g'\<lparr>rng := r\<rparr>) td' = adds L g td em g' td'"
  "adds L g td em (g'\<lparr>lastSpanID := i\<rparr>) td' = adds L g td em g' td'"
  by (simp_all add: batch_inv_def svc_spans_def fun_eq_iff emits_def adds_def same_config_def)

section \<open>\<open>scopeFor\<close> and \<open>append_span\<close>\<close>

lemma all_spans_entries: "all_spans td = concat (map entry_spans td)"
  by (simp add: all_spans_def entry_spans_def [abs_def])

lemma scopeFor_opost:
  assumes inv: "batch_inv L g td" and sv: "0 \<le> sv" "sv < int (length (services (gcat g)))"
  shows "opost (scopeFor L g td sv)
           (\<lambda>(g', td', i). adds L g td [] g' td' \<and> scopes g' sv = Some i
              \<and> dom (scopes g') \<subseteq> insert sv (dom (scopes g)))"
proof (cases "scopes g sv")
  case (Some i)
  with inv show ?thesis by (auto simp: scopeFor_def adds_refl)
next
  case None
  let ?rs = "\<lparr>rs_attributes = service_attributes L (gcat g) sv,
       rs_scopes = [\<lparr>scope_name = ScopeName (gcat g), scope_version = ScopeVer (gcat g),
                     scope_attributes = [], spans = []\<rparr>]\<rparr>"
  let ?g = "g\<lparr>scopes := (scopes g)(sv \<mapsto> length td)\<rparr>" and ?td = "td @ [?rs]"
  have "\<forall>sv' i. scopes g sv' = Some i \<longrightarrow> i < length td"
    using inv by (auto simp: batch_inv_def)
  then have fresh: "scopes g sv' \<noteq> Some (length td)" for sv'
    by blast
  have entry: "entry_for L (gcat g) sv ?rs"
    using sv by (simp add: entry_for_def)
  have "batch_inv L ?g ?td"
    unfolding batch_inv_def
  proof (intro conjI allI impI)
    fix sv' i
    assume "scopes ?g sv' = Some i"
    then show "i < length ?td" "entry_for L (gcat ?g) sv' (?td ! i)"
      using inv entry by (auto simp: batch_inv_def nth_append less_SucI split: if_splits)
  next
    fix i
    assume "i < length ?td"
    then show "\<exists>sv'. scopes ?g sv' = Some i"
      using inv None by (cases "i = length td") (auto simp: batch_inv_def, metis less_SucE option.distinct(1))
  next
    fix sv1 sv2 i
    assume "scopes ?g sv1 = Some i" "scopes ?g sv2 = Some i"
    then show "sv2 = sv1"
      using inv fresh None by (auto simp: batch_inv_def split: if_splits)
  qed
  moreover have "svc_spans ?g ?td sv' = svc_spans g td sv'" for sv'
    using inv None
    by (auto simp: svc_spans_def entry_spans_def batch_inv_def nth_append split: option.splits)
  ultimately have "adds L g td [] ?g ?td"
    by (simp add: adds_def same_config_def all_spans_entries entry_spans_def)
  with None sv show ?thesis
    by (auto simp: scopeFor_def slice_at_def service_attributes_def Let_def)
qed

lemma entry_spans_add_span:
  "rs_scopes rs \<noteq> [] \<Longrightarrow> mset (entry_spans (add_span sp rs)) = add_mset sp (mset (entry_spans rs))"
  by (auto simp: entry_spans_def add_span_def neq_Nil_conv)

lemma all_spans_update:
  "i < length td \<Longrightarrow> mset (entry_spans rs) = add_mset sp (mset (entry_spans (td ! i))) \<Longrightarrow>
     mset (all_spans (td[i := rs])) = add_mset sp (mset (all_spans td))"
proof (induction td arbitrary: i)
  case (Cons x td)
  then show ?case
    by (cases i) (auto simp: all_spans_entries)
qed simp

lemma append_span_adds:
  assumes inv: "batch_inv L g td" and i: "scopes g sv = Some i" and sv: "em_svc e = sv"
    and times: "shown L e"
  shows "adds L g td [e] g (append_span td i (em_span e))"
proof -
  let ?td = "append_span td i (em_span e)"
  have lt: "i < length td" and ent: "entry_for L (gcat g) sv (td ! i)"
    using inv i by (auto simp: batch_inv_def)
  then obtain ss where ss: "rs_scopes (td ! i) = [ss]"
    by (auto simp: entry_for_def)
  have ent': "entry_for L c sv' (add_span sp (td ! i)) = entry_for L c sv' (td ! i)" for c sv' sp
    by (auto simp: entry_for_def add_span_def ss)
  have "batch_inv L g ?td"
    using inv ent' lt by (auto simp: batch_inv_def append_span_def nth_list_update)
  moreover have "svc_spans g ?td sv' = svc_spans g td sv' @ map em_span (filter (\<lambda>e. em_svc e = sv') [e])"
    for sv'
  proof (cases "scopes g sv' = Some i")
    case True
    then have "sv' = sv"
      using inv i by (auto simp: batch_inv_def)
    with i lt sv ss show ?thesis
      by (simp add: svc_spans_def append_span_def entry_spans_def add_span_def)
  next
    case False
    with i sv show ?thesis
      by (auto simp: svc_spans_def append_span_def split: option.splits)
  qed
  moreover have "mset (all_spans ?td) = add_mset (em_span e) (mset (all_spans td))"
    using lt ss by (auto simp: append_span_def intro!: all_spans_update entry_spans_add_span)
  ultimately show ?thesis
    using times by (simp add: adds_def same_config_def)
qed

section \<open>\<open>emitSpan\<close>\<close>

lemma pool_facts [simp]:
  "exceptionTypes \<noteq> []" "infoStages \<noteq> []" "userAgents \<noteq> []"
  "length exceptionTypes = 5" "length infoStages = 5" "length userAgents = 6"
  by (simp_all add: exceptionTypes_def infoStages_def userAgents_def)

lemma length_le_bytes [simp]: "length (le_bytes x) = 8"
  by (simp add: le_bytes_def)

lemma length_fill [simp]:
  "length (fst (fillSpanID r)) = 8" "length (fst (fillTraceID r)) = 16" "length zeroSpanID = 8"
  by (simp_all add: fillSpanID_def fillTraceID_def case_prod_beta zeroSpanID_def)

lemma applyAttributes_returns: "opost (applyAttributes op isErr r) (\<lambda>x. True)"
  by (cases "op_typ op")
    (auto simp: applyAttributes_def opost_bind httpStatusCode_def grpcStatus_def clientIP_def userAgent_def
      intro!: pick_opost rand_intN_opost)

lemma span_outcome_returns: "opost (span_outcome L v isErr start dur r) (\<lambda>x. True)"
  by (auto simp: span_outcome_def exceptionEvent_def infoEvent_def opost_bind case_prod_beta Let_def
      intro!: pick_opost)

lemma make_span_opost:
  "opost (make_span L e v tid parent op start dur r)
     (\<lambda>(sp, r'). traceID sp = tid \<and> length (spanID sp) = 8
        \<and> parentSpanID sp = (if \<not> idIsEmpty L parent then parent else zeroSpanID)
        \<and> span_name sp = op_name op \<and> span_kind sp = op_kind op
        \<and> startTimestamp sp = newTimestamp L start \<and> endTimestamp sp = newTimestamp L (start + dur))"
  unfolding make_span_def Let_def case_prod_beta opost_bind
  by (auto intro!: opost_mono [OF applyAttributes_returns] opost_mono [OF span_outcome_returns])

text \<open>An id that \<open>IsEmpty\<close> rejects is set as it is; the empty one is the field's zero value.\<close>

lemma parent_field:
  assumes "lib_ok L" and "length parent = 8"
  shows "(if \<not> idIsEmpty L parent then parent else zeroSpanID) = parent"
proof (cases "idIsEmpty L parent")
  case True
  then have "\<forall>x \<in> set parent. x = 0"
    using assms(1) by (simp add: lib_ok_def)
  then have "parent = replicate 8 0"
    using assms(2) by (simp add: list_eq_iff_nth_eq)
  with True show ?thesis by (simp add: zeroSpanID_def)
qed simp

lemma emitSpan_opost:
  assumes "lib_ok L" and "batch_inv L g td" and "length parent = 8"
    and "0 \<le> idx s" and "idx s < int (length (services (gcat g)))"
    and P: "\<And>sp g' td'. emits L g td [\<lparr>em_span = sp, em_start = start, em_dur = dur, em_svc = idx s, em_op = op\<rparr>] g' td'
        \<Longrightarrow> lastSpanID g' = spanID sp \<Longrightarrow> length (spanID sp) = 8 \<Longrightarrow> traceID sp = tid
        \<Longrightarrow> parentSpanID sp = parent \<Longrightarrow> span_kind sp = op_kind op
        \<Longrightarrow> startTimestamp sp = newTimestamp L start \<Longrightarrow> endTimestamp sp = newTimestamp L (start + dur)
        \<Longrightarrow> P (g', td')"
  shows "opost (emitSpan L g td tid parent s op start dur) P"
proof -
  let ?em = "\<lambda>sp. \<lparr>em_span = sp, em_start = start, em_dur = dur, em_svc = idx s, em_op = op\<rparr>"
  have add: "emits L g td [?em sp] g1 (append_span td1 i sp)"
    if "adds L g td [] g1 td1" "scopes g1 (idx s) = Some i" "dom (scopes g1) \<subseteq> insert (idx s) (dom (scopes g))"
      "shown L (?em sp)" for g1 td1 i sp
  proof -
    have "adds L g1 td1 [?em sp] g1 (append_span td1 i sp)"
      using append_span_adds [of L g1 td1 "idx s" i "?em sp"] that adds_inv by simp
    with that(1) have "adds L g td ([] @ [?em sp]) g1 (append_span td1 i sp)"
      by (rule adds_trans)
    with that(3) show ?thesis by (simp add: emits_def)
  qed
  have make: "opost (make_span L e v tid parent op start dur r)
      (\<lambda>x. opost (case x of (sp, r) \<Rightarrow> Some (g1\<lparr>rng := r, lastSpanID := spanID sp\<rparr>, append_span td1 i sp)) P)"
    if g1: "adds L g td [] g1 td1" "scopes g1 (idx s) = Some i" "dom (scopes g1) \<subseteq> insert (idx s) (dom (scopes g))"
    for e v r g1 td1 i
  proof (rule opost_mono [OF make_span_opost])
    fix x :: "span \<times> pcg"
    assume x: "case x of (sp, r') \<Rightarrow> traceID sp = tid \<and> length (spanID sp) = 8
        \<and> parentSpanID sp = (if \<not> idIsEmpty L parent then parent else zeroSpanID)
        \<and> span_name sp = op_name op \<and> span_kind sp = op_kind op
        \<and> startTimestamp sp = newTimestamp L start \<and> endTimestamp sp = newTimestamp L (start + dur)"
    obtain sp r' where [simp]: "x = (sp, r')" by fastforce
    have "P (g1\<lparr>rng := r', lastSpanID := spanID sp\<rparr>, append_span td1 i sp)"
      using x add [OF g1] parent_field [OF assms(1,3)] by (intro P [of sp]) (simp_all add: shown_def)
    then show "opost (case x of (sp, r) \<Rightarrow> Some (g1\<lparr>rng := r, lastSpanID := spanID sp\<rparr>, append_span td1 i sp)) P"
      by simp
  qed
  show ?thesis
    unfolding emitSpan_def opost_bind
    by (rule opost_mono [OF scopeFor_opost [OF assms(2,4,5)]]) (auto simp: opost_bind intro!: make)
qed

section \<open>Parents and children\<close>

text \<open>
  How a child hangs below its parent: same trace, the parent's id; a SERVER span hangs below the CLIENT span of a
  call to its service and is the counterpart of that call, and every other child is a child operation of its
  parent's service. With \<open>T\<close> (latencies in range), the child lies within its parent in time.
\<close>

definition child_link :: "bool \<Rightarrow> Catalog \<Rightarrow> emitted \<Rightarrow> emitted \<Rightarrow> bool" where
  "child_link T cat p c \<longleftrightarrow>
     traceID (em_span c) = traceID (em_span p) \<and> parentSpanID (em_span c) = spanID (em_span p)
     \<and> (span_kind (em_span c) = SpanKindServer \<longleftrightarrow> span_kind (em_span p) = SpanKindClient)
     \<and> (if span_kind (em_span c) = SpanKindServer
         then em_op p \<in> set (childOps (services cat ! nat (em_svc p))) \<and> peer (em_op p) = em_svc c
            \<and> em_op c = serverCounterpart (em_op p) (services cat ! nat (em_svc c))
         else em_svc c = em_svc p \<and> em_op c \<in> set (childOps (services cat ! nat (em_svc c))))
     \<and> (T \<longrightarrow> em_start p \<le> em_start c \<and> 0 \<le> em_dur c \<and> em_dur c < 2 ^ 62
            \<and> em_start c + em_dur c \<le> em_start p + em_dur p)"

fun grows :: "bool \<Rightarrow> Catalog \<Rightarrow> emitted set \<Rightarrow> emitted list \<Rightarrow> bool" where
  "grows T c ps [] = True"
| "grows T c ps (e # em) = ((\<exists>p \<in> ps. child_link T c p e) \<and> grows T c (insert e ps) em)"

lemma grows_mono: "grows T c ps em \<Longrightarrow> ps \<subseteq> qs \<Longrightarrow> grows T c qs em"
proof (induction em arbitrary: ps qs)
  case (Cons e em)
  then have "grows T c (insert e qs) em"
    by (meson grows.simps(2) insert_mono)
  with Cons.prems show ?case by auto
qed simp

lemma grows_append: "grows T c ps (a @ b) \<longleftrightarrow> grows T c ps a \<and> grows T c (ps \<union> set a) b"
  by (induction a arbitrary: ps) auto

lemma grows_parent:
  "grows T c ps em \<Longrightarrow> e \<in> set em \<Longrightarrow> \<exists>p \<in> ps \<union> set em. child_link T c p e"
proof (induction em arbitrary: ps)
  case (Cons x em)
  then show ?case
    by (cases "e = x") force+
qed simp

text \<open>
  A run from one recursion state to another, below the spans \<open>ps\<close>: the emitted spans are paid for
  from the budget, which does not go negative.
\<close>

definition ran :: "lib \<Rightarrow> bool \<Rightarrow> Catalog \<Rightarrow> emitted set \<Rightarrow> tstate \<Rightarrow> tstate \<Rightarrow> bool" where
  "ran L T c ps st st' \<longleftrightarrow>
     (\<exists>em. emits L (fst st) (fst (snd st)) em (fst st') (fst (snd st')) \<and> grows T c ps em
         \<and> remaining_of st' = remaining_of st - int (length em)
         \<and> (0 \<le> remaining_of st \<longrightarrow> 0 \<le> remaining_of st'))"

lemma ran_refl: "batch_inv L g td \<Longrightarrow> ran L T c ps (g, td, n) (g, td, n)"
  by (auto simp: ran_def intro!: exI [of _ "[]"] emits_refl)

lemma ran_trans:
  assumes "ran L T c ps st st1" and "ran L T c ps st1 st2"
  shows "ran L T c ps st st2"
proof -
  obtain a b where
    a: "emits L (fst st) (fst (snd st)) a (fst st1) (fst (snd st1))" "grows T c ps a"
      "remaining_of st1 = remaining_of st - int (length a)" "0 \<le> remaining_of st \<longrightarrow> 0 \<le> remaining_of st1"
    and b: "emits L (fst st1) (fst (snd st1)) b (fst st2) (fst (snd st2))" "grows T c ps b"
      "remaining_of st2 = remaining_of st1 - int (length b)" "0 \<le> remaining_of st1 \<longrightarrow> 0 \<le> remaining_of st2"
    using assms by (auto simp: ran_def)
  have "grows T c ps (a @ b)"
    using a(2) b(2) by (auto simp: grows_append elim: grows_mono)
  then show ?thesis
    unfolding ran_def using a b emits_trans [OF a(1) b(1)] by (intro exI [of _ "a @ b"]) auto
qed

text \<open>One emitted span, and then a run below it.\<close>

lemma ran_emit_below:
  assumes em: "emits L g td [e] g1 td1" and p: "p \<in> ps" "child_link T c p e" and n: "0 < n"
    and below: "ran L T c {e} (g1, td1, n - 1) st'"
  shows "ran L T c ps (g, td, n) st'"
proof -
  obtain b where b: "emits L g1 td1 b (fst st') (fst (snd st'))" "grows T c {e} b"
      "remaining_of st' = n - 1 - int (length b)" "0 \<le> remaining_of st'"
    using below n by (auto simp: ran_def)
  have "grows T c ps ([e] @ b)"
    using p b(2) grows_mono [of T c "{e}" b "insert e ps"] by auto
  then show ?thesis
    unfolding ran_def using b emits_trans [OF em b(1)] by (intro exI [of _ "[e] @ b"]) auto
qed

section \<open>\<open>addChildren\<close>\<close>

text \<open>A span below which the generator adds children, as the arguments of \<open>addChildren\<close> name it.\<close>

definition parent_ok :: "bool \<Rightarrow> Catalog \<Rightarrow> TraceID \<Rightarrow> int \<Rightarrow> emitted \<Rightarrow> bool" where
  "parent_ok T c tid depth p \<longleftrightarrow>
     traceID (em_span p) = tid \<and> length (spanID (em_span p)) = 8 \<and> span_kind (em_span p) \<noteq> SpanKindClient
     \<and> 0 \<le> em_svc p \<and> em_svc p < int (length (services c))
     \<and> (T \<longrightarrow> min_dur depth \<le> em_dur p \<and> em_dur p < 2 ^ 62)"

definition state_ok :: "lib \<Rightarrow> Catalog \<Rightarrow> tstate \<Rightarrow> bool" where
  "state_ok L c st \<longleftrightarrow> gcat (fst st) = c \<and> batch_inv L (fst st) (fst (snd st))"

lemma state_ok_emits: "emits L g td em g' td' \<Longrightarrow> gcat g = c \<Longrightarrow> state_ok L c (g', td', n)"
  by (auto simp: state_ok_def emits_def adds_def same_config_def)

lemma ran_state_ok: "state_ok L c st \<Longrightarrow> ran L T c ps st st' \<Longrightarrow> state_ok L c st'"
  by (auto simp: state_ok_def ran_def emits_def adds_def same_config_def)

lemma catalog_service:
  assumes "catalog_ok c" and "0 \<le> sv" and "sv < int (length (services c))"
  shows "service_ok (int (length (services c))) (nat sv) (services c ! nat sv)"
    and "idx (services c ! nat sv) = sv" and "services c ! nat sv \<in> set (services c)"
proof -
  have lt: "nat sv < length (services c)"
    using assms(2,3) by (simp add: nat_less_iff)
  with assms(1) show ok: "service_ok (int (length (services c))) (nat sv) (services c ! nat sv)"
    unfolding catalog_ok_def by blast
  from ok assms(2) show "idx (services c ! nat sv) = sv"
    by (simp add: service_ok_def base_ok_def)
  from lt show "services c ! nat sv \<in> set (services c)"
    by (rule nth_mem)
qed

lemma catalog_entry:
  assumes "catalog_ok c" and "s \<in> set (services c)" and "op \<in> set (entryOps s)"
  shows "entry_ok op"
proof -
  obtain i where "i < length (services c)" "services c ! i = s"
    using assms(2) by (auto simp: in_set_conv_nth)
  with assms(1,3) show ?thesis
    by (auto simp: catalog_ok_def service_ok_def base_ok_def)
qed

text \<open>What the recursive call delivers for parents of a depth, as a hypothesis of the loop's lemmas.\<close>

definition rec_ok :: "lib \<Rightarrow> bool \<Rightarrow> Catalog \<Rightarrow> TraceID \<Rightarrow> int
    \<Rightarrow> (SpanID \<Rightarrow> int \<Rightarrow> int \<Rightarrow> int \<Rightarrow> tstate \<Rightarrow> tstate option) \<Rightarrow> bool" where
  "rec_ok L T c tid depth rec \<longleftrightarrow>
     (\<forall>p st. parent_ok T c tid depth p \<longrightarrow> state_ok L c st \<longrightarrow>
        opost (rec (spanID (em_span p)) (em_svc p) (em_start p) (em_dur p) st) (ran L T c {p} st))"

lemma serverCounterpart_kind: "op_kind (serverCounterpart op p) = SpanKindServer"
  by (simp add: serverCounterpart_def)

lemma descend_opost:
  assumes L: "lib_ok L" and c: "catalog_ok c" and rec: "rec_ok L T c tid (depth + 1) rec"
    and depth: "1 \<le> depth" "depth \<le> 6" and st: "state_ok L c (g, td, n)" and n: "0 \<le> n"
    and e: "traceID (em_span e) = tid" "length (spanID (em_span e)) = 8" "lastSpanID g = spanID (em_span e)"
      "span_kind (em_span e) = op_kind op" "0 \<le> em_svc e" "em_svc e < int (length (services c))"
      "T \<Longrightarrow> child_min depth \<le> em_dur e \<and> em_dur e < 2 ^ 62" "em_op e = op"
    and mem: "op \<in> set (childOps (services c ! nat (em_svc e)))"
  shows "opost (descend L rec tid (em_svc e) op (em_start e) (em_dur e) depth (g, td, n)) (ran L T c {e} (g, td, n))"
proof -
  have g: "gcat g = c" "batch_inv L g td"
    using st by (auto simp: state_ok_def)
  have op: "child_ok (int (length (services c))) (em_svc e) op"
    using catalog_service(1) [OF c e(5,6)] mem e(5) by (simp add: service_ok_def)
  note m = min_dur_facts [OF depth]
  have dur: "0 \<le> em_dur e \<and> em_dur e < 2 ^ 62 \<and> min_dur (depth + 1) \<le> scaled (em_dur e) (85 / 100)
      \<and> min_dur (depth + 1) \<le> em_dur e" if T
    using e(7) [OF that] callee_room [OF depth, of "em_dur e"] m(5,6) by auto
  consider (remote) "0 \<le> peer op" "0 < n" | (intern) "\<not> (0 \<le> peer op \<and> 0 < n)" "op_typ op = opInternal" "0 < n" "depth < 3"
    | (stop) "\<not> (0 \<le> peer op \<and> 0 < n)" "\<not> (op_typ op = opInternal \<and> 0 < n \<and> depth < 3)"
    by blast
  then show ?thesis
  proof cases
    case remote
    let ?p = "services c ! nat (peer op)"
    have kind: "op_kind op = SpanKindClient" and up: "em_svc e < peer op" "peer op < int (length (services c))"
      using op remote(1) by (auto simp: child_ok_def)
    have p: "slice_at (services c) (peer op) = Some ?p" "idx ?p = peer op"
      using remote(1) up(2) catalog_service(2) [OF c] by (auto intro: slice_at_SomeI)
    have "opost (emitSpan L g td tid (lastSpanID g) ?p (serverCounterpart op ?p)
          (em_start e + scaled (em_dur e) (1 / 10)) (scaled (em_dur e) (85 / 100)))
        (\<lambda>x. opost (case x of (g, td) \<Rightarrow>
            rec (lastSpanID g) (idx ?p) (em_start e + scaled (em_dur e) (1 / 10))
              (scaled (em_dur e) (85 / 100)) (g, td, n - 1)) (ran L T c {e} (g, td, n)))"
    proof (rule emitSpan_opost [OF L g(2)], goal_cases)
      case (4 sp g1 td1)
      define e2 where "e2 = \<lparr>em_span = sp, em_start = em_start e + scaled (em_dur e) (1 / 10),
          em_dur = scaled (em_dur e) (85 / 100), em_svc = idx ?p, em_op = serverCounterpart op ?p\<rparr>"
      have em: "emits L g td [e2] g1 td1"
        using 4 by (simp add: e2_def)
      have link: "child_link T c e e2"
        using 4 e(1,3,4,8) kind up p mem dur server_inside [of "em_dur e"]
        by (auto simp: child_link_def e2_def serverCounterpart_kind)
      have "parent_ok T c tid (depth + 1) e2"
        using 4 p up remote(1) dur server_inside [of "em_dur e"]
        by (auto simp: parent_ok_def e2_def serverCounterpart_kind)
      then have "opost (rec (spanID sp) (idx ?p) (em_start e2) (em_dur e2) (g1, td1, n - 1))
          (ran L T c {e2} (g1, td1, n - 1))"
        using rec state_ok_emits [OF em g(1)] unfolding rec_ok_def by (force simp: e2_def)
      then show ?case
        using 4 remote(2)
        by (auto simp: e2_def elim!: opost_mono intro!: ran_emit_below [OF em _ link])
    qed (use e p up remote(1) g in auto)
    then show ?thesis
      using remote p by (simp add: descend_def Let_def g(1) opost_bind)
  next
    case intern
    have "op_kind op = SpanKindInternal"
      using op intern(2) by (auto simp: child_ok_def)
    then have "parent_ok T c tid (depth + 1) e"
      using e dur by (auto simp: parent_ok_def)
    then show ?thesis
      using rec st intern e(3) by (auto simp: rec_ok_def descend_def)
  next
    case stop
    then show ?thesis
      using g(2) by (auto simp: descend_def ran_refl)
  qed
qed

lemma child_step_opost:
  assumes L: "lib_ok L" and c: "catalog_ok c" and T: "T \<Longrightarrow> latency_ok L" and rec: "rec_ok L T c tid (depth + 1) rec"
    and depth: "1 \<le> depth" "depth \<le> 6" and p: "parent_ok T c tid depth p" and st: "state_ok L c (g, td, n)" and n: "0 < n"
  shows "opost (child_step L rec tid (spanID (em_span p)) (em_svc p) (services c ! nat (em_svc p))
             (em_start p) (em_dur p) depth (g, td, n)) (ran L T c {p} (g, td, n))"
proof -
  let ?s = "services c ! nat (em_svc p)"
  have g: "gcat g = c" "batch_inv L g td"
    using st by (auto simp: state_ok_def)
  have sv: "0 \<le> em_svc p" "em_svc p < int (length (services c))"
    using p by (auto simp: parent_ok_def)
  note s = catalog_service [OF c sv]
  have step: "opost (emitSpan L (g\<lparr>rng := r\<rparr>) td tid (spanID (em_span p)) ?s op (em_start p + off) dur)
      (\<lambda>x. opost (case x of (g, td) \<Rightarrow>
          descend L rec tid (em_svc p) op (em_start p + off) dur depth (g, td, n - 1)) (ran L T c {p} (g, td, n)))"
    if op: "child_ok (int (length (services c))) (em_svc p) op" "op \<in> set (childOps ?s)"
      and times: "T \<Longrightarrow> 0 \<le> off \<and> child_min depth \<le> dur \<and> dur < 2 ^ 62 \<and> off + dur \<le> em_dur p"
    for op off dur r
  proof (rule emitSpan_opost [OF L], goal_cases)
    case (5 sp g1 td1)
    define e where "e = \<lparr>em_span = sp, em_start = em_start p + off, em_dur = dur, em_svc = idx ?s, em_op = op\<rparr>"
    have em: "emits L g td [e] g1 td1"
      using 5 by (simp add: e_def)
    have "op_kind op \<noteq> SpanKindServer"
      using op by (auto simp: child_ok_def)
    then have link: "child_link T c p e"
      using 5 p s op(2) times min_dur_facts(6) [OF depth] by (auto simp: child_link_def e_def parent_ok_def)
    have "opost (descend L rec tid (em_svc e) op (em_start e) (em_dur e) depth (g1, td1, n - 1))
        (ran L T c {e} (g1, td1, n - 1))"
      using 5 s sv op times n state_ok_emits [OF em g(1)]
      by (intro descend_opost [OF L c rec depth]) (auto simp: e_def)
    then show ?case
      using s n by (auto simp: e_def elim!: opost_mono intro!: ran_emit_below [OF em _ link])
  qed (use g p sv s in \<open>auto simp: parent_ok_def\<close>)
  have ops: "childOps ?s \<noteq> []" "length (childOps ?s) < 2 ^ 63"
      "\<And>op. op \<in> set (childOps ?s) \<Longrightarrow> child_ok (int (length (services c))) (em_svc p) op"
    using s(1) sv by (auto simp: service_ok_def)
  show ?thesis
    unfolding child_step_def Let_def prod.case opost_bind
  proof (rule pick_opost [OF ops(1,2)])
    fix op r
    assume op: "op \<in> set (childOps ?s)"
    let ?u = "fst (rand_float64 r)" and ?d = "fst (sampleDur L op (snd (rand_float64 r)))"
    let ?off = "child_offset (em_dur p) ?u"
    have "0 \<le> ?off \<and> child_min depth \<le> clip_dur (em_dur p) ?off ?d \<and> clip_dur (em_dur p) ?off ?d < 2 ^ 62
        \<and> ?off + clip_dur (em_dur p) ?off ?d \<le> em_dur p" if T
    proof -
      have "latency_params op"
        using ops(3) [OF op] by (simp add: child_ok_def)
      then have d: "1000 \<le> ?d" "?d < 2 ^ 62"
        using sampleDur_bounds [OF assms(3) [OF that]] by auto
      have "min_dur depth \<le> em_dur p" "em_dur p < 2 ^ 62"
        using p that by (auto simp: parent_ok_def)
      from child_room [OF depth this rand_float64_range [of r] d(1)] d(2) show ?thesis by simp
    qed
    from step [OF ops(3) [OF op] op this]
    show "opost (case (op, r) of (op, r) \<Rightarrow> case rand_float64 r of (u, r) \<Rightarrow>
        case sampleDur L op r of (d, r) \<Rightarrow>
          Option.bind (emitSpan L (g\<lparr>rng := r\<rparr>) td tid (spanID (em_span p)) ?s op
              (em_start p + child_offset (em_dur p) u) (clip_dur (em_dur p) (child_offset (em_dur p) u) d))
            (\<lambda>(g, td). descend L rec tid (em_svc p) op (em_start p + child_offset (em_dur p) u)
              (clip_dur (em_dur p) (child_offset (em_dur p) u) d) depth (g, td, n - 1)))
      (ran L T c {p} (g, td, n))"
      by (simp add: case_prod_beta opost_bind)
  qed
qed

lemma child_loop_opost:
  assumes L: "lib_ok L" and c: "catalog_ok c" and T: "T \<Longrightarrow> latency_ok L" and rec: "rec_ok L T c tid (depth + 1) rec"
    and depth: "1 \<le> depth" "depth \<le> 6" and p: "parent_ok T c tid depth p" and st: "state_ok L c st"
  shows "opost (child_loop L rec tid (spanID (em_span p)) (em_svc p) (services c ! nat (em_svc p))
             (em_start p) (em_dur p) depth k st) (ran L T c {p} st)"
  using st
proof (induction k arbitrary: st)
  case 0
  then show ?case
    by (cases st) (simp add: state_ok_def ran_refl)
next
  case (Suc k)
  obtain g td n where [simp]: "st = (g, td, n)" by (cases st)
  show ?case
  proof (cases "0 < n")
    case True
    with Suc.prems have "opost (child_step L rec tid (spanID (em_span p)) (em_svc p)
        (services c ! nat (em_svc p)) (em_start p) (em_dur p) depth st) (ran L T c {p} st)"
      by (auto intro: child_step_opost [OF L c T rec depth p])
    then have "opost (child_step L rec tid (spanID (em_span p)) (em_svc p)
        (services c ! nat (em_svc p)) (em_start p) (em_dur p) depth st)
      (\<lambda>st1. opost (child_loop L rec tid (spanID (em_span p)) (em_svc p)
        (services c ! nat (em_svc p)) (em_start p) (em_dur p) depth k st1) (ran L T c {p} st))"
    proof (rule opost_mono)
      fix st1
      assume r: "ran L T c {p} st st1"
      from Suc.IH [OF ran_state_ok [OF Suc.prems r]]
      show "opost (child_loop L rec tid (spanID (em_span p)) (em_svc p)
        (services c ! nat (em_svc p)) (em_start p) (em_dur p) depth k st1) (ran L T c {p} st)"
        by (rule opost_mono) (rule ran_trans [OF r])
    qed
    with True show ?thesis by (simp add: opost_bind)
  next
    case False
    with Suc.prems show ?thesis by (simp add: state_ok_def ran_refl)
  qed
qed

lemma ran_rng: "ran L T c ps (g\<lparr>rng := r\<rparr>, x) = ran L T c ps (g, x)"
  by (simp add: ran_def fun_eq_iff)

lemma state_ok_rng: "state_ok L c (g\<lparr>rng := r\<rparr>, x) = state_ok L c (g, x)"
  by (simp add: state_ok_def)

lemma addChildren_opost:
  assumes L: "lib_ok L" and c: "catalog_ok c" and T: "T \<Longrightarrow> latency_ok L"
    and depth: "1 \<le> depth" and p: "parent_ok T c tid depth p" and st: "state_ok L c st"
  shows "opost (addChildren L tid (spanID (em_span p)) (em_svc p) (em_start p) (em_dur p) st depth)
           (ran L T c {p} st)"
  using depth p st
proof (induction depth arbitrary: p st rule: depth_induct)
  case (deeper depth)
  obtain g td n where [simp]: "st = (g, td, n)" by (cases st)
  have g: "gcat g = c" "batch_inv L g td"
    using deeper.prems(3) by (auto simp: state_ok_def)
  have sv: "0 \<le> em_svc p" "em_svc p < int (length (services c))"
    using deeper.prems(2) by (auto simp: parent_ok_def)
  show ?case
  proof (cases "n \<le> 0 \<or> depth > 6")
    case True
    then show ?thesis
      using g(2) by (auto simp: addChildren.simps ran_refl)
  next
    case False
    then have rec: "rec_ok L T c tid (depth + 1) (\<lambda>p i t d st. addChildren L tid p i t d st (depth + 1))"
      using deeper.IH deeper.prems(1) by (auto simp: rec_ok_def)
    have loop: "opost (child_loop L (\<lambda>p i t d st. addChildren L tid p i t d st (depth + 1)) tid
        (spanID (em_span p)) (em_svc p) (services c ! nat (em_svc p)) (em_start p) (em_dur p) depth k
        (g\<lparr>rng := r\<rparr>, td, n)) (ran L T c {p} (g, td, n))" for k r
      using child_loop_opost [OF L c T rec deeper.prems(1) _ deeper.prems(2), of "(g\<lparr>rng := r\<rparr>, td, n)" k]
        deeper.prems(3) False by (simp add: state_ok_rng ran_rng)
    show ?thesis
      using False g(2) sv
      by (subst addChildren.simps)
        (auto simp: g(1) slice_at_SomeI opost_bind ran_refl intro!: rand_intN_opost loop)
  qed
qed

section \<open>\<open>genTrace\<close>\<close>

text \<open>What the configuration must give: the checks of \<open>Config.validate\<close>, on \<open>int\<close> values.\<close>

definition gen_ok :: "lib \<Rightarrow> Generator \<Rightarrow> bool" where
  "gen_ok L g \<longleftrightarrow> lib_ok L \<and> catalog_ok (gcat g) \<and> services (gcat g) \<noteq> []
     \<and> length (services (gcat g)) < 2 ^ 63
     \<and> 1 \<le> spansPerTraceMin g \<and> spansPerTraceMin g \<le> spansPerTraceMax g \<and> spansPerTraceMax g < 2 ^ 63"

text \<open>
  A trace as the list of its spans in the order of emission: a root without parent, of an entry
  operation, and below it every span under an earlier one.
\<close>

fun trace_ok :: "bool \<Rightarrow> Catalog \<Rightarrow> emitted list \<Rightarrow> bool" where
  "trace_ok T c [] = False"
| "trace_ok T c (rt # em) =
     (parentSpanID (em_span rt) = zeroSpanID
      \<and> em_op rt \<in> set (entryOps (services c ! nat (em_svc rt)))
      \<and> span_kind (em_span rt) \<in> {SpanKindServer, SpanKindConsumer}
      \<and> (T \<longrightarrow> 1000 \<le> em_dur rt \<and> em_dur rt < 2 ^ 62) \<and> grows T c {rt} em)"

lemma trace_ok_parent:
  "trace_ok T c em \<Longrightarrow> e \<in> set em \<Longrightarrow>
     e = hd em \<and> parentSpanID (em_span e) = zeroSpanID \<and> em_op e \<in> set (entryOps (services c ! nat (em_svc e)))
     \<or> (\<exists>p \<in> set em. child_link T c p e)"
  by (cases em) (auto dest: grows_parent)

definition traced :: "lib \<Rightarrow> bool \<Rightarrow> int \<Rightarrow> Generator \<Rightarrow> Traces \<Rightarrow> int \<times> Generator \<times> Traces \<Rightarrow> bool" where
  "traced L T budget g td = (\<lambda>(n, g', td').
     \<exists>em. emits L g td em g' td' \<and> trace_ok T (gcat g) em \<and> n = int (length em)
          \<and> n \<le> max 1 (min budget (spansPerTraceMax g)))"

lemma gen_ok_config: "same_config g g' \<Longrightarrow> gen_ok L g' = gen_ok L g"
  by (simp add: gen_ok_def same_config_def)

lemma entry_op_kind: "entry_ok op \<Longrightarrow> op_kind op \<in> {SpanKindServer, SpanKindConsumer}"
  by (auto simp: entry_ok_def)

lemma genTrace_opost:
  assumes ok: "gen_ok L g" and T: "T \<Longrightarrow> latency_ok L" and inv: "batch_inv L g td"
  shows "opost (genTrace L g td budget) (traced L T budget g td)"
proof -
  note facts = ok [unfolded gen_ok_def]
  let ?c = "gcat g" and ?tid = "fst (fillTraceID (rng g))"
  have root: "opost (emitSpan L (g\<lparr>rng := r, nowCalls := nowCalls g + 1\<rparr>) td ?tid zeroSpanID s op start dur)
      (\<lambda>x. opost (addChildren L ?tid (lastSpanID (fst x)) (idx s) start dur (fst x, snd x, m - 1) 1)
          (\<lambda>st. traced L T budget g td (m - remaining_of st, fst st, fst (snd st))))"
    if s: "s \<in> set (services ?c)" and op: "op \<in> set (entryOps s)"
      and m: "1 \<le> m" "m \<le> max 1 (min budget (spansPerTraceMax g))"
      and dur: "T \<Longrightarrow> 1000 \<le> dur \<and> dur < 2 ^ 62"
    for r s op start dur m
  proof -
    from s obtain i where i: "i < length (services ?c)" "services ?c ! i = s"
      by (auto simp: in_set_conv_nth)
    then have sok: "service_ok (int (length (services ?c))) i s" "idx s = int i"
      using facts by (auto simp: catalog_ok_def service_ok_def base_ok_def)
    show ?thesis
    proof (rule emitSpan_opost, goal_cases)
      case (6 sp g1 td1)
      define e where "e = \<lparr>em_span = sp, em_start = start, em_dur = dur, em_svc = idx s, em_op = op\<rparr>"
      have em: "emits L g td [e] g1 td1"
        using 6 by (simp add: e_def)
      have kind: "span_kind sp \<in> {SpanKindServer, SpanKindConsumer}"
        using 6 op sok entry_op_kind by (auto simp: service_ok_def base_ok_def)
      have "parent_ok T ?c ?tid 1 e"
        using 6 kind i sok(2) dur by (auto simp: parent_ok_def e_def min_dur_def)
      then have "opost (addChildren L ?tid (spanID sp) (idx s) start dur (g1, td1, m - 1) 1)
          (ran L T ?c {e} (g1, td1, m - 1))"
        using addChildren_opost [of L ?c T 1 ?tid e "(g1, td1, m - 1)"] facts T
          state_ok_emits [OF em refl] by (simp add: e_def)
      then have "opost (addChildren L ?tid (spanID sp) (idx s) start dur (g1, td1, m - 1) 1)
          (\<lambda>st. traced L T budget g td (m - remaining_of st, fst st, fst (snd st)))"
      proof (rule opost_mono)
        fix st
        assume "ran L T ?c {e} (g1, td1, m - 1) st"
        then obtain b where b: "emits L g1 td1 b (fst st) (fst (snd st))" "grows T ?c {e} b"
            "remaining_of st = m - 1 - int (length b)" "0 \<le> remaining_of st"
          using m(1) by (auto simp: ran_def)
        have "trace_ok T ?c ([e] @ b)"
          using b(2) kind 6 dur i sok(2) op by (simp add: e_def)
        with b m(2) emits_trans [OF em b(1)]
        show "traced L T budget g td (m - remaining_of st, fst st, fst (snd st))"
          unfolding traced_def by (auto intro!: exI [of _ "[e] @ b"])
      qed
      then show ?case
        using 6 by simp
    qed (use facts inv i sok in auto)
  qed
  have range: "0 < spansPerTraceMax g - spansPerTraceMin g + 1" "spansPerTraceMax g - spansPerTraceMin g + 1 < 2 ^ 64"
    using facts by auto
  have short: "xs \<noteq> [] \<and> length xs < 2 ^ 63" if "xs = entryOps s" "s \<in> set (services ?c)" for xs s
    using that facts by (auto simp: in_set_conv_nth catalog_ok_def service_ok_def base_ok_def)
  have dur: "T \<Longrightarrow> 1000 \<le> fst (sampleDur L op r) \<and> fst (sampleDur L op r) < 2 ^ 62"
    if "s \<in> set (services ?c)" "op \<in> set (entryOps s)" for s op r
  proof -
    have "latency_params op"
      using that facts catalog_entry [of ?c s op] by (simp add: entry_ok_def)
    then show "T \<Longrightarrow> 1000 \<le> fst (sampleDur L op r) \<and> fst (sampleDur L op r) < 2 ^ 62"
      using sampleDur_bounds [OF T] by blast
  qed
  show ?thesis
    unfolding genTrace_def Let_def case_prod_beta [of _ "fillTraceID _"] opost_bind
  proof (rule rand_intN_opost [OF range], unfold prod.case opost_bind,
      rule pick_opost, goal_cases)
    case (3 k r s r1)
    show ?case
      unfolding prod.case opost_bind
    proof (rule pick_opost, goal_cases)
      case (3 op r2)
      note op = this
      show ?case
        unfolding prod.case opost_bind
      proof (rule rand_intN_opost, goal_cases)
        case (3 ago r3)
        show ?case
          unfolding case_prod_beta opost_bind opost_simps fst_conv snd_conv
          by (rule root [OF \<open>s \<in> _\<close> op]) (use \<open>0 \<le> k\<close> \<open>k < _\<close> facts dur [OF \<open>s \<in> _\<close> op] in auto)
      qed simp_all
    qed (use short [OF refl \<open>s \<in> _\<close>] in auto)
  qed (use facts in auto)
qed

section \<open>\<open>FillBatch\<close>\<close>

definition filled :: "lib \<Rightarrow> bool \<Rightarrow> int \<Rightarrow> int \<Rightarrow> Generator \<Rightarrow> Traces \<Rightarrow> int \<times> Generator \<times> Traces \<Rightarrow> bool" where
  "filled L T target cnt g td = (\<lambda>(n, g', td').
     \<exists>ems. emits L g td (concat ems) g' td' \<and> n = max cnt target \<and> n = cnt + int (length (concat ems))
        \<and> (\<forall>em \<in> set ems. trace_ok T (gcat g) em \<and> int (length em) \<le> spansPerTraceMax g))"

lemma fill_loop_opost:
  assumes "gen_ok L g" and "T \<Longrightarrow> latency_ok L" and "batch_inv L g td"
  shows "opost (fill_loop L g td target cnt) (filled L T target cnt g td)"
  using assms
proof (induction L g td target cnt rule: fill_loop.induct)
  case (1 L g td target cnt)
  show ?case
  proof (cases "cnt < target")
    case False
    with 1(4) show ?thesis
      by (subst fill_loop.simps) (auto simp: filled_def emits_refl intro!: exI [of _ "[]"])
  next
    case True
    have "opost (genTrace L g td (target - cnt))
        (\<lambda>x. opost (case x of (n, g', td') \<Rightarrow> fill_loop L g' td' target (cnt + n)) (filled L T target cnt g td))"
    proof (rule opost_mono [OF genTrace_opost [OF 1(2-4)]])
      fix x
      assume x: "genTrace L g td (target - cnt) = Some x" "traced L T (target - cnt) g td x"
      obtain n g1 td1 where [simp]: "x = (n, g1, td1)" by (cases x)
      from x(2) obtain em where em: "emits L g td em g1 td1" "trace_ok T (gcat g) em" "n = int (length em)"
          "n \<le> max 1 (min (target - cnt) (spansPerTraceMax g))"
        by (auto simp: traced_def)
      have cfg: "same_config g g1" "gcat g1 = gcat g" "spansPerTraceMax g1 = spansPerTraceMax g"
        using em(1) by (auto simp: emits_def adds_def same_config_def)
      have "1 \<le> spansPerTraceMax g"
        using 1(2) by (simp add: gen_ok_def)
      then have n: "n \<le> target - cnt" "n \<le> spansPerTraceMax g"
        using em(4) True by auto
      have "opost (fill_loop L g1 td1 target (cnt + n)) (filled L T target (cnt + n) g1 td1)"
        using gen_ok_config [OF cfg(1)] 1(2,3) cfg(2) adds_inv [OF em(1) [unfolded emits_def, THEN conjunct1]]
        by (intro 1(1) [OF True x(1) \<open>x = _\<close> [symmetric] refl]) auto
      then show "opost (case x of (n, g', td') \<Rightarrow> fill_loop L g' td' target (cnt + n)) (filled L T target cnt g td)"
        unfolding \<open>x = _\<close> prod.case
      proof (rule opost_mono)
        fix y
        assume "filled L T target (cnt + n) g1 td1 y"
        then obtain m g2 td2 ems where y: "y = (m, g2, td2)" "emits L g1 td1 (concat ems) g2 td2"
            "m = max (cnt + n) target" "m = cnt + n + int (length (concat ems))"
            "\<forall>em \<in> set ems. trace_ok T (gcat g) em \<and> int (length em) \<le> spansPerTraceMax g"
          using cfg(2,3) by (auto simp: filled_def)
        with em(2,3) n emits_trans [OF em(1) y(2)] True show "filled L T target cnt g td y"
          unfolding filled_def by (auto intro!: exI [of _ "em # ems"])
      qed
    qed
    with True show ?thesis
      by (subst fill_loop.simps) (simp add: opost_bind)
  qed
qed

lemma batch_inv_fresh: "batch_inv L (g\<lparr>scopes := Map.empty\<rparr>) []"
  by (simp add: batch_inv_def)

lemma scopes_fresh [simp]:
  "gen_ok L (g\<lparr>scopes := s\<rparr>) = gen_ok L g" "svc_spans (g\<lparr>scopes := Map.empty\<rparr>) td sv = []"
  by (simp_all add: gen_ok_def svc_spans_def)

lemma FillBatch_opost:
  assumes "gen_ok L g" and "T \<Longrightarrow> latency_ok L"
  shows "opost (FillBatch L g [] target) (filled L T target 0 (g\<lparr>scopes := Map.empty\<rparr>) [])"
  using assms unfolding FillBatch_def by (intro fill_loop_opost) (simp_all add: batch_inv_fresh)

lemma FillBatch_result:
  assumes "gen_ok L g" and "T \<Longrightarrow> latency_ok L"
  obtains g' td ems where "FillBatch L g [] target = Some (max 0 target, g', td)"
    and "emits L (g\<lparr>scopes := Map.empty\<rparr>) [] (concat ems) g' td"
    and "int (length (concat ems)) = max 0 target" and "gcat g' = gcat g"
    and "mset (all_spans td) = mset (map em_span (concat ems))"
    and "\<And>em. em \<in> set ems \<Longrightarrow> trace_ok T (gcat g) em \<and> int (length em) \<le> spansPerTraceMax g"
proof -
  have "opost (FillBatch L g [] target) (filled L T target 0 (g\<lparr>scopes := Map.empty\<rparr>) [])"
    using assms by (rule FillBatch_opost)
  then obtain g' td ems where
    "FillBatch L g [] target = Some (max 0 target, g', td)"
    "emits L (g\<lparr>scopes := Map.empty\<rparr>) [] (concat ems) g' td"
    "int (length (concat ems)) = max 0 target"
    "\<forall>em \<in> set ems. trace_ok T (gcat g) em \<and> int (length em) \<le> spansPerTraceMax g"
    unfolding opost_iff filled_def by force
  then show thesis
    by (intro that [of g' td ems]) (auto simp: emits_def adds_def same_config_def all_spans_def)
qed

lemma FillBatch_counts:
  assumes "gen_ok L g"
  shows "\<exists>g' td. FillBatch L g [] target = Some (max 0 target, g', td)
           \<and> int (total_spans td) = max 0 target \<and> gen_ok L g'"
proof -
  obtain g' td ems where r: "FillBatch L g [] target = Some (max 0 target, g', td)"
      "emits L (g\<lparr>scopes := Map.empty\<rparr>) [] (concat ems) g' td"
      "int (length (concat ems)) = max 0 target" "gcat g' = gcat g"
      "mset (all_spans td) = mset (map em_span (concat ems))"
      "\<And>em. em \<in> set ems \<Longrightarrow> trace_ok False (gcat g) em \<and> int (length em) \<le> spansPerTraceMax g"
    by (rule FillBatch_result [OF assms, where T = False and target = target]) auto
  have "total_spans td = length (concat ems)"
    using arg_cong [OF r(5), of size] by (simp add: length_all_spans)
  moreover have "gen_ok L g'"
    using assms gen_ok_config [OF emits_config [OF r(2)]] by simp
  ultimately show ?thesis
    using r(1,3) by auto
qed

text \<open>The batch as a list of entries, one per service that has spans in it.\<close>

lemma batch_entries:
  assumes inv: "batch_inv L g td"
  obtains svs where "distinct svs" and "list_all2 (entry_for L (gcat g)) svs td"
    and "\<And>i. i < length td \<Longrightarrow> svc_spans g td (svs ! i) = entry_spans (td ! i) \<and> scopes g (svs ! i) = Some i"
    and "\<And>sv. svc_spans g td sv \<noteq> [] \<Longrightarrow> \<exists>i < length td. svs ! i = sv"
proof
  let ?sv = "\<lambda>i. THE sv. scopes g sv = Some i"
  have ex1: "\<exists>!sv. scopes g sv = Some i" if "i < length td" for i
    using inv that unfolding batch_inv_def by blast
  have sv: "scopes g (?sv i) = Some i" if "i < length td" for i
    using theI' [OF ex1 [OF that]] .
  show "distinct (map ?sv [0 ..< length td])"
    unfolding distinct_map using sv by (auto simp: inj_on_def) (metis option.inject)
  show "list_all2 (entry_for L (gcat g)) (map ?sv [0 ..< length td]) td"
    using inv sv by (auto simp: list_all2_conv_all_nth batch_inv_def)
  show "svc_spans g td (map ?sv [0 ..< length td] ! i) = entry_spans (td ! i)
      \<and> scopes g (map ?sv [0 ..< length td] ! i) = Some i" if "i < length td" for i
    using that sv [OF that] by (simp add: svc_spans_def)
  fix s
  assume "svc_spans g td s \<noteq> []"
  then obtain i where i: "scopes g s = Some i"
    by (auto simp: svc_spans_def split: option.splits)
  then have "i < length td"
    using inv by (auto simp: batch_inv_def)
  moreover from this have "?sv i = s"
    using inv i sv [of i] unfolding batch_inv_def by blast
  ultimately show "\<exists>i < length td. map ?sv [0 ..< length td] ! i = s"
    by auto
qed

end
