(* ===== verification/GeneratorProps.thy ===== *)
theory GeneratorProps
  imports GeneratorInv
begin

text \<open>
  What a batch of the generator looks like, for every catalog that \<open>BuildCatalog\<close> makes and every
  configuration that \<open>validate\<close> accepts: the number of spans, the entries, the trees, the times, and
  what the two rates decide.
\<close>

section \<open>The fan-out bound\<close>

text \<open>
  The most spans that \<open>addChildren\<close> adds when \<open>k\<close> levels are left: three children, each with a callee,
  and what hangs below.
\<close>

fun fan_out :: "nat \<Rightarrow> int" where
  "fan_out 0 = 0"
| "fan_out (Suc k) = 3 * (2 + fan_out k)"

lemma fan_out_nonneg: "0 \<le> fan_out k"
  by (induction k) auto

lemma child_step_fan:
  assumes "\<And>p i t d st. oall (rec p i t d st) (\<lambda>st'. remaining_of st - F \<le> remaining_of st')" and "0 \<le> F"
  shows "oall (child_step L rec tid parentID svcIdx s pStart pDur depth st)
           (\<lambda>st'. remaining_of st - (2 + F) \<le> remaining_of st')"
proof -
  have rec: "oall (rec p i t d (g, td, n)) (\<lambda>st'. m \<le> remaining_of st')" if "m \<le> n - F" for p i t d g td n m
    using that by (intro oall_mono [OF assms(1)]) simp
  show ?thesis
    using assms(2)
    by (auto simp: child_step_def descend_def Let_def oall_bind case_prod_beta intro!: oallI [of "pick _ _"]
        oallI [of "emitSpan _ _ _ _ _ _ _ _ _"] oallI [of "slice_at _ _"] rec)
qed

lemma child_loop_fan:
  assumes "\<And>p i t d st. oall (rec p i t d st) (\<lambda>st'. remaining_of st - F \<le> remaining_of st')" and "0 \<le> F"
  shows "oall (child_loop L rec tid parentID svcIdx s pStart pDur depth k st)
           (\<lambda>st'. remaining_of st - int k * (2 + F) \<le> remaining_of st')"
proof (induction k arbitrary: st)
  case (Suc k)
  have "oall (child_loop L rec tid parentID svcIdx s pStart pDur depth k st')
      (\<lambda>st''. remaining_of st - int (Suc k) * (2 + F) \<le> remaining_of st'')"
    if "remaining_of st - (2 + F) \<le> remaining_of st'" for st'
    using that by (intro oall_mono [OF Suc.IH]) (simp add: algebra_simps)
  then show ?case
    using assms(2) by (auto simp: oall_bind intro!: oall_mono [OF child_step_fan [OF assms]])
qed simp

lemma addChildren_fan:
  "oall (addChildren L tid parentID svcIdx pStart pDur st depth)
     (\<lambda>st'. remaining_of st - fan_out (nat (7 - depth)) \<le> remaining_of st')"
proof (induction depth arbitrary: parentID svcIdx pStart pDur st rule: depth_induct)
  case (deeper depth)
  show ?case
  proof (cases "remaining_of st \<le> 0 \<or> depth > 6")
    case True
    then show ?thesis by (simp add: addChildren.simps fan_out_nonneg)
  next
    case False
    let ?F = "fan_out (nat (7 - (depth + 1)))"
    have IH: "oall (addChildren L tid p i t d st' (depth + 1))
        (\<lambda>st''. remaining_of st' - ?F \<le> remaining_of st'')" for p i t d st'
      using deeper False by simp
    have fan: "fan_out (nat (7 - depth)) = 3 * (2 + ?F)"
    proof -
      have "nat (7 - depth) = Suc (nat (7 - (depth + 1)))"
        using False by arith
      then show ?thesis by (simp only: fan_out.simps)
    qed
    have loop: "oall (child_loop L (\<lambda>p i t d st. addChildren L tid p i t d st (depth + 1)) tid parentID svcIdx s
          pStart pDur depth (nat (1 + n)) ((fst st)\<lparr>rng := r\<rparr>, snd st))
        (\<lambda>st'. remaining_of st - fan_out (nat (7 - depth)) \<le> remaining_of st')" if "n < 3" for s n r
    proof (rule oall_mono [OF child_loop_fan [OF IH fan_out_nonneg]])
      fix st'
      assume "remaining_of ((fst st)\<lparr>rng := r\<rparr>, snd st) - int (nat (1 + n)) * (2 + ?F) \<le> remaining_of st'"
      moreover have "int (nat (1 + n)) * (2 + ?F) \<le> 3 * (2 + ?F)"
        using that fan_out_nonneg [of "nat (7 - (depth + 1))"] by (intro mult_right_mono) auto
      ultimately show "remaining_of st - fan_out (nat (7 - depth)) \<le> remaining_of st'"
        unfolding fan by simp
    qed
    have draw: "oall (rand_intN 3 r) (\<lambda>(n, r'). n < 3)" for r
      using rand_intN_opost [of 3 "\<lambda>(n, r'). n < 3" r] by (auto simp: opost_iff)
    show ?thesis
      using False
      by (subst addChildren.simps)
        (auto simp: oall_bind fan_out_nonneg intro!: oallI [of "slice_at _ _"] oall_mono [OF draw] loop)
  qed
qed

text \<open>
  C22. A trace has at most 2185 spans, whatever \<open>SpansPerTraceMin\<close> is: six levels with at most three
  children each, and a callee for every child.
\<close>

lemma trace_fan_out:
  "oall (genTrace L g td budget) (\<lambda>(n, g', td'). n \<le> 2185)"
proof -
  have six: "fan_out 6 = 2184"
    by (simp add: eval_nat_numeral)
  show ?thesis
    unfolding genTrace_def oall_bind Let_def case_prod_beta
    by (intro oallI [of "rand_intN _ _"] oallI [of "pick _ _"] oallI [of "emitSpan _ _ _ _ _ _ _ _ _"]
        oall_mono [OF addChildren_fan]) (auto simp: six)
qed

section \<open>The batch\<close>

text \<open>
  C5. \<open>FillBatch\<close> does not panic, returns the target exactly, and the batch has exactly that many spans.
\<close>

theorem FillBatch_exact:
  assumes "gen_ok L g"
  shows "\<exists>g' td. FillBatch L g [] target = Some (max 0 target, g', td)
           \<and> int (total_spans td) = max 0 target \<and> gen_ok L g'"
  using assms by (rule FillBatch_counts)

text \<open>
  Where a span of a batch comes from: it shows an operation, and hangs below another span. A span belongs into the
  entry of a service if it is a root with an entry operation of the service, or hangs below a span of the same entry
  with a child operation of the service, or is the service's side of a call: the counterpart of a child operation of
  another entry's service whose peer is this service, below the span that shows that operation.
\<close>

definition performs :: "operation \<Rightarrow> span \<Rightarrow> bool" where
  "performs op sp \<longleftrightarrow> span_name sp = op_name op \<and> span_kind sp = op_kind op"

definition below :: "span \<Rightarrow> span \<Rightarrow> bool" where
  "below p sp \<longleftrightarrow> traceID sp = traceID p \<and> parentSpanID sp = spanID p"

definition belongs :: "Catalog \<Rightarrow> int list \<Rightarrow> Traces \<Rightarrow> nat \<Rightarrow> span \<Rightarrow> bool" where
  "belongs c svs td i sp \<longleftrightarrow>
     (let s = services c ! nat (svs ! i)
      in parentSpanID sp = zeroSpanID \<and> (\<exists>op \<in> set (entryOps s). performs op sp)
       \<or> span_kind sp \<noteq> SpanKindServer \<and> (\<exists>op \<in> set (childOps s). performs op sp)
           \<and> (\<exists>p \<in> set (entry_spans (td ! i)). below p sp)
       \<or> span_kind sp = SpanKindServer
           \<and> (\<exists>j < length td. \<exists>p \<in> set (entry_spans (td ! j)). below p sp
                \<and> (\<exists>op \<in> set (childOps (services c ! nat (svs ! j))).
                      performs op p \<and> peer op = svs ! i \<and> performs (serverCounterpart op s) sp)))"

lemma batch_emitted:
  assumes "gen_ok L g" and "FillBatch L g [] target = Some (n, g', td)"
  obtains em svs where "distinct svs" and "list_all2 (entry_for L (gcat g)) svs td"
    and "\<And>i. i < length td \<Longrightarrow> entry_spans (td ! i) = map em_span (filter (\<lambda>e. em_svc e = svs ! i) em)"
    and "\<And>i. i < length td \<Longrightarrow> \<exists>e \<in> set em. em_svc e = svs ! i"
    and "\<And>e. e \<in> set em \<Longrightarrow> \<exists>i < length td. svs ! i = em_svc e"
    and "\<And>e. e \<in> set em \<Longrightarrow> shown L e
           \<and> (parentSpanID (em_span e) = zeroSpanID \<and> em_op e \<in> set (entryOps (services (gcat g) ! nat (em_svc e)))
              \<or> (\<exists>p \<in> set em. child_link False (gcat g) p e))"
proof -
  obtain g1 td1 ems where r: "FillBatch L g [] target = Some (max 0 target, g1, td1)"
      "emits L (g\<lparr>scopes := Map.empty\<rparr>) [] (concat ems) g1 td1" "gcat g1 = gcat g"
      "\<And>em. em \<in> set ems \<Longrightarrow> trace_ok False (gcat g) em \<and> int (length em) \<le> spansPerTraceMax g"
    by (rule FillBatch_result [OF assms(1), where T = False and target = target]) auto
  let ?em = "concat ems"
  have eq: "g1 = g'" "td1 = td"
    using r(1) assms(2) by auto
  have inv: "batch_inv L g' td" and spans: "\<And>sv. svc_spans g' td sv = map em_span (filter (\<lambda>e. em_svc e = sv) ?em)"
    and shown: "\<And>e. e \<in> set ?em \<Longrightarrow> shown L e" and dom: "dom (scopes g') \<subseteq> em_svc ` set ?em"
    using r(2) eq by (auto simp: emits_def adds_def)
  obtain svs where svs: "distinct svs" "list_all2 (entry_for L (gcat g')) svs td"
      "\<And>i. i < length td \<Longrightarrow> svc_spans g' td (svs ! i) = entry_spans (td ! i) \<and> scopes g' (svs ! i) = Some i"
      "\<And>sv. svc_spans g' td sv \<noteq> [] \<Longrightarrow> \<exists>i < length td. svs ! i = sv"
    using batch_entries [OF inv] by blast
  show thesis
  proof (rule that [of svs ?em])
    show "list_all2 (entry_for L (gcat g)) svs td"
      using svs(2) r(3) eq by simp
    show "entry_spans (td ! i) = map em_span (filter (\<lambda>e. em_svc e = svs ! i) ?em)" if "i < length td" for i
      using svs(3) [OF that] spans by simp
    show "\<exists>e \<in> set ?em. em_svc e = svs ! i" if "i < length td" for i
      using svs(3) [OF that] dom by (metis domI imageE subsetD)
    show "\<exists>i < length td. svs ! i = em_svc e" if "e \<in> set ?em" for e
      using that by (intro svs(4)) (auto simp: spans filter_empty_conv)
    show "shown L e \<and> (parentSpanID (em_span e) = zeroSpanID \<and> em_op e \<in> set (entryOps (services (gcat g) ! nat (em_svc e)))
        \<or> (\<exists>p \<in> set ?em. child_link False (gcat g) p e))" if e: "e \<in> set ?em" for e
    proof -
      obtain em where em: "em \<in> set ems" "e \<in> set em"
        using e by auto
      then show ?thesis
        using trace_ok_parent [of False "gcat g" em e] r(4) [OF em(1)] shown [OF e] by auto
    qed
  qed (rule svs(1))
qed

text \<open>
  C18. A batch has one entry for each service with spans in it and no other, with the attributes of that service and
  one scope of the catalog's name and version. Every span is in the entry of the service that emitted it: of the
  service whose entry or child operation it shows, or, for the SERVER span of a call, of the callee.
\<close>

theorem FillBatch_entries:
  assumes "gen_ok L g" and "FillBatch L g [] target = Some (n, g', td)"
  shows "\<exists>svs. distinct svs \<and> list_all2 (entry_for L (gcat g)) svs td \<and> (\<forall>rs \<in> set td. entry_spans rs \<noteq> [])
           \<and> (\<forall>i < length td. \<forall>sp \<in> set (entry_spans (td ! i)). belongs (gcat g) svs td i sp)"
proof -
  obtain em svs where em: "distinct svs" "list_all2 (entry_for L (gcat g)) svs td"
      "\<And>i. i < length td \<Longrightarrow> entry_spans (td ! i) = map em_span (filter (\<lambda>e. em_svc e = svs ! i) em)"
      "\<And>i. i < length td \<Longrightarrow> \<exists>e \<in> set em. em_svc e = svs ! i"
      "\<And>e. e \<in> set em \<Longrightarrow> \<exists>i < length td. svs ! i = em_svc e"
      "\<And>e. e \<in> set em \<Longrightarrow> shown L e
         \<and> (parentSpanID (em_span e) = zeroSpanID \<and> em_op e \<in> set (entryOps (services (gcat g) ! nat (em_svc e)))
            \<or> (\<exists>p \<in> set em. child_link False (gcat g) p e))"
    by (rule batch_emitted [OF assms]) blast
  have "entry_spans rs \<noteq> []" if rs: "rs \<in> set td" for rs
  proof -
    obtain i where i: "i < length td" "rs = td ! i"
      using rs by (auto simp: in_set_conv_nth)
    with em(3) [OF i(1)] em(4) [OF i(1)] show ?thesis
      by (auto simp: filter_empty_conv)
  qed
  moreover have "belongs (gcat g) svs td i sp" if i: "i < length td" and sp: "sp \<in> set (entry_spans (td ! i))" for i sp
  proof -
    obtain e where e: "e \<in> set em" "em_svc e = svs ! i" "sp = em_span e"
      using sp em(3) [OF i] by auto
    have acts: "performs (em_op x) (em_span x)" if "x \<in> set em" for x
      using em(6) [OF that] by (simp add: shown_def performs_def)
    show ?thesis
      using em(6) [OF e(1), THEN conjunct2]
    proof
      assume "parentSpanID (em_span e) = zeroSpanID \<and> em_op e \<in> set (entryOps (services (gcat g) ! nat (em_svc e)))"
      then show ?thesis
        using acts [OF e(1)] e by (auto simp: belongs_def Let_def)
    next
      assume "\<exists>p \<in> set em. child_link False (gcat g) p e"
      then obtain p where p: "p \<in> set em" "child_link False (gcat g) p e"
        by blast
      obtain j where j: "j < length td" "svs ! j = em_svc p"
        using em(5) [OF p(1)] by blast
      then have mem: "em_span p \<in> set (entry_spans (td ! j))"
        using em(3) p(1) by simp
      have link: "below (em_span p) sp"
        using p(2) e(3) by (simp add: child_link_def below_def)
      show ?thesis
      proof (cases "span_kind sp = SpanKindServer")
        case True
        then show ?thesis
          using p(2) j mem link acts [OF p(1)] acts [OF e(1)] e
          by (fastforce simp: belongs_def Let_def child_link_def)
      next
        case False
        then have "em_span p \<in> set (entry_spans (td ! i))"
          using p e(2,3) em(3) [OF i] by (simp add: child_link_def)
        then show ?thesis
          using False p(2) link acts [OF e(1)] e by (auto simp: belongs_def Let_def child_link_def)
      qed
    qed
  qed
  ultimately show ?thesis
    using em(1,2) by blast
qed

lemma batch_links:
  assumes "gen_ok L g" and "FillBatch L g [] target = Some (n, g', td)" and "sp \<in> set (all_spans td)"
  shows "parentSpanID sp = zeroSpanID \<and> span_kind sp \<in> {SpanKindServer, SpanKindConsumer}
     \<or> (\<exists>p \<in> set (all_spans td). traceID sp = traceID p \<and> parentSpanID sp = spanID p
           \<and> (span_kind sp = SpanKindServer \<longleftrightarrow> span_kind p = SpanKindClient))"
proof -
  obtain g1 td1 ems where r: "FillBatch L g [] target = Some (max 0 target, g1, td1)"
      "mset (all_spans td1) = mset (map em_span (concat ems))"
      "\<And>em. em \<in> set ems \<Longrightarrow> trace_ok False (gcat g) em \<and> int (length em) \<le> spansPerTraceMax g"
    by (rule FillBatch_result [OF assms(1), where T = False and target = target]) auto
  have spans: "set (all_spans td) = em_span ` set (concat ems)"
    using arg_cong [OF r(2), of set_mset] r(1) assms(2) by simp
  then obtain em e where e: "em \<in> set ems" "e \<in> set em" "sp = em_span e"
    using assms(3) by auto
  then have ok: "trace_ok False (gcat g) em"
    using r(3) by blast
  then have hd: "span_kind (em_span (hd em)) \<in> {SpanKindServer, SpanKindConsumer}"
    by (cases em) auto
  from trace_ok_parent [OF ok e(2)] show ?thesis
  proof
    assume "\<exists>p \<in> set em. child_link False (gcat g) p e"
    then obtain p where p: "p \<in> set em" "child_link False (gcat g) p e"
      by blast
    then have "em_span p \<in> set (all_spans td)"
      unfolding spans using e(1) by auto
    with p(2) e(3) show ?thesis
      by (auto simp: child_link_def)
  qed (use hd e(3) in auto)
qed

text \<open>
  C6. A batch is a set of whole trees: every span is a root (no parent, kind SERVER or CONSUMER) or hangs
  below a span of the batch, with the same trace id and the parent's span id. A SERVER span that is not
  a root hangs below a CLIENT span, and only SERVER spans hang below one.
\<close>

theorem FillBatch_trees:
  assumes "gen_ok L g" and "FillBatch L g [] target = Some (n, g', td)" and "sp \<in> set (all_spans td)"
  shows "parentSpanID sp = zeroSpanID \<and> span_kind sp \<in> {SpanKindServer, SpanKindConsumer}
     \<or> (\<exists>p \<in> set (all_spans td). traceID sp = traceID p \<and> parentSpanID sp = spanID p
           \<and> (span_kind sp = SpanKindServer \<longleftrightarrow> span_kind p = SpanKindClient))"
  using assms by (rule batch_links)

lemma nested_words:
  assumes "t = s + off" and "0 \<le> off" and "0 \<le> d" and "off + d \<le> D" and "D < 2 ^ 62"
  shows "uint (word_of_int t - word_of_int s :: u64) + uint (word_of_int (t + d) - word_of_int t :: u64)
           \<le> uint (word_of_int (s + D) - word_of_int s :: u64)"
proof -
  have "(word_of_int t - word_of_int s :: u64) = word_of_int off"
    "(word_of_int (t + d) - word_of_int t :: u64) = word_of_int d"
    "(word_of_int (s + D) - word_of_int s :: u64) = word_of_int D"
    using assms(1) by (simp_all flip: wi_hom_sub)
  then show ?thesis
    using assms(2-5) by (simp add: unsigned_of_int take_bit_int_eq_self)
qed

lemma trace_durations:
  assumes "trace_ok True c em" and "e \<in> set em"
  shows "0 \<le> em_dur e" and "em_dur e < 2 ^ 62"
proof -
  have "0 \<le> em_dur e \<and> em_dur e < 2 ^ 62"
    using trace_ok_parent [OF assms]
  proof
    assume "e = hd em \<and> parentSpanID (em_span e) = zeroSpanID \<and> em_op e \<in> set (entryOps (services c ! nat (em_svc e)))"
    with assms show ?thesis by (cases em) auto
  qed (auto simp: child_link_def)
  then show "0 \<le> em_dur e" "em_dur e < 2 ^ 62" by auto
qed


section \<open>What the rates decide\<close>

lemma pick_in_set: "pick xs r = Some (x, r') \<Longrightarrow> x \<in> set xs"
  by (auto simp: pick_def slice_at_def nat_less_iff split: if_splits bind_splits)

text \<open>The status attribute of an RPC or HTTP span.\<close>

definition reported_status :: "attributes \<Rightarrow> int option" where
  "reported_status as =
     (case map_of as ''http.response.status_code'' of
        Some (VInt s) \<Rightarrow> Some s
      | _ \<Rightarrow> (case map_of as ''rpc.grpc.status_code'' of Some (VInt s) \<Rightarrow> Some s | _ \<Rightarrow> None))"

definition failure_status :: "int \<Rightarrow> bool" where
  "failure_status s \<longleftrightarrow> s \<ge> 400 \<or> 0 < s \<and> s < 17"

text \<open>
  C19. A span has status ERROR if and only if the draw is below the error rate. An error has its message
  and exactly one \<open>exception\<close> event, whatever the event rate is; any other span has no message and at
  most one event, \<open>processing\<close>: always with an event rate of 1 or more (or infinite), never with one of 0 or
  less or with NaN. The HTTP or gRPC status attribute is a failure exactly on the spans with status ERROR.
\<close>

theorem make_span_outcome:
  assumes "make_span L eRate vRate tid parent op start dur r = Some (sp, r')"
  shows "(statusCode sp = StatusCodeError \<longleftrightarrow> f_less (Finite (fst (rand_float64 (snd (fillSpanID r))))) eRate)
     \<and> (statusCode sp = StatusCodeError \<longrightarrow> statusMessage sp = ''operation failed''
          \<and> map ev_name (span_events sp) = [''exception''])
     \<and> (statusCode sp = StatusCodeUnset \<longrightarrow> statusMessage sp = []
          \<and> (map ev_name (span_events sp) = [] \<and> (vRate = NaN \<or> f_less vRate (Finite 1))
            \<or> map ev_name (span_events sp) = [''processing''] \<and> f_less (Finite 0) vRate))
     \<and> (\<forall>s. reported_status (span_attributes sp) = Some s
          \<longrightarrow> (failure_status s \<longleftrightarrow> statusCode sp = StatusCodeError))"
proof -
  let ?r = "snd (fillSpanID r)"
  let ?err = "f_less (Finite (fst (rand_float64 ?r))) eRate"
  from assms obtain attrs r1 code msg evs where
    a: "applyAttributes op ?err (snd (rand_float64 ?r)) = Some (attrs, r1)"
    and o: "span_outcome L vRate ?err start dur r1 = Some ((code, msg, evs), r')"
    and sp: "span_attributes sp = attrs" "statusCode sp = code" "statusMessage sp = msg" "span_events sp = evs"
    unfolding make_span_def Let_def case_prod_beta by (auto elim!: bind_eq_SomeE)
  have out: "code = (if ?err then StatusCodeError else StatusCodeUnset)"
      "msg = (if ?err then ''operation failed'' else [])"
      "if ?err then map ev_name evs = [''exception'']
        else map ev_name evs = [] \<and> (vRate = NaN \<or> f_less vRate (Finite 1))
          \<or> map ev_name evs = [''processing''] \<and> f_less (Finite 0) vRate"
    using o rand_float64_range [of r1]
    by (cases vRate; auto simp: span_outcome_def exceptionEvent_def infoEvent_def Let_def case_prod_beta
        elim!: bind_eq_SomeE split: if_splits)+
  have "failure_status s \<longleftrightarrow> ?err" if "reported_status attrs = Some s" for s
    using a that
    by (cases "op_typ op")
      (auto simp: applyAttributes_def reported_status_def http_attributes_def failure_status_def
        httpStatusCode_def grpcStatus_def elim!: bind_eq_SomeE dest!: pick_in_set split: if_splits)
  then show ?thesis
    using out by (auto simp: sp)
qed

section \<open>Concrete inputs\<close>

text \<open>
  A library with the documented behaviour: the normal deviate and the exponential are simple functions,
  the clock stands still and a map is visited in the order of its entries.
\<close>

definition sample_lib :: lib where
  "sample_lib = \<lparr>normFloat64 = (\<lambda>r. (0, r)), mathExp = (\<lambda>x. min (1000000 * x) (10 ^ 12)),
     timeNow = (\<lambda>n. 1700000000000000000), rangeOrder = (\<lambda>xs. xs),
     idIsEmpty = (\<lambda>b. list_all (\<lambda>x. x = 0) b), newTimestamp = word_of_int\<rparr>"

definition sample_gen :: "Catalog \<Rightarrow> Generator" where
  "sample_gen c = NewGenerator c 7 5 9 (Finite (1 / 10)) (Finite (1 / 10))"

lemma sample_lib_ok: "lib_ok sample_lib"
  by (simp add: lib_ok_def sample_lib_def list_all_iff)

lemma sample_catalog:
  obtains c where "BuildCatalog 3 ''spangen'' ''1.0.0'' 42 = Some c"
    and "gen_ok sample_lib (sample_gen c)" and "latency_ok sample_lib"
proof -
  obtain c where c: "BuildCatalog 3 ''spangen'' ''1.0.0'' 42 = Some c" "catalog_ok c" "length (services c) = 3"
    using BuildCatalog_opost [of 3 "''spangen''" "''1.0.0''" 42] by (auto simp: opost_iff)
  have "gen_ok sample_lib (sample_gen c)"
    using c by (auto simp: gen_ok_def sample_gen_def NewGenerator_def sample_lib_ok)
  moreover have "latency_ok sample_lib"
    by (simp add: latency_ok_def sample_lib_def min_less_iff_disj)
  ultimately show thesis
    using that c(1) by blast
qed

lemma sample_batch:
  obtains c g td sp where "BuildCatalog 3 ''spangen'' ''1.0.0'' 42 = Some c"
    and "gen_ok sample_lib (sample_gen c)" and "latency_ok sample_lib"
    and "FillBatch sample_lib (sample_gen c) [] 12 = Some (12, g, td)" and "sp \<in> set (all_spans td)"
proof -
  obtain c where c: "BuildCatalog 3 ''spangen'' ''1.0.0'' 42 = Some c" "gen_ok sample_lib (sample_gen c)"
      "latency_ok sample_lib"
    by (rule sample_catalog)
  obtain g td ems where r: "FillBatch sample_lib (sample_gen c) [] 12 = Some (max 0 12, g, td)"
      "emits sample_lib (sample_gen c\<lparr>scopes := Map.empty\<rparr>) [] (concat ems) g td"
      "int (length (concat ems)) = max 0 12" "mset (all_spans td) = mset (map em_span (concat ems))"
    by (rule FillBatch_result [OF c(2), where T = False and target = 12]) auto
  have "length (all_spans td) = 12"
    using r(3) arg_cong [OF r(4), of size] by simp
  then have "all_spans td ! 0 \<in> set (all_spans td)"
    by (intro nth_mem) simp
  with c r(1) show thesis
    by (intro that [of c g td]) simp_all
qed

lemma FillBatch_exact_witness:
  "\<exists>c g td. BuildCatalog 3 ''spangen'' ''1.0.0'' 42 = Some c
     \<and> FillBatch sample_lib (sample_gen c) [] 12 = Some (12, g, td) \<and> total_spans td = 12"
proof -
  obtain c where c: "BuildCatalog 3 ''spangen'' ''1.0.0'' 42 = Some c" "gen_ok sample_lib (sample_gen c)"
    by (rule sample_catalog)
  from c(1) FillBatch_exact [OF c(2), of 12] show ?thesis by auto
qed

lemma FillBatch_entries_witness:
  "\<exists>c g td svs. BuildCatalog 3 ''spangen'' ''1.0.0'' 42 = Some c
     \<and> FillBatch sample_lib (sample_gen c) [] 12 = Some (12, g, td)
     \<and> distinct svs \<and> list_all2 (entry_for sample_lib c) svs td
     \<and> (\<forall>i < length td. \<forall>sp \<in> set (entry_spans (td ! i)). belongs c svs td i sp)"
proof -
  obtain c g td where c: "BuildCatalog 3 ''spangen'' ''1.0.0'' 42 = Some c" "gen_ok sample_lib (sample_gen c)"
      "FillBatch sample_lib (sample_gen c) [] 12 = Some (12, g, td)"
    by (rule sample_batch)
  then show ?thesis
    using FillBatch_entries [OF c(2,3)] by (auto simp: sample_gen_def NewGenerator_def)
qed

lemma FillBatch_trees_witness:
  "\<exists>c g td sp. BuildCatalog 3 ''spangen'' ''1.0.0'' 42 = Some c
     \<and> FillBatch sample_lib (sample_gen c) [] 12 = Some (12, g, td) \<and> sp \<in> set (all_spans td)
     \<and> (parentSpanID sp = zeroSpanID \<or> (\<exists>p \<in> set (all_spans td). parentSpanID sp = spanID p))"
proof -
  obtain c g td sp where c: "BuildCatalog 3 ''spangen'' ''1.0.0'' 42 = Some c" "gen_ok sample_lib (sample_gen c)"
      "FillBatch sample_lib (sample_gen c) [] 12 = Some (12, g, td)" "sp \<in> set (all_spans td)"
    by (rule sample_batch)
  then show ?thesis
    using FillBatch_trees [OF c(2-4)] by blast
qed


lemma make_span_outcome_witness:
  "\<exists>sp r. make_span sample_lib (Finite 1) (Finite 0) (replicate 16 1) zeroSpanID (http_entry (''GET'', ''/cart'')) 0 1000 (new_pcg 1 2)
       = Some (sp, r) \<and> statusCode sp = StatusCodeError \<and> map ev_name (span_events sp) = [''exception'']"
proof -
  obtain sp r where r: "make_span sample_lib (Finite 1) (Finite 0) (replicate 16 1) zeroSpanID (http_entry (''GET'', ''/cart'')) 0 1000
      (new_pcg 1 2) = Some (sp, r)"
    using make_span_opost [of sample_lib "Finite 1" "Finite 0" "replicate 16 1" zeroSpanID "http_entry (''GET'', ''/cart'')" 0 1000 "new_pcg 1 2"]
    by (auto simp: opost_iff)
  with make_span_outcome [OF r] rand_float64_range show ?thesis by simp
qed

end
