(* ===== verification/Engine.thy ===== *)
theory Engine
  imports Config GeneratorInv
begin

text \<open>
  \<open>internal/generate/engine.go\<close>: the engine, its workers as a step relation over the shared counters,
  the ramp and the rate sampler. Every atomic operation on shared state (an \<open>atomic.Uint64\<close>, a metric,
  the context, the limiter, a call of the sink) is one step, so that the steps of different workers
  interleave freely; the local computations between two of them belong to the earlier step.
\<close>

section \<open>The engine\<close>

text \<open>\<open>rate.Limiter\<close>, as far as the program sets it.\<close>

record limiter =
  lim_rate :: float64
  lim_burst :: int

text \<open>The collectors of \<open>internal/metrics\<close> that the engine writes; counters hold whole numbers, \<open>SendDuration\<close> the number of
  observations.\<close>

record Metrics =
  SpansGenerated :: int
  SpansSent :: int
  BatchesOK :: int
  BatchesErr :: int
  SendErrors :: int
  DroppedSpans :: int
  SendDuration :: int
  Inflight :: int
  TargetRate :: float64
  AchievedRate :: rat

definition metrics0 :: Metrics where
  "metrics0 = \<lparr>SpansGenerated = 0, SpansSent = 0, BatchesOK = 0, BatchesErr = 0, SendErrors = 0,
     DroppedSpans = 0, SendDuration = 0, Inflight = 0, TargetRate = Finite 0, AchievedRate = 0\<rparr>"

text \<open>
  The fields of \<open>Engine\<close>, and what a run adds: whether the run context is cancelled, the calls of
  \<open>Sink.Send\<close> so far with their outcome, the last value that \<open>sampleRate\<close> read, and whether the process
  has panicked.
\<close>

record Engine =
  cfg :: Config
  catalog :: Catalog
  limiter_of :: "limiter option"
  batch :: int
  generated :: u64
  sent :: u64
  errors :: u64
  met :: Metrics
  cancelled :: bool
  sends :: "(Traces \<times> bool) list"
  prevSent :: u64
  crashed :: bool

definition sendAttempts :: nat where
  "sendAttempts = 2"

text \<open>\<open>New\<close>; the sum of the limiter's burst wraps around like any \<open>int\<close>.\<close>

definition New :: "Config \<Rightarrow> Engine option" where
  "New c = do {
     cat \<leftarrow> BuildCatalog (Services (Gen c)) ''spangen'' ''1.0.0'' (Seed c);
     let e = \<lparr>cfg = c, catalog = cat, limiter_of = None, batch = EffectiveBatchSize c,
              generated = 0, sent = 0, errors = 0, met = metrics0, cancelled = False, sends = [],
              prevSent = 0, crashed = False\<rparr>;
     Some (if f_less (Finite 0) (Rate (Gen c)) then
             let burst = wrap64 (batch e + SpansPerTraceMax (Gen c) + 64);
                 start = (if Ramp (Gen c) > 0 then f_div (Rate (Gen c)) 100 else Rate (Gen c))
             in e\<lparr>limiter_of := Some \<lparr>lim_rate = start, lim_burst = burst\<rparr>,
                  met := metrics0\<lparr>TargetRate := start\<rparr>\<rparr>
           else e)
   }"

definition seedFor :: "u64 \<Rightarrow> u64 \<Rightarrow> int \<Rightarrow> u64" where
  "seedFor base hst w = base XOR hst XOR (word_of_int (w + 1) * 2654435761)"

section \<open>The ramp and the rate sampler\<close>

text \<open>\<open>time.Duration.Seconds\<close>, for a duration that is not negative.\<close>

definition Seconds :: "int \<Rightarrow> rat" where
  "Seconds d = fl (fl (of_int (d div 10 ^ 9)) + fl (fl (of_int (d mod 10 ^ 9)) / 10 ^ 9))"

text \<open>
  One tick of \<open>ramp\<close> at the given time since its start: the limit it sets, and whether it is done.
\<close>

definition ramp_tick :: "float64 \<Rightarrow> int \<Rightarrow> int \<Rightarrow> float64 \<times> bool" where
  "ramp_tick target rampDur elapsed =
     (let frac = fl (Seconds elapsed / Seconds rampDur)
      in if frac \<ge> 1 then (target, True)
         else let cur = f_mul target frac;
                  cur = (if f_less cur (f_div target 100) then f_div target 100 else cur)
              in (cur, False))"

text \<open>The limits that \<open>ramp\<close> sets at the ticks of its ticker.\<close>

fun ramp_limits :: "float64 \<Rightarrow> int \<Rightarrow> int list \<Rightarrow> float64 list" where
  "ramp_limits target rampDur [] = []"
| "ramp_limits target rampDur (t # ts) =
     (let (cur, fin) = ramp_tick target rampDur t
      in cur # (if fin then [] else ramp_limits target rampDur ts))"

text \<open>One tick of \<open>sampleRate\<close>: \<open>float64(cur-prev) / window.Seconds()\<close>.\<close>

definition sample_rate :: "u64 \<Rightarrow> u64 \<Rightarrow> rat" where
  "sample_rate prev cur = fl (fl (of_int (uint (cur - prev))) / Seconds (2 * 10 ^ 9))"

section \<open>Workers\<close>

text \<open>
  Where a worker stands: before the operation that the constructor names, with the number of spans of
  its batch and the number of the attempt. \<open>Returned n\<close>: the goroutine ended with \<open>n\<close> counted spans in
  hand that were never given to the sink.
\<close>

datatype pc =
    Top
  | Count int
  | CancelRun int
  | MetGenerated int
  | WaitLimiter int
  | Recheck int
  | BeginSend int
  | Attempt int nat
  | Observe int nat bool
  | MetBatchOK int
  | MetSent int
  | AddSent int
  | MetSendError int nat
  | CheckRetry int nat
  | MetBatchErr int
  | MetDropped int
  | AddErrors int
  | LogError int
  | EndSend
  | Returned int

record worker =
  w_pc :: pc
  w_gen :: Generator
  w_td :: Traces

text \<open>
  The libraries a worker calls: those of the generator, and \<open>Limiter.WaitN\<close> as the relation between the
  limiter, whether the context is cancelled, the number of tokens and whether it can return nil.
\<close>

record externals =
  xlib :: lib
  xwaitN :: "limiter \<Rightarrow> bool \<Rightarrow> int \<Rightarrow> bool \<Rightarrow> bool"

definition over_limit :: "Engine \<Rightarrow> u64 \<Rightarrow> bool" where
  "over_limit e tot \<longleftrightarrow> MaxSpans (Gen (cfg e)) > 0 \<and> tot \<ge> of_nat (MaxSpans (Gen (cfg e)))"

inductive wstep :: "externals \<Rightarrow> Engine \<Rightarrow> worker \<Rightarrow> Engine \<Rightarrow> worker \<Rightarrow> bool" for X where
  stop: "w_pc w = Top \<Longrightarrow> cancelled e \<Longrightarrow> wstep X e w e (w\<lparr>w_pc := Returned 0\<rparr>)"
| fill: "w_pc w = Top \<Longrightarrow> \<not> cancelled e \<Longrightarrow> FillBatch (xlib X) (w_gen w) [] (batch e) = Some (n, g, td) \<Longrightarrow>
    wstep X e w e (w\<lparr>w_pc := Count n, w_gen := g, w_td := td\<rparr>)"
| fill_panic: "w_pc w = Top \<Longrightarrow> \<not> cancelled e \<Longrightarrow> FillBatch (xlib X) (w_gen w) [] (batch e) = None \<Longrightarrow>
    wstep X e w (e\<lparr>crashed := True\<rparr>) (w\<lparr>w_pc := Returned 0\<rparr>)"
| count_spans: "w_pc w = Count n \<Longrightarrow> tot = generated e + word_of_int n \<Longrightarrow>
    wstep X e w (e\<lparr>generated := tot\<rparr>) (w\<lparr>w_pc := (if over_limit e tot then CancelRun n else MetGenerated n)\<rparr>)"
| cancel_run: "w_pc w = CancelRun n \<Longrightarrow> wstep X e w (e\<lparr>cancelled := True\<rparr>) (w\<lparr>w_pc := MetGenerated n\<rparr>)"
| met_generated: "w_pc w = MetGenerated n \<Longrightarrow>
    wstep X e w (e\<lparr>met := (met e)\<lparr>SpansGenerated := SpansGenerated (met e) + n\<rparr>\<rparr>) (w\<lparr>w_pc := WaitLimiter n\<rparr>)"
| no_limiter: "w_pc w = WaitLimiter n \<Longrightarrow> limiter_of e = None \<Longrightarrow> wstep X e w e (w\<lparr>w_pc := Recheck n\<rparr>)"
| wait: "w_pc w = WaitLimiter n \<Longrightarrow> limiter_of e = Some l \<Longrightarrow> xwaitN X l (cancelled e) n ok \<Longrightarrow>
    wstep X e w e (w\<lparr>w_pc := (if ok then Recheck n else Returned n)\<rparr>)"
| recheck: "w_pc w = Recheck n \<Longrightarrow>
    wstep X e w e (w\<lparr>w_pc := (if cancelled e then Returned n else BeginSend n)\<rparr>)"
| begin_send: "w_pc w = BeginSend n \<Longrightarrow>
    wstep X e w (e\<lparr>met := (met e)\<lparr>Inflight := Inflight (met e) + 1\<rparr>\<rparr>) (w\<lparr>w_pc := Attempt n 0\<rparr>)"
| attempt: "w_pc w = Attempt n k \<Longrightarrow>
    wstep X e w (e\<lparr>sends := sends e @ [(w_td w, ok)]\<rparr>) (w\<lparr>w_pc := Observe n k ok\<rparr>)"
| observe: "w_pc w = Observe n k ok \<Longrightarrow>
    wstep X e w (e\<lparr>met := (met e)\<lparr>SendDuration := SendDuration (met e) + 1\<rparr>\<rparr>)
      (w\<lparr>w_pc := (if ok then MetBatchOK n else MetSendError n k)\<rparr>)"
| met_batch_ok: "w_pc w = MetBatchOK n \<Longrightarrow>
    wstep X e w (e\<lparr>met := (met e)\<lparr>BatchesOK := BatchesOK (met e) + 1\<rparr>\<rparr>) (w\<lparr>w_pc := MetSent n\<rparr>)"
| met_sent: "w_pc w = MetSent n \<Longrightarrow>
    wstep X e w (e\<lparr>met := (met e)\<lparr>SpansSent := SpansSent (met e) + n\<rparr>\<rparr>) (w\<lparr>w_pc := AddSent n\<rparr>)"
| add_sent: "w_pc w = AddSent n \<Longrightarrow> wstep X e w (e\<lparr>sent := sent e + word_of_int n\<rparr>) (w\<lparr>w_pc := EndSend\<rparr>)"
| met_send_error: "w_pc w = MetSendError n k \<Longrightarrow>
    wstep X e w (e\<lparr>met := (met e)\<lparr>SendErrors := SendErrors (met e) + 1\<rparr>\<rparr>) (w\<lparr>w_pc := CheckRetry n k\<rparr>)"
| check_retry: "w_pc w = CheckRetry n k \<Longrightarrow>
    wstep X e w e (w\<lparr>w_pc := (if \<not> cancelled e \<and> k + 1 < sendAttempts then Attempt n (k + 1) else MetBatchErr n)\<rparr>)"
| met_batch_err: "w_pc w = MetBatchErr n \<Longrightarrow>
    wstep X e w (e\<lparr>met := (met e)\<lparr>BatchesErr := BatchesErr (met e) + 1\<rparr>\<rparr>) (w\<lparr>w_pc := MetDropped n\<rparr>)"
| met_dropped: "w_pc w = MetDropped n \<Longrightarrow>
    wstep X e w (e\<lparr>met := (met e)\<lparr>DroppedSpans := DroppedSpans (met e) + n\<rparr>\<rparr>) (w\<lparr>w_pc := AddErrors n\<rparr>)"
| add_errors: "w_pc w = AddErrors n \<Longrightarrow>
    wstep X e w (e\<lparr>errors := errors e + word_of_int n\<rparr>) (w\<lparr>w_pc := LogError n\<rparr>)"
| log_error: "w_pc w = LogError n \<Longrightarrow>
    wstep X e w (if (word_of_int (batch e * 20) :: u64) = 0 then e\<lparr>crashed := True\<rparr> else e) (w\<lparr>w_pc := EndSend\<rparr>)"
| end_send: "w_pc w = EndSend \<Longrightarrow>
    wstep X e w (e\<lparr>met := (met e)\<lparr>Inflight := Inflight (met e) - 1\<rparr>\<rparr>) (w\<lparr>w_pc := Top\<rparr>)"

section \<open>A run\<close>

type_synonym world = "Engine \<times> worker list"

text \<open>
  The steps of a run: a worker's, the cancellation of the context from outside (a signal or the end of
  \<open>Duration\<close>), a tick of the ramp and a tick of the sampler. A panic ends the process.
\<close>

inductive step :: "externals \<Rightarrow> world \<Rightarrow> world \<Rightarrow> bool" for X where
  worker: "\<not> crashed e \<Longrightarrow> i < length ws \<Longrightarrow> wstep X e (ws ! i) e' w' \<Longrightarrow> step X (e, ws) (e', ws[i := w'])"
| cancel: "\<not> crashed e \<Longrightarrow> step X (e, ws) (e\<lparr>cancelled := True\<rparr>, ws)"
| ramp: "\<not> crashed e \<Longrightarrow> limiter_of e = Some l \<Longrightarrow> Ramp (Gen (cfg e)) > 0 \<Longrightarrow> 0 \<le> elapsed \<Longrightarrow>
    ramp_tick (Rate (Gen (cfg e))) (Ramp (Gen (cfg e))) elapsed = (r, fin) \<Longrightarrow>
    step X (e, ws) (e\<lparr>limiter_of := Some (l\<lparr>lim_rate := r\<rparr>), met := (met e)\<lparr>TargetRate := r\<rparr>\<rparr>, ws)"
| sample: "\<not> crashed e \<Longrightarrow>
    step X (e, ws) (e\<lparr>met := (met e)\<lparr>AchievedRate := sample_rate (prevSent e) (sent e)\<rparr>, prevSent := sent e\<rparr>, ws)"

definition new_worker :: "Engine \<Rightarrow> int \<Rightarrow> worker" where
  "new_worker e w =
     \<lparr>w_pc = Top,
      w_gen = NewGenerator (catalog e) (seedFor (Seed (cfg e)) (HostID (cfg e)) w)
        (SpansPerTraceMin (Gen (cfg e))) (SpansPerTraceMax (Gen (cfg e)))
        (ErrorRate (Gen (cfg e))) (EventRate (Gen (cfg e))),
      w_td = []\<rparr>"

text \<open>\<open>Run\<close>: one worker per configured goroutine, or per \<open>GOMAXPROCS\<close>.\<close>

definition worker_count :: "int \<Rightarrow> Config \<Rightarrow> nat" where
  "worker_count gomaxprocs c = nat (if Workers (Gen c) \<le> 0 then gomaxprocs else Workers (Gen c))"

definition Run :: "int \<Rightarrow> Engine \<Rightarrow> world" where
  "Run gomaxprocs e = (e, map (\<lambda>w. new_worker e (int w)) [0 ..< worker_count gomaxprocs (cfg e)])"

text \<open>The states that a run of the configuration can be in.\<close>

definition started :: "int \<Rightarrow> Config \<Rightarrow> world \<Rightarrow> bool" where
  "started gomaxprocs c s \<longleftrightarrow> (\<exists>e. New c = Some e \<and> s = Run gomaxprocs e)"

inductive reach :: "('s \<Rightarrow> bool) \<Rightarrow> ('s \<Rightarrow> 's \<Rightarrow> bool) \<Rightarrow> 's \<Rightarrow> bool" for init stp where
  reach_init: "init s \<Longrightarrow> reach init stp s"
| reach_step: "reach init stp s \<Longrightarrow> stp s s' \<Longrightarrow> reach init stp s'"

abbreviation running :: "externals \<Rightarrow> int \<Rightarrow> Config \<Rightarrow> world \<Rightarrow> bool" where
  "running X gomaxprocs c \<equiv> reach (started gomaxprocs c) (step X)"

end
