(* ===== verification/EngineInv.thy ===== *)
theory EngineInv
  imports Engine
begin

text \<open>
  Invariants of a run. A locale states what an inductive invariant is; each invariant of the engine is
  an interpretation. The balances count, for a counter, what the workers are about to add to it.
\<close>

section \<open>Inductive invariants\<close>

locale run_invariant =
  fixes init :: "'s \<Rightarrow> bool" and stp :: "'s \<Rightarrow> 's \<Rightarrow> bool" and I :: "'s \<Rightarrow> bool"
  assumes at_start: "init s \<Longrightarrow> I s"
    and kept: "reach init stp s \<Longrightarrow> I s \<Longrightarrow> stp s s' \<Longrightarrow> I s'"
begin

lemma holds: "reach init stp s \<Longrightarrow> I s"
  by (induction rule: reach.induct) (auto intro: at_start kept)

end

text \<open>The configuration never changes, nor does what \<open>New\<close> derives from it.\<close>

inductive_cases wstepE: "wstep X e w e' w'"
inductive_cases stepE: "step X (e, ws) (e', ws')"

lemma wstep_config:
  "wstep X e w e' w' \<Longrightarrow> cfg e' = cfg e \<and> catalog e' = catalog e \<and> batch e' = batch e
     \<and> limiter_of e' = limiter_of e \<and> prevSent e' = prevSent e"
  by (erule wstep.cases) auto

definition configured :: "int \<Rightarrow> Config \<Rightarrow> world \<Rightarrow> bool" where
  "configured gmp c s \<longleftrightarrow> (\<exists>e0. New c = Some e0 \<and> cfg (fst s) = c \<and> catalog (fst s) = catalog e0
     \<and> batch (fst s) = EffectiveBatchSize c \<and> length (snd s) = worker_count gmp c
     \<and> map_option lim_burst (limiter_of (fst s)) = map_option lim_burst (limiter_of e0))"

lemma New_fields:
  assumes "New c = Some e"
  shows "cfg e = c" "batch e = EffectiveBatchSize c" "generated e = 0" "sent e = 0" "errors e = 0"
    "sends e = []" "\<not> cancelled e" "\<not> crashed e" "prevSent e = 0"
    "BuildCatalog (Services (Gen c)) ''spangen'' ''1.0.0'' (Seed c) = Some (catalog e)"
    "Inflight (met e) = 0" "SpansGenerated (met e) = 0" "SpansSent (met e) = 0" "DroppedSpans (met e) = 0"
    "BatchesOK (met e) = 0" "BatchesErr (met e) = 0" "SendErrors (met e) = 0"
    "map_option lim_burst (limiter_of e)
       = (if f_less (Finite 0) (Rate (Gen c)) then Some (wrap64 (EffectiveBatchSize c + SpansPerTraceMax (Gen c) + 64)) else None)"
    "SendDuration (met e) = 0"
  using assms by (auto simp: New_def Let_def metrics0_def elim!: bind_eq_SomeE split: if_splits)

lemma startedE:
  assumes "started gmp c (e, ws)"
  obtains "New c = Some e" and "ws = map (\<lambda>w. new_worker e (int w)) [0 ..< worker_count gmp c]"
  using assms New_fields(1) by (auto simp: started_def Run_def)

interpretation configured: run_invariant "started gmp c" "step X" "configured gmp c" for gmp c X
proof
  fix s
  assume "started gmp c s"
  then show "configured gmp c s"
    by (cases s) (auto simp: configured_def New_fields elim!: startedE)
next
  fix s s'
  assume "configured gmp c s" "step X s s'"
  then show "configured gmp c s'"
    by (auto simp: configured_def elim!: step.cases dest!: wstep_config)
qed

section \<open>Balances\<close>

definition total_of :: "(pc \<Rightarrow> int) \<Rightarrow> worker list \<Rightarrow> int" where
  "total_of f ws = (\<Sum>w \<leftarrow> ws. f (w_pc w))"

lemma total_update [simp]:
  "i < length ws \<Longrightarrow> total_of f (ws[i := w]) = total_of f ws - f (w_pc (ws ! i)) + f (w_pc w)"
  by (simp add: total_of_def sum_list_map_update)

lemma total_start: "(\<And>w. w \<in> set ws \<Longrightarrow> f (w_pc w) = 0) \<Longrightarrow> total_of f ws = 0"
  unfolding total_of_def by (induction ws) auto

lemma new_workers_top: "w \<in> set (map (\<lambda>w. new_worker e (int w)) [0 ..< k]) \<Longrightarrow> w_pc w = Top"
  by (auto simp: new_worker_def)

text \<open>The counted spans that a worker has in hand.\<close>

fun held :: "pc \<Rightarrow> int" where
  "held (CancelRun n) = n"
| "held (MetGenerated n) = n"
| "held (WaitLimiter n) = n"
| "held (Recheck n) = n"
| "held (BeginSend n) = n"
| "held (Attempt n k) = n"
| "held (Observe n k ok) = n"
| "held (MetBatchOK n) = n"
| "held (MetSent n) = n"
| "held (AddSent n) = n"
| "held (MetSendError n k) = n"
| "held (CheckRetry n k) = n"
| "held (MetBatchErr n) = n"
| "held (MetDropped n) = n"
| "held (AddErrors n) = n"
| "held (Returned n) = n"
| "held _ = 0"

definition conserved :: "world \<Rightarrow> bool" where
  "conserved s \<longleftrightarrow> generated (fst s) = sent (fst s) + errors (fst s) + word_of_int (total_of held (snd s))"

lemma wstep_conserved:
  "wstep X e w e' w' \<Longrightarrow> generated e' - sent e' - errors e' - word_of_int (held (w_pc w'))
     = generated e - sent e - errors e - word_of_int (held (w_pc w))"
  by (erule wstep.cases) auto

interpretation conserved: run_invariant "started gmp c" "step X" conserved for gmp c X
proof
  fix s
  assume "started gmp c s"
  then obtain e ws where s: "s = (e, ws)" "New c = Some e"
      "ws = map (\<lambda>w. new_worker e (int w)) [0 ..< worker_count gmp c]"
    by (cases s) (auto elim: startedE)
  then have "total_of held ws = 0"
    by (intro total_start) (metis held.simps(17) new_workers_top)
  with s show "conserved s"
    by (simp add: conserved_def New_fields)
next
  fix s s'
  assume s: "conserved s" "step X s s'"
  from s(2,1) show "conserved s'"
  proof cases
    case (worker e i ws e' w')
    with s(1) wstep_conserved [OF worker(5)] show ?thesis
      by (simp add: conserved_def algebra_simps)
  qed (auto simp: conserved_def)
qed

section \<open>Metrics\<close>

text \<open>A worker inside \<open>send\<close>, and what it is about to add to each counter.\<close>

fun in_send :: "pc \<Rightarrow> int" where
  "in_send (Attempt n k) = 1"
| "in_send (Observe n k ok) = 1"
| "in_send (MetBatchOK n) = 1"
| "in_send (MetSent n) = 1"
| "in_send (AddSent n) = 1"
| "in_send (MetSendError n k) = 1"
| "in_send (CheckRetry n k) = 1"
| "in_send (MetBatchErr n) = 1"
| "in_send (MetDropped n) = 1"
| "in_send (AddErrors n) = 1"
| "in_send (LogError n) = 1"
| "in_send EndSend = 1"
| "in_send _ = 0"

fun due_generated :: "pc \<Rightarrow> int" where
  "due_generated (CancelRun n) = n" | "due_generated (MetGenerated n) = n" | "due_generated _ = 0"

fun due_sent :: "pc \<Rightarrow> int" where
  "due_sent (AddSent n) = n" | "due_sent _ = 0"

fun due_errors :: "pc \<Rightarrow> int" where
  "due_errors (AddErrors n) = n" | "due_errors _ = 0"

fun due_ok :: "pc \<Rightarrow> int" where
  "due_ok (MetBatchOK n) = 1" | "due_ok (Observe n k ok) = (if ok then 1 else 0)" | "due_ok _ = 0"

fun due_failed :: "pc \<Rightarrow> int" where
  "due_failed (MetSendError n k) = 1" | "due_failed (Observe n k ok) = (if ok then 0 else 1)" | "due_failed _ = 0"

fun due_observed :: "pc \<Rightarrow> int" where
  "due_observed (Observe n k ok) = 1" | "due_observed _ = 0"

definition successes :: "(Traces \<times> bool) list \<Rightarrow> int" where
  "successes xs = int (length (filter snd xs))"

definition failures :: "(Traces \<times> bool) list \<Rightarrow> int" where
  "failures xs = int (length (filter (Not \<circ> snd) xs))"

definition metrics_agree :: "world \<Rightarrow> bool" where
  "metrics_agree s \<longleftrightarrow>
     (let e = fst s; m = met e; ws = snd s
      in Inflight m = total_of in_send ws
       \<and> generated e = word_of_int (SpansGenerated m + total_of due_generated ws)
       \<and> sent e + word_of_int (total_of due_sent ws) = word_of_int (SpansSent m)
       \<and> errors e + word_of_int (total_of due_errors ws) = word_of_int (DroppedSpans m)
       \<and> successes (sends e) = BatchesOK m + total_of due_ok ws
       \<and> failures (sends e) = SendErrors m + total_of due_failed ws
       \<and> int (length (sends e)) = SendDuration m + total_of due_observed ws)"

lemma wstep_inflight:
  "wstep X e w e' w' \<Longrightarrow>
     Inflight (met e') - in_send (w_pc w') = Inflight (met e) - in_send (w_pc w)"
  by (erule wstep.cases) (auto)

lemma wstep_generated:
  "wstep X e w e' w' \<Longrightarrow>
     generated e' - word_of_int (SpansGenerated (met e') + due_generated (w_pc w'))
       = generated e - word_of_int (SpansGenerated (met e) + due_generated (w_pc w))"
  by (erule wstep.cases) (auto)

lemma wstep_sent:
  "wstep X e w e' w' \<Longrightarrow>
     sent e' + word_of_int (due_sent (w_pc w')) - word_of_int (SpansSent (met e'))
       = sent e + word_of_int (due_sent (w_pc w)) - word_of_int (SpansSent (met e))"
  by (erule wstep.cases) (auto)

lemma wstep_errors:
  "wstep X e w e' w' \<Longrightarrow>
     errors e' + word_of_int (due_errors (w_pc w')) - word_of_int (DroppedSpans (met e'))
       = errors e + word_of_int (due_errors (w_pc w)) - word_of_int (DroppedSpans (met e))"
  by (erule wstep.cases) (auto)

lemma wstep_successes:
  "wstep X e w e' w' \<Longrightarrow>
     successes (sends e') - BatchesOK (met e') - due_ok (w_pc w')
       = successes (sends e) - BatchesOK (met e) - due_ok (w_pc w)"
  by (erule wstep.cases) (auto simp: successes_def)

lemma wstep_failures:
  "wstep X e w e' w' \<Longrightarrow>
     failures (sends e') - SendErrors (met e') - due_failed (w_pc w')
       = failures (sends e) - SendErrors (met e) - due_failed (w_pc w)"
  by (erule wstep.cases) (auto simp: failures_def)

lemma wstep_observed:
  "wstep X e w e' w' \<Longrightarrow>
     int (length (sends e')) - SendDuration (met e') - due_observed (w_pc w')
       = int (length (sends e)) - SendDuration (met e) - due_observed (w_pc w)"
  by (erule wstep.cases) auto

lemmas wstep_metrics =
  wstep_inflight wstep_generated wstep_sent wstep_errors wstep_successes wstep_failures wstep_observed

interpretation metrics_agree: run_invariant "started gmp c" "step X" metrics_agree for gmp c X
proof
  fix s
  assume "started gmp c s"
  then obtain e ws where s: "s = (e, ws)" "New c = Some e"
      "ws = map (\<lambda>w. new_worker e (int w)) [0 ..< worker_count gmp c]"
    by (cases s) (auto elim: startedE)
  then have top: "w_pc w = Top" if "w \<in> set ws" for w
    using that new_workers_top by metis
  have "f Top = 0 \<Longrightarrow> total_of f ws = 0" for f
    by (rule total_start) (simp add: top)
  then show "metrics_agree s"
    using s(1,2) by (simp add: metrics_agree_def New_fields successes_def failures_def Let_def)
next
  fix s s'
  assume s: "metrics_agree s" "step X s s'"
  from s(2,1) show "metrics_agree s'"
  proof cases
    case (worker e i ws e' w')
    note b = s(1) [unfolded worker metrics_agree_def Let_def fst_conv snd_conv]
    note d = wstep_metrics [OF worker(5)]
    have "Inflight (met e') = total_of in_send (ws[i := w'])"
      "generated e' = word_of_int (SpansGenerated (met e') + total_of due_generated (ws[i := w']))"
      "successes (sends e') = BatchesOK (met e') + total_of due_ok (ws[i := w'])"
      "failures (sends e') = SendErrors (met e') + total_of due_failed (ws[i := w'])"
      "int (length (sends e')) = SendDuration (met e') + total_of due_observed (ws[i := w'])"
      using b d(1,2,5-7) worker(4) by (simp_all add: algebra_simps)
    moreover have "sent e' + word_of_int (total_of due_sent (ws[i := w'])) = word_of_int (SpansSent (met e'))"
      "errors e' + word_of_int (total_of due_errors (ws[i := w'])) = word_of_int (DroppedSpans (met e'))"
      using balance_step [OF _ d(3)] balance_step [OF _ d(4)] b worker(4) by simp_all
    ultimately show ?thesis
      using worker by (simp add: metrics_agree_def Let_def)
  qed (auto simp: metrics_agree_def Let_def)
qed

section \<open>What a worker holds\<close>

text \<open>What the environment must give: the library, and a configuration of Go integers.\<close>

definition runnable :: "externals \<Rightarrow> Config \<Rightarrow> bool" where
  "runnable X c \<longleftrightarrow> lib_ok (xlib X) \<and> valid_config c \<and> Services (Gen c) \<le> 2 ^ 41
     \<and> SpansPerTraceMax (Gen c) < 2 ^ 63"

fun pc_batch :: "pc \<Rightarrow> int option" where
  "pc_batch Top = None"
| "pc_batch (Count n) = Some n"
| "pc_batch (CancelRun n) = Some n"
| "pc_batch (MetGenerated n) = Some n"
| "pc_batch (WaitLimiter n) = Some n"
| "pc_batch (Recheck n) = Some n"
| "pc_batch (BeginSend n) = Some n"
| "pc_batch (Attempt n k) = Some n"
| "pc_batch (Observe n k ok) = Some n"
| "pc_batch (MetBatchOK n) = Some n"
| "pc_batch (MetSent n) = Some n"
| "pc_batch (AddSent n) = Some n"
| "pc_batch (MetSendError n k) = Some n"
| "pc_batch (CheckRetry n k) = Some n"
| "pc_batch (MetBatchErr n) = Some n"
| "pc_batch (MetDropped n) = Some n"
| "pc_batch (AddErrors n) = Some n"
| "pc_batch (LogError n) = Some n"
| "pc_batch EndSend = None"
| "pc_batch (Returned n) = None"

fun pc_try :: "pc \<Rightarrow> nat" where
  "pc_try (Attempt n k) = k" | "pc_try (Observe n k ok) = k" | "pc_try (MetSendError n k) = k" | "pc_try (CheckRetry n k) = k" | "pc_try _ = 0"

definition worker_ok :: "lib \<Rightarrow> int \<Rightarrow> worker \<Rightarrow> bool" where
  "worker_ok L b w \<longleftrightarrow> gen_ok L (w_gen w)
     \<and> (\<forall>n. pc_batch (w_pc w) = Some n \<longrightarrow> n = max 0 b \<and> int (total_spans (w_td w)) = n)
     \<and> (\<forall>n. w_pc w = Returned n \<longrightarrow> n = 0 \<or> n = max 0 b)
     \<and> pc_try (w_pc w) < sendAttempts"

lemma wstep_worker_ok:
  assumes step: "wstep X e w e' w'" and ok: "worker_ok (xlib X) (batch e) w"
  shows "worker_ok (xlib X) (batch e) w'"
proof -
  have gen: "gen_ok (xlib X) (w_gen w)"
    using ok by (simp add: worker_ok_def)
  from step show ?thesis
  proof cases
    case (fill n g td)
    with FillBatch_counts [OF gen, of "batch e"] ok show ?thesis
      by (auto simp: worker_ok_def sendAttempts_def)
  qed (use ok in \<open>auto simp: worker_ok_def sendAttempts_def\<close>)
qed

lemma fill_returns:
  "worker_ok (xlib X) b w \<Longrightarrow> FillBatch (xlib X) (w_gen w) [] target \<noteq> None"
  using FillBatch_counts [of "xlib X" "w_gen w" target] by (auto simp: worker_ok_def)

definition workers_ok :: "externals \<Rightarrow> world \<Rightarrow> bool" where
  "workers_ok X s \<longleftrightarrow> (\<forall>w \<in> set (snd s). worker_ok (xlib X) (batch (fst s)) w)"

lemma new_worker_ok:
  assumes "runnable X c" and "New c = Some e"
  shows "worker_ok (xlib X) b (new_worker e i)"
proof -
  have "catalog_ok (catalog e) \<and> int (length (services (catalog e))) = Services (Gen c)"
    using BuildCatalog_opost [of "Services (Gen c)" "''spangen''" "''1.0.0''" "Seed c"] New_fields(10) [OF assms(2)]
      assms(1) by (auto simp: runnable_def valid_config_def)
  then show ?thesis
    using assms by (auto simp: worker_ok_def new_worker_def gen_ok_def NewGenerator_def runnable_def
        valid_config_def New_fields sendAttempts_def)
qed

interpretation workers_ok: run_invariant "started gmp c" "step X" "\<lambda>s. runnable X c \<longrightarrow> workers_ok X s"
  for gmp c X
proof
  fix s
  assume "started gmp c s"
  then show "runnable X c \<longrightarrow> workers_ok X s"
    by (cases s) (auto simp: workers_ok_def new_worker_ok elim!: startedE)
next
  fix s s'
  assume ok: "runnable X c \<longrightarrow> workers_ok X s" and st: "step X s s'"
  show "runnable X c \<longrightarrow> workers_ok X s'"
  proof
    assume "runnable X c"
    with ok have "workers_ok X s" by blast
    with st show "workers_ok X s'"
    proof (cases rule: step.cases)
      case (worker e i ws e' w')
      have "batch e' = batch e"
        using wstep_config [OF worker(5)] by simp
      then show ?thesis
        using worker \<open>workers_ok X s\<close> wstep_worker_ok [OF worker(5)]
        by (auto simp: workers_ok_def dest!: set_update_subset_insert [THEN subsetD])
    qed (auto simp: workers_ok_def)
  qed
qed

section \<open>The span cap\<close>

text \<open>
  \<open>passed\<close>: spans of batches beyond the second look at the context; \<open>waiting\<close>: counted, before it;
  \<open>stuck\<close>: counted, on the way to stopping the run or left behind. \<open>crossed\<close>: workers that will not
  count another batch, given whether the context is cancelled.
\<close>

fun passed :: "pc \<Rightarrow> int" where
  "passed (BeginSend n) = n"
| "passed (Attempt n k) = n"
| "passed (Observe n k ok) = n"
| "passed (MetBatchOK n) = n"
| "passed (MetSent n) = n"
| "passed (AddSent n) = n"
| "passed (MetSendError n k) = n"
| "passed (CheckRetry n k) = n"
| "passed (MetBatchErr n) = n"
| "passed (MetDropped n) = n"
| "passed (AddErrors n) = n"
| "passed _ = 0"

fun waiting :: "pc \<Rightarrow> int" where
  "waiting (MetGenerated n) = n" | "waiting (WaitLimiter n) = n" | "waiting (Recheck n) = n" | "waiting _ = 0"

fun stuck :: "pc \<Rightarrow> int" where
  "stuck (CancelRun n) = n" | "stuck (Returned n) = n" | "stuck _ = 0"

fun crossed :: "bool \<Rightarrow> pc \<Rightarrow> int" where
  "crossed c (CancelRun n) = 1"
| "crossed c (MetGenerated n) = (if c then 1 else 0)"
| "crossed c (WaitLimiter n) = (if c then 1 else 0)"
| "crossed c (Recheck n) = (if c then 1 else 0)"
| "crossed c (Returned n) = (if c then 1 else 0)"
| "crossed c _ = 0"

text \<open>
  The invariant, for one worker among others whose totals are \<open>p\<close>, \<open>m\<close>, \<open>d\<close> and \<open>cr\<close>: with cap \<open>M\<close> and
  batch \<open>B\<close>.
\<close>

definition capped_with :: "int \<Rightarrow> int \<Rightarrow> Engine \<Rightarrow> pc \<Rightarrow> int \<Rightarrow> int \<Rightarrow> int \<Rightarrow> (bool \<Rightarrow> int) \<Rightarrow> bool" where
  "capped_with M B e q p m d cr \<longleftrightarrow>
     uint (generated e) = uint (sent e) + uint (errors e) + (p + passed q) + (m + waiting q) + (d + stuck q)
     \<and> uint (sent e) + uint (errors e) + (p + passed q) < M
     \<and> (\<not> cancelled e \<longrightarrow> uint (sent e) + uint (errors e) + (p + passed q) + (m + waiting q) < M)
     \<and> (uint (generated e) < M \<or> uint (generated e) \<le> M - 1 + B * (cr (cancelled e) + crossed (cancelled e) q))"

lemma uint_add_small: "0 \<le> n \<Longrightarrow> uint (a :: u64) + n < 2 ^ 64 \<Longrightarrow> uint (a + word_of_int n) = uint a + n"
  by (simp add: uint_word_ariths unsigned_of_int take_bit_eq_mod) (metis uint_ge_0 add_nonneg_nonneg mod_pos_pos_trivial mod_add_right_eq)

lemma over_limit_iff:
  assumes "MaxSpans (Gen (cfg e)) < 2 ^ 64" and "0 < MaxSpans (Gen (cfg e))"
  shows "over_limit e t \<longleftrightarrow> int (MaxSpans (Gen (cfg e))) \<le> uint t"
  using assms by (simp add: over_limit_def word_le_def unsigned_of_nat take_bit_nat_eq_self)

lemma wstep_capped:
  assumes "wstep X e w e' w'" and "capped_with M B e (w_pc w) p m d cr"
    and "M = int (MaxSpans (Gen (cfg e)))" and "0 < M" and "0 \<le> p" "0 \<le> m" "0 \<le> d"
    and "cr False \<le> cr True" and "cr (cancelled e) \<le> W - 1" and "M + B * W < 2 ^ 64" and "0 \<le> B"
    and "0 \<le> cr (cancelled e)"
    and n: "\<And>n. pc_batch (w_pc w) = Some n \<Longrightarrow> n = B" and "\<And>n. w_pc w = Returned n \<Longrightarrow> 0 \<le> n"
  shows "capped_with M B e' (w_pc w') p m d cr"
proof -
  have "0 \<le> B * W"
    using assms(9,11,12) by simp
  then have M: "M < 2 ^ 64"
    using assms(10) by linarith
  from assms(1) show ?thesis
  proof cases
    case (count_spans n tot)
    note cap = assms(2) [unfolded capped_with_def count_spans(3) passed.simps waiting.simps stuck.simps crossed.simps]
    have "n = B"
      using n count_spans by simp
    have "B * cr (cancelled e) \<le> B * (W - 1)"
      using assms(9,11) by (rule mult_left_mono)
    then have small: "B * cr (cancelled e) + B \<le> B * W"
      by (simp add: algebra_simps)
    have gen: "uint (generated e) < M \<or> uint (generated e) \<le> M - 1 + B * cr (cancelled e)"
      using cap by auto
    moreover have "0 \<le> B * cr (cancelled e)"
      using assms(11,12) by simp
    ultimately have "uint (generated e) + B < 2 ^ 64"
      using small assms(10) by linarith
    then have tot: "uint tot = uint (generated e) + B"
      using count_spans(4) \<open>n = B\<close> assms(11) by (simp add: uint_add_small)
    have limit: "over_limit e tot \<longleftrightarrow> M \<le> uint tot"
      using M assms(3,4) by (simp add: over_limit_iff)
    show ?thesis
      using cap gen tot limit assms(5-7,11) \<open>n = B\<close> \<open>0 \<le> B * cr (cancelled e)\<close>
      by (auto simp: capped_with_def count_spans(1,2) distrib_left)
  next
    case (cancel_run n)
    note cap = assms(2) [unfolded capped_with_def cancel_run(3) passed.simps waiting.simps stuck.simps crossed.simps]
    have "B * cr (cancelled e) \<le> B * cr True"
      using assms(8,11) by (cases "cancelled e") (auto intro: mult_left_mono)
    with cap show ?thesis
      by (auto simp: capped_with_def cancel_run(1,2) distrib_left)
  next
    case (add_sent n)
    note cap = assms(2) [unfolded capped_with_def add_sent(3) passed.simps waiting.simps stuck.simps crossed.simps]
    have "n = B"
      using n add_sent by simp
    have "uint (sent e + word_of_int n) = uint (sent e) + n"
      using cap assms(5,11) M \<open>n = B\<close> uint_ge_0 [of "errors e"] by (intro uint_add_small) linarith+
    with cap show ?thesis
      by (auto simp: capped_with_def add_sent(1,2))
  next
    case (add_errors n)
    note cap = assms(2) [unfolded capped_with_def add_errors(3) passed.simps waiting.simps stuck.simps crossed.simps]
    have "n = B"
      using n add_errors by simp
    have "uint (errors e + word_of_int n) = uint (errors e) + n"
      using cap assms(5,11) M \<open>n = B\<close> uint_ge_0 [of "sent e"] by (intro uint_add_small) linarith+
    with cap show ?thesis
      by (auto simp: capped_with_def add_errors(1,2))
  next
    case (wait n l ok)
    note cap = assms(2) [unfolded capped_with_def wait(3) passed.simps waiting.simps stuck.simps crossed.simps]
    have "0 \<le> n"
      using n wait(3) assms(11) by simp
    with cap show ?thesis
      by (auto simp: capped_with_def wait(1,2))
  next
    case (recheck n)
    note cap = assms(2) [unfolded capped_with_def recheck(3) passed.simps waiting.simps stuck.simps crossed.simps]
    have "0 \<le> n"
      using n recheck(3) assms(11) by simp
    with cap assms(6) show ?thesis
      by (auto simp: capped_with_def recheck(1,2))
  qed (use assms(2,11) in \<open>auto simp: capped_with_def distrib_left\<close>)
qed

lemma total_others:
  assumes "i < length ws"
  shows "total_of f ws - f (w_pc (ws ! i)) = total_of f (take i ws @ drop (Suc i) ws)"
  by (subst (1) id_take_nth_drop [OF assms]) (simp add: total_of_def)

lemma others_subset: "set (take i ws @ drop (Suc i) ws) \<subseteq> set ws"
  by (auto dest: in_set_takeD in_set_dropD)

lemma total_nonneg: "(\<And>w. w \<in> set ws \<Longrightarrow> 0 \<le> f (w_pc w)) \<Longrightarrow> 0 \<le> total_of f ws"
  unfolding total_of_def by (induction ws) auto

lemma total_le: "(\<And>w. w \<in> set ws \<Longrightarrow> f (w_pc w) \<le> g (w_pc w)) \<Longrightarrow> total_of f ws \<le> total_of g ws"
  unfolding total_of_def by (intro sum_list_mono) simp

lemma total_one: "total_of (\<lambda>q. 1) ws = int (length ws)"
  by (simp add: total_of_def sum_list_triv)

lemma others_nonneg:
  "i < length ws \<Longrightarrow> (\<And>w. w \<in> set ws \<Longrightarrow> 0 \<le> f (w_pc w)) \<Longrightarrow> 0 \<le> total_of f ws - f (w_pc (ws ! i))"
proof -
  assume i: "i < length ws" and f: "\<And>w. w \<in> set ws \<Longrightarrow> 0 \<le> f (w_pc w)"
  have "0 \<le> total_of f (take i ws @ drop (Suc i) ws)"
    using others_subset [of i ws] by (intro total_nonneg f) blast
  then show ?thesis
    by (simp only: total_others [OF i])
qed

lemma crossed_range: "0 \<le> crossed c q" "crossed c q \<le> 1" "crossed False q \<le> crossed True q"
  by (cases q; simp)+

definition capped :: "int \<Rightarrow> int \<Rightarrow> world \<Rightarrow> bool" where
  "capped M B s \<longleftrightarrow>
     (let e = fst s; ws = snd s; out = uint (sent e) + uint (errors e) + total_of passed ws
      in uint (generated e) = out + total_of waiting ws + total_of stuck ws
       \<and> out < M \<and> (\<not> cancelled e \<longrightarrow> out + total_of waiting ws < M)
       \<and> (uint (generated e) < M \<or> uint (generated e) \<le> M - 1 + B * total_of (crossed (cancelled e)) ws))"

text \<open>The configurations in which the counter of generated spans cannot wrap before the run stops.\<close>

definition cap_fits :: "int \<Rightarrow> Config \<Rightarrow> bool" where
  "cap_fits gmp c \<longleftrightarrow> 0 < MaxSpans (Gen c)
     \<and> int (MaxSpans (Gen c)) + max 0 (EffectiveBatchSize c) * int (worker_count gmp c) < 2 ^ 64"

lemma worker_step_capped:
  assumes ok: "workers_ok X (e, ws)" and conf: "configured gmp c (e, ws)" and fits: "cap_fits gmp c"
    and i: "i < length ws" and st: "wstep X e (ws ! i) e' w'"
    and cap: "capped (int (MaxSpans (Gen c))) (max 0 (EffectiveBatchSize c)) (e, ws)"
  shows "capped (int (MaxSpans (Gen c))) (max 0 (EffectiveBatchSize c)) (e', ws[i := w'])"
proof -
  let ?M = "int (MaxSpans (Gen c))" and ?B = "max 0 (EffectiveBatchSize c)"
  let ?rest = "\<lambda>f. total_of f ws - f (w_pc (ws ! i))"
  have c: "cfg e = c" "batch e = EffectiveBatchSize c" "length ws = worker_count gmp c"
    using conf by (auto simp: configured_def)
  have wok: "worker_ok (xlib X) (EffectiveBatchSize c) w" if "w \<in> set ws" for w
    using ok that c(2) by (simp add: workers_ok_def)
  have pcs: "pc_batch (w_pc w) = Some n \<Longrightarrow> n = ?B" "w_pc w = Returned n \<Longrightarrow> 0 \<le> n" if "w \<in> set ws" for w n
    using wok [OF that] by (auto simp: worker_ok_def)
  have nonneg: "0 \<le> passed (w_pc w)" "0 \<le> waiting (w_pc w)" "0 \<le> stuck (w_pc w)" if "w \<in> set ws" for w
    using pcs [OF that] by (cases "w_pc w"; simp)+
  have cr: "?rest (crossed b) \<le> int (length ws) - 1" for b
  proof -
    have "?rest (crossed b) \<le> total_of (\<lambda>q. 1) (take i ws @ drop (Suc i) ws)"
      unfolding total_others [OF i] by (intro total_le) (rule crossed_range)
    also have "\<dots> = int (length ws) - 1"
      using i by (simp add: total_one)
    finally show ?thesis .
  qed
  have mono: "?rest (crossed False) \<le> ?rest (crossed True)"
    unfolding total_others [OF i] by (intro total_le) (rule crossed_range)
  have "capped_with ?M ?B e (w_pc (ws ! i)) (?rest passed) (?rest waiting) (?rest stuck) (\<lambda>b. ?rest (crossed b))"
    using cap by (auto simp: capped_def capped_with_def Let_def)
  then have "capped_with ?M ?B e' (w_pc w') (?rest passed) (?rest waiting) (?rest stuck) (\<lambda>b. ?rest (crossed b))"
  proof (rule wstep_capped [OF st])
    show "?M + ?B * int (length ws) < 2 ^ 64"
      using fits c(3) by (simp add: cap_fits_def)
    show "?rest (crossed (cancelled e)) \<le> int (length ws) - 1" "?rest (crossed False) \<le> ?rest (crossed True)"
      using cr mono .
    show "0 \<le> ?rest (crossed (cancelled e))"
      using i by (intro others_nonneg crossed_range)
    show "0 < ?M"
      using fits by (simp add: cap_fits_def)
    show "pc_batch (w_pc (ws ! i)) = Some n \<Longrightarrow> n = ?B" for n
      by (rule pcs(1) [OF nth_mem [OF i]])
    show "w_pc (ws ! i) = Returned n \<Longrightarrow> 0 \<le> n" for n
      by (rule pcs(2) [OF nth_mem [OF i]])
    show "0 \<le> ?rest passed" "0 \<le> ?rest waiting" "0 \<le> ?rest stuck"
      by (rule others_nonneg [OF i], erule nonneg)+
  qed (simp_all add: c(1))
  then show ?thesis
    unfolding capped_def capped_with_def Let_def fst_conv snd_conv total_update [OF i] .
qed

interpretation capped: run_invariant "started gmp c" "step X"
  "\<lambda>s. runnable X c \<longrightarrow> cap_fits gmp c \<longrightarrow> capped (int (MaxSpans (Gen c))) (max 0 (EffectiveBatchSize c)) s"
  for gmp c X
proof (standard; intro impI)
  fix s
  assume "started gmp c s" "cap_fits gmp c"
  then obtain e ws where s: "s = (e, ws)" "New c = Some e"
      "ws = map (\<lambda>w. new_worker e (int w)) [0 ..< worker_count gmp c]"
    by (cases s) (auto elim: startedE)
  then have "w_pc w = Top" if "w \<in> set ws" for w
    using that new_workers_top by metis
  then have "f Top = 0 \<Longrightarrow> total_of f ws = 0" for f
    by (intro total_start) simp
  with s \<open>cap_fits gmp c\<close> show "capped (int (MaxSpans (Gen c))) (max 0 (EffectiveBatchSize c)) s"
    by (simp add: capped_def New_fields cap_fits_def Let_def)
next
  fix s s'
  assume r: "running X gmp c s" and run: "runnable X c" and fits: "cap_fits gmp c" and st: "step X s s'"
    and "runnable X c \<longrightarrow> cap_fits gmp c \<longrightarrow> capped (int (MaxSpans (Gen c))) (max 0 (EffectiveBatchSize c)) s"
  then have cap: "capped (int (MaxSpans (Gen c))) (max 0 (EffectiveBatchSize c)) s"
    by blast
  have ok: "workers_ok X s" "configured gmp c s"
    using workers_ok.holds [OF r] configured.holds [OF r] run by blast+
  from st cap ok show "capped (int (MaxSpans (Gen c))) (max 0 (EffectiveBatchSize c)) s'"
  proof (cases rule: step.cases)
    case (worker e i ws e' w')
    then show ?thesis
      using cap ok by (auto intro: worker_step_capped [OF _ _ fits])
  next
    case (cancel e ws)
    have "total_of (crossed (cancelled e)) ws \<le> total_of (crossed True) ws"
      by (cases "cancelled e") (auto intro: total_le crossed_range)
    then have "max 0 (EffectiveBatchSize c) * total_of (crossed (cancelled e)) ws
        \<le> max 0 (EffectiveBatchSize c) * total_of (crossed True) ws"
      by (intro mult_left_mono) simp_all
    with cap show ?thesis
      by (auto simp: capped_def Let_def cancel)
  qed (auto simp: capped_def Let_def)
qed

section \<open>What was delivered, and how often it was tried\<close>

text \<open>The spans of the batches for which \<open>Sink.Send\<close> returned nil.\<close>

definition delivered :: "(Traces \<times> bool) list \<Rightarrow> int" where
  "delivered xs = (\<Sum>x \<leftarrow> filter snd xs. int (total_spans (fst x)))"

fun due_delivered :: "pc \<Rightarrow> int" where
  "due_delivered (MetBatchOK n) = n" | "due_delivered (MetSent n) = n" | "due_delivered (Observe n k ok) = (if ok then n else 0)" | "due_delivered _ = 0"

text \<open>
  A batch offered to the sink, with the outcomes of its calls of \<open>Send\<close> in their order: it was delivered by the last
  call, or given up on.
\<close>

type_synonym offer = "Traces \<times> bool list"

definition offer_ok :: "offer \<Rightarrow> bool" where
  "offer_ok b \<longleftrightarrow> snd b \<in> {[True], [False, True], [False], [False, False]}"

definition gave_up :: "offer \<Rightarrow> bool" where
  "gave_up b \<longleftrightarrow> True \<notin> set (snd b)"

definition calls_for :: "offer \<Rightarrow> (Traces \<times> bool) list" where
  "calls_for b = map (Pair (fst b)) (snd b)"

text \<open>The outcomes so far for the batch in hand, until it is delivered or given up on.\<close>

fun tried :: "pc \<Rightarrow> bool list" where
  "tried (Attempt n k) = replicate k False"
| "tried (Observe n k ok) = replicate k False @ [ok]"
| "tried (MetSendError n k) = replicate (k + 1) False"
| "tried (CheckRetry n k) = replicate (k + 1) False"
| "tried _ = []"

definition in_flight :: "worker \<Rightarrow> (Traces \<times> bool) multiset" where
  "in_flight w = mset (calls_for (w_td w, tried (w_pc w)))"

fun at_ok :: "pc \<Rightarrow> int" where
  "at_ok (MetBatchOK n) = 1" | "at_ok _ = 0"

fun at_err :: "pc \<Rightarrow> int" where
  "at_err (MetBatchErr n) = 1" | "at_err _ = 0"

fun due_dropped :: "pc \<Rightarrow> int" where
  "due_dropped (MetBatchErr n) = n" | "due_dropped (MetDropped n) = n" | "due_dropped _ = 0"

text \<open>The calls are those of the finished offers and of the batches in hand; the metrics count the finished offers.\<close>

definition accounted :: "offer list \<Rightarrow> Engine \<Rightarrow> (Traces \<times> bool) multiset \<Rightarrow> int \<Rightarrow> int \<Rightarrow> int \<Rightarrow> bool" where
  "accounted bs e hand ok er dr \<longleftrightarrow> (\<forall>b \<in> set bs. offer_ok b)
     \<and> mset (sends e) = mset (concat (map calls_for bs)) + hand
     \<and> BatchesOK (met e) + ok = int (length (filter (\<lambda>b. \<not> gave_up b) bs))
     \<and> BatchesErr (met e) + er = int (length (filter gave_up bs))
     \<and> DroppedSpans (met e) + dr = (\<Sum>b \<leftarrow> filter gave_up bs. int (total_spans (fst b)))"

definition sends_agree :: "world \<Rightarrow> bool" where
  "sends_agree s \<longleftrightarrow>
     (let e = fst s; ws = snd s
      in delivered (sends e) = SpansSent (met e) + total_of due_delivered ws
       \<and> (\<exists>bs. accounted bs e (\<Sum>w \<leftarrow> ws. in_flight w) (total_of at_ok ws) (total_of at_err ws) (total_of due_dropped ws)))"

lemma wstep_delivered:
  assumes "wstep X e w e' w'" and "worker_ok L b w"
  shows "delivered (sends e') - SpansSent (met e') - due_delivered (w_pc w')
     = delivered (sends e) - SpansSent (met e) - due_delivered (w_pc w)"
  using assms(1) by (rule wstep.cases) (use assms(2) in \<open>auto simp: delivered_def worker_ok_def\<close>)

lemmas offer_defs = offer_ok_def gave_up_def calls_for_def in_flight_def

text \<open>A step of a worker finishes at most one offer.\<close>

lemma wstep_offers:
  assumes "wstep X e w e' w'" and "worker_ok L b w"
  obtains d where "\<forall>b \<in> set d. offer_ok b"
    and "mset (sends e') + in_flight w = mset (sends e) + mset (concat (map calls_for d)) + in_flight w'"
    and "BatchesOK (met e') + at_ok (w_pc w') = BatchesOK (met e) + at_ok (w_pc w) + int (length (filter (\<lambda>b. \<not> gave_up b) d))"
    and "BatchesErr (met e') + at_err (w_pc w') = BatchesErr (met e) + at_err (w_pc w) + int (length (filter gave_up d))"
    and "DroppedSpans (met e') + due_dropped (w_pc w')
       = DroppedSpans (met e) + due_dropped (w_pc w) + (\<Sum>b \<leftarrow> filter gave_up d. int (total_spans (fst b)))"
  using assms(1)
proof cases
  case (observe n k ok)
  have "k = 0 \<or> k = 1"
    using assms(2) observe(3) by (auto simp: worker_ok_def sendAttempts_def)
  then show thesis
    by (intro that [of "if ok then [(w_td w, replicate k False @ [True])] else []"])
      (auto simp: observe offer_defs)
next
  case (check_retry n k)
  show thesis
  proof (cases "\<not> cancelled e \<and> k + 1 < sendAttempts")
    case True
    then show thesis
      by (intro that [of "[]"]) (auto simp: check_retry offer_defs)
  next
    case False
    have "k = 0 \<or> k = 1" "int (total_spans (w_td w)) = n"
      using assms(2) check_retry(3) by (auto simp: worker_ok_def sendAttempts_def)
    with False show thesis
      by (intro that [of "[(w_td w, replicate (k + 1) False)]"]) (auto simp: check_retry offer_defs)
  qed
qed (rule that [of "[]"]; simp add: offer_defs)+

lemma step_accounted:
  assumes "accounted bs e (\<Sum>w \<leftarrow> ws. in_flight w) (total_of at_ok ws) (total_of at_err ws) (total_of due_dropped ws)"
    and "wstep X e (ws ! i) e' w'" and "worker_ok L b (ws ! i)" and "i < length ws"
  shows "\<exists>bs'. accounted bs' e' (\<Sum>w \<leftarrow> ws[i := w']. in_flight w) (total_of at_ok (ws[i := w']))
     (total_of at_err (ws[i := w'])) (total_of due_dropped (ws[i := w']))"
proof -
  obtain d where d: "\<forall>b \<in> set d. offer_ok b"
    "mset (sends e') + in_flight (ws ! i) = mset (sends e) + mset (concat (map calls_for d)) + in_flight w'"
    "BatchesOK (met e') + at_ok (w_pc w') = BatchesOK (met e) + at_ok (w_pc (ws ! i)) + int (length (filter (\<lambda>b. \<not> gave_up b) d))"
    "BatchesErr (met e') + at_err (w_pc w') = BatchesErr (met e) + at_err (w_pc (ws ! i)) + int (length (filter gave_up d))"
    "DroppedSpans (met e') + due_dropped (w_pc w')
       = DroppedSpans (met e) + due_dropped (w_pc (ws ! i)) + (\<Sum>b \<leftarrow> filter gave_up d. int (total_spans (fst b)))"
    by (rule wstep_offers [OF assms(2,3)])
  obtain R where R: "(\<Sum>w \<leftarrow> ws. in_flight w) = R + in_flight (ws ! i)"
    "\<And>x. (\<Sum>w \<leftarrow> ws[i := x]. in_flight w) = R + in_flight x"
    using sum_list_map_rest [OF assms(4), of in_flight] by metis
  have "mset (sends e') + in_flight (ws ! i)
      = mset (concat (map calls_for (bs @ d))) + (R + in_flight w') + in_flight (ws ! i)"
    using assms(1) d(2) R(1) by (simp add: accounted_def ac_simps)
  then have "mset (sends e') = mset (concat (map calls_for (bs @ d))) + (R + in_flight w')"
    by (rule add_right_imp_eq)
  with assms(1) d show ?thesis
    by (intro exI [of _ "bs @ d"]) (auto simp: accounted_def R(2) total_update [OF assms(4)])
qed

interpretation sends_agree: run_invariant "started gmp c" "step X" "\<lambda>s. runnable X c \<longrightarrow> sends_agree s" for gmp c X
proof (standard; intro impI)
  fix s
  assume "started gmp c s"
  then obtain e ws where s: "s = (e, ws)" "New c = Some e"
      "ws = map (\<lambda>w. new_worker e (int w)) [0 ..< worker_count gmp c]"
    by (cases s) (auto elim: startedE)
  then have top: "w_pc w = Top" if "w \<in> set ws" for w
    using that new_workers_top by metis
  have z: "f Top = 0 \<Longrightarrow> total_of f ws = 0" for f
    by (intro total_start) (simp add: top)
  have "\<forall>w \<in> set ws. in_flight w = {#}"
    by (simp add: in_flight_def calls_for_def top)
  then have "(\<Sum>w \<leftarrow> ws. in_flight w) = {#}"
    by (induction ws) simp_all
  with s z show "sends_agree s"
    by (auto simp: sends_agree_def New_fields delivered_def Let_def accounted_def intro!: exI [of _ "[]"])
next
  fix s s'
  assume r: "running X gmp c s" and run: "runnable X c" and st: "step X s s'"
    and "runnable X c \<longrightarrow> sends_agree s"
  then have I: "sends_agree s" and ok: "workers_ok X s"
    using workers_ok.holds [OF r] by blast+
  from st I ok show "sends_agree s'"
  proof (cases rule: step.cases)
    case (worker e i ws e' w')
    have "worker_ok (xlib X) (batch e) (ws ! i)"
      using ok worker(1,4) by (simp add: workers_ok_def)
    from wstep_delivered [OF worker(5) this] step_accounted [OF _ worker(5) this worker(4)] I show ?thesis
      by (auto simp: sends_agree_def Let_def worker(1,2,4))
  qed (auto simp: sends_agree_def Let_def accounted_def)
qed

section \<open>No panic, and no worker stops early\<close>

definition modulus_ok :: "Config \<Rightarrow> bool" where
  "modulus_ok c \<longleftrightarrow> (word_of_int (EffectiveBatchSize c * 20) :: u64) \<noteq> 0"

lemma wstep_uncrashed:
  assumes "wstep X e w e' w'" and "worker_ok (xlib X) (batch e) w" and "(word_of_int (batch e * 20) :: u64) \<noteq> 0"
    and "\<not> crashed e"
  shows "\<not> crashed e'"
  using assms(1)
proof cases
  case fill_panic
  then show ?thesis
    using fill_returns [OF assms(2)] by simp
qed (use assms(3,4) in auto)

interpretation uncrashed: run_invariant "started gmp c" "step X"
  "\<lambda>s. runnable X c \<longrightarrow> modulus_ok c \<longrightarrow> \<not> crashed (fst s)" for gmp c X
proof (standard; intro impI)
  fix s
  assume "started gmp c s"
  then show "\<not> crashed (fst s)"
    by (cases s) (auto simp: New_fields elim!: startedE)
next
  fix s s'
  assume r: "running X gmp c s" and run: "runnable X c" and b: "modulus_ok c" and st: "step X s s'"
    and "runnable X c \<longrightarrow> modulus_ok c \<longrightarrow> \<not> crashed (fst s)"
  then have I: "\<not> crashed (fst s)" and ok: "workers_ok X s" and conf: "configured gmp c s"
    using workers_ok.holds [OF r] configured.holds [OF r] by blast+
  from st I show "\<not> crashed (fst s')"
  proof (cases rule: step.cases)
    case (worker e i ws e' w')
    have "worker_ok (xlib X) (batch e) (ws ! i)" "batch e = EffectiveBatchSize c"
      using ok conf worker(1,4) by (auto simp: workers_ok_def configured_def)
    with wstep_uncrashed [OF worker(5)] b worker show ?thesis
      by (simp add: modulus_ok_def)
  qed auto
qed

text \<open>\<open>WaitN\<close> fails only on a cancelled context or for more tokens than the burst.\<close>

definition waitN_ok :: "externals \<Rightarrow> bool" where
  "waitN_ok X \<longleftrightarrow> (\<forall>l stopped n. xwaitN X l stopped n False \<longrightarrow> stopped \<or> lim_burst l < n)"

text \<open>The sum of the limiter's burst is an \<open>int\<close>.\<close>

definition burst_fits :: "Config \<Rightarrow> bool" where
  "burst_fits c \<longleftrightarrow> EffectiveBatchSize c + SpansPerTraceMax (Gen c) + 64 < 2 ^ 63"

lemma New_burst:
  assumes "New c = Some e" and "limiter_of e = Some l" and "1 \<le> SpansPerTraceMax (Gen c)"
    and "- (2 ^ 63) \<le> EffectiveBatchSize c" and "burst_fits c"
  shows "lim_burst l = EffectiveBatchSize c + SpansPerTraceMax (Gen c) + 64"
  using New_fields(18) [OF assms(1)] assms(2-5) by (auto simp: burst_fits_def wrap64_id split: if_splits)

lemma waiting_steady:
  assumes "wstep X e w e' w'" and "worker_ok (xlib X) (batch e) w" and "waitN_ok X"
    and burst: "\<And>l. limiter_of e = Some l \<Longrightarrow> max 0 (batch e) \<le> lim_burst l"
    and "\<not> crashed e'" and "\<And>n. w_pc w = Returned n \<Longrightarrow> cancelled e"
  shows "w_pc w' = Returned n \<Longrightarrow> cancelled e'"
  using assms(1)
proof cases
  case (wait m l okay)
  assume ret: "w_pc w' = Returned n"
  have "m = max 0 (batch e)"
    using assms(2) wait(3) by (simp add: worker_ok_def)
  then have "\<not> lim_burst l < m"
    using burst [OF wait(4)] by (simp only: not_less)
  moreover have "xwaitN X l (cancelled e) m False"
    using wait(2,5) ret by (cases okay) simp_all
  ultimately show ?thesis
    using assms(3) wait(1) unfolding waitN_ok_def by blast
qed (use assms(5,6) in \<open>auto split: if_splits\<close>)

definition steady :: "world \<Rightarrow> bool" where
  "steady s \<longleftrightarrow> \<not> crashed (fst s) \<and> (\<forall>w \<in> set (snd s). \<forall>n. w_pc w = Returned n \<longrightarrow> cancelled (fst s))"

lemma wstep_cancelled: "wstep X e w e' w' \<Longrightarrow> cancelled e \<Longrightarrow> cancelled e'"
  by (erule wstep.cases) auto

interpretation steady: run_invariant "started gmp c" "step X"
  "\<lambda>s. runnable X c \<longrightarrow> waitN_ok X \<longrightarrow> modulus_ok c \<longrightarrow> 0 \<le> EffectiveBatchSize c \<longrightarrow> burst_fits c \<longrightarrow> steady s" for gmp c X
proof (standard; intro impI)
  fix s
  assume "started gmp c s"
  then show "steady s"
    by (cases s) (auto simp: steady_def New_fields new_worker_def elim!: startedE)
next
  fix s s'
  assume r: "running X gmp c s" and run: "runnable X c" "waitN_ok X" and b: "modulus_ok c" "0 \<le> EffectiveBatchSize c" "burst_fits c"
    and st: "step X s s'"
    and "runnable X c \<longrightarrow> waitN_ok X \<longrightarrow> modulus_ok c \<longrightarrow> 0 \<le> EffectiveBatchSize c \<longrightarrow> burst_fits c \<longrightarrow> steady s"
  then have I: "steady s" and ok: "workers_ok X s" and conf: "configured gmp c s"
    using workers_ok.holds [OF r] configured.holds [OF r] by blast+
  from st I show "steady s'"
  proof (cases rule: step.cases)
    case (worker e i ws e' w')
    have w: "worker_ok (xlib X) (batch e) (ws ! i)" "ws ! i \<in> set ws"
      using ok worker(1,4) by (simp_all add: workers_ok_def)
    obtain e0 where e0: "New c = Some e0" "batch e = EffectiveBatchSize c"
        "map_option lim_burst (limiter_of e) = map_option lim_burst (limiter_of e0)"
      using conf by (auto simp: configured_def worker(1))
    have max: "1 \<le> SpansPerTraceMax (Gen c)"
      using run(1) by (auto simp: runnable_def valid_config_def)
    have burst: "max 0 (batch e) \<le> lim_burst l" if l: "limiter_of e = Some l" for l
    proof -
      obtain l0 where "limiter_of e0 = Some l0" "lim_burst l0 = lim_burst l"
        using e0(3) l by (cases "limiter_of e0") auto
      then show ?thesis
        using New_burst [OF e0(1) _ max _ b(3)] b(2) e0(2) max by simp
    qed
    have "\<not> crashed e'"
      using uncrashed.holds [OF reach_step [OF r st]] run(1) b(1) worker(2) by simp
    then show ?thesis
      using I waiting_steady [OF worker(5) w(1) run(2) burst] wstep_cancelled [OF worker(5)] w(2)
      by (auto simp: steady_def worker(1,2) dest!: set_update_subset_insert [THEN subsetD])
  qed (auto simp: steady_def)
qed

end
