(* ===== verification/EngineProps.thy ===== *)
theory EngineProps
  imports EngineInv GeneratorProps ConfigProps
begin

text \<open>
  The properties of \<open>internal/generate\<close>: what \<open>New\<close> sets up, the accounting of spans over every
  interleaving of the workers, the span cap, shutdown, the ramp and the seeds.
\<close>

section \<open>Setting up\<close>

lemma New_Some:
  assumes "validate c = None" and "Services (Gen c) \<le> 2 ^ 41"
  obtains e where "New c = Some e" and "int (length (services (catalog e))) = Services (Gen c)" and "catalog_ok (catalog e)"
proof -
  have "0 \<le> Services (Gen c)"
    using assms(1) by (auto simp: validate_iff valid_config_def)
  then obtain cat where cat: "BuildCatalog (Services (Gen c)) ''spangen'' ''1.0.0'' (Seed c) = Some cat"
      "int (length (services cat)) = Services (Gen c)" "catalog_ok cat"
    using BuildCatalog_opost [of "Services (Gen c)" "''spangen''" "''1.0.0''" "Seed c"] assms(2) by (auto simp: opost_iff)
  then obtain e where e: "New c = Some e"
    by (simp add: New_def Let_def)
  with New_fields(10) [OF e] cat show thesis
    by (intro that [of e]) simp_all
qed

lemma New_None: "New c = None \<Longrightarrow> 1 \<le> Services (Gen c) \<Longrightarrow> 2 ^ 41 < Services (Gen c)"
proof (rule ccontr)
  assume c: "New c = None" "1 \<le> Services (Gen c)" "\<not> 2 ^ 41 < Services (Gen c)"
  then obtain cat where "BuildCatalog (Services (Gen c)) ''spangen'' ''1.0.0'' (Seed c) = Some cat"
    using BuildCatalog_opost [of "Services (Gen c)" "''spangen''" "''1.0.0''" "Seed c"] by (auto simp: opost_iff)
  with c(1) show False
    by (simp add: New_def Let_def)
qed

lemma New_bound: "New c = Some e \<Longrightarrow> Services (Gen c) \<le> 2 ^ 41"
  using New_fields(10) [of c e] BuildCatalog_bound by blast

text \<open>A burst that does not fit wraps around to less than a batch.\<close>

lemma wrap64_over: "2 ^ 63 \<le> x \<Longrightarrow> x < 2 ^ 63 + 2 ^ 64 \<Longrightarrow> wrap64 x = x - 2 ^ 64"
proof -
  assume x: "2 ^ 63 \<le> x" "x < 2 ^ 63 + 2 ^ 64"
  have "(word_of_int (x - 2 ^ 64) :: u64) = word_of_int x"
    unfolding word_of_int_eq_iff take_bit_eq_mod by simp
  then have "wrap64 x = wrap64 (x - 2 ^ 64)"
    unfolding wrap64_def by (rule arg_cong [OF sym])
  also have "\<dots> = x - 2 ^ 64"
    using x by (intro wrap64_id) simp_all
  finally show ?thesis .
qed

lemma New_burst_wraps:
  assumes "New c = Some e" and "limiter_of e = Some l" and "1 \<le> SpansPerTraceMax (Gen c)"
    and "EffectiveBatchSize c < 2 ^ 63" and "SpansPerTraceMax (Gen c) < 2 ^ 63" and "\<not> burst_fits c"
  shows "lim_burst l < EffectiveBatchSize c"
proof -
  let ?x = "EffectiveBatchSize c + SpansPerTraceMax (Gen c) + 64"
  have "wrap64 ?x = ?x - 2 ^ 64"
    using assms(4-6) by (intro wrap64_over) (simp_all add: burst_fits_def)
  moreover have "lim_burst l = wrap64 ?x"
    using New_fields(18) [OF assms(1)] assms(2) by (simp split: if_splits)
  ultimately show ?thesis
    using assms(5) by simp
qed



section \<open>A run to its end\<close>

definition sample_externals :: externals where
  "sample_externals = \<lparr>xlib = sample_lib, xwaitN = (\<lambda>l stopped n ok. ok = (\<not> stopped \<and> n \<le> lim_burst l))\<rparr>"

lemma sample_waitN: "waitN_ok sample_externals"
  by (auto simp: waitN_ok_def sample_externals_def)

lemma sample_runnable: "runnable sample_externals sample_config"
  by (auto simp: runnable_def sample_externals_def sample_lib_ok sample_config_def valid_config_def)

lemma sample_fits: "cap_fits 4 sample_config"
  by (simp add: cap_fits_def sample_config_def worker_count_def EffectiveBatchSize_def)

lemma run_first:
  assumes "running X gmp c (e, w # ws)" and "\<not> crashed e" and "wstep X e w e' w'" and "s = (e', w' # ws)"
  shows "running X gmp c s"
  using reach_step [OF assms(1) step.worker [where i = 0]] assms(2-4) by simp

lemma run_second:
  assumes "running X gmp c (e, v # w # ws)" and "\<not> crashed e" and "wstep X e w e' w'" and "s = (e', v # w' # ws)"
  shows "running X gmp c s"
  using reach_step [OF assms(1) step.worker [where i = 1]] assms(2-4) by simp

text \<open>
  With a cap of 100 spans and batches of 2000, the first worker counts its batch, cancels the run and
  ends with the batch in hand; the second one does not start.
\<close>

lemma sample_run:
  obtains e ws where "running sample_externals 4 sample_config (e, ws)" and "map w_pc ws = [Returned 2000, Returned 0]"
    and "cancelled e" and "generated e = 2000" and "SpansGenerated (met e) = 2000"
proof -
  let ?X = sample_externals
  have "Services (Gen sample_config) \<le> 2 ^ 41" "validate sample_config = None"
    by (simp_all add: validate_iff sample_config_def valid_config_def)
  then obtain e where e: "New sample_config = Some e"
    using New_Some by blast
  note f = New_fields [OF e]
  define w0 where "w0 = new_worker e 0"
  define w1 where "w1 = new_worker e 1"
  have top: "w_pc w0 = Top" "w_pc w1 = Top"
    by (simp_all add: w0_def w1_def new_worker_def)
  have "Run 4 e = (e, [w0, w1])"
    by (simp add: Run_def f worker_count_def sample_config_def w0_def w1_def upt_rec)
  then have r: "running ?X 4 sample_config (e, [w0, w1])"
    using e by (intro reach_init) (auto simp: started_def)
  have gen: "gen_ok (xlib ?X) (w_gen w0)"
    using new_worker_ok [OF sample_runnable e] by (simp add: w0_def worker_ok_def)
  obtain g td where fill: "FillBatch (xlib ?X) (w_gen w0) [] (batch e) = Some (2000, g, td)"
    using FillBatch_counts [OF gen, of "batch e"] f(2)
    by (auto simp: EffectiveBatchSize_def sample_config_def)
  obtain l where l: "limiter_of e = Some l" "lim_burst l = 2084"
    using f(18) by (auto simp: EffectiveBatchSize_def sample_config_def wrap64_id)
  let ?w = "\<lambda>q. w0\<lparr>w_pc := q, w_gen := g, w_td := td\<rparr>"
  let ?e1 = "e\<lparr>generated := generated e + word_of_int 2000\<rparr>"
  let ?e2 = "?e1\<lparr>cancelled := True\<rparr>"
  let ?e3 = "?e2\<lparr>met := (met ?e2)\<lparr>SpansGenerated := SpansGenerated (met ?e2) + 2000\<rparr>\<rparr>"
  have lim: "over_limit e (generated e + word_of_int 2000)"
    by (simp add: over_limit_def f) (simp add: sample_config_def)
  have "running ?X 4 sample_config (e, [?w (Count 2000), w1])"
    by (rule run_first [OF r _ wstep.fill [where n = 2000 and g = g and td = td]])
      (use f top fill in auto)
  then have "running ?X 4 sample_config (?e1, [?w (CancelRun 2000), w1])"
    by (rule run_first [OF _ _ wstep.count_spans [where n = 2000]]) (use f lim in auto)
  then have "running ?X 4 sample_config (?e2, [?w (MetGenerated 2000), w1])"
    by (rule run_first [OF _ _ wstep.cancel_run [where n = 2000]]) (use f in auto)
  then have "running ?X 4 sample_config (?e3, [?w (WaitLimiter 2000), w1])"
    by (rule run_first [OF _ _ wstep.met_generated [where n = 2000]]) (use f in auto)
  then have "running ?X 4 sample_config (?e3, [?w (Returned 2000), w1])"
    by (rule run_first [OF _ _ wstep.wait [where n = 2000 and l = l and ok = False]])
      (use f l in \<open>auto simp: sample_externals_def\<close>)
  then have "running ?X 4 sample_config (?e3, [?w (Returned 2000), w1\<lparr>w_pc := Returned 0\<rparr>])"
    by (rule run_second [OF _ _ wstep.stop]) (use f top in auto)
  then show thesis
    by (rule that) (use f in auto)
qed

section \<open>Accounting\<close>

lemma held_bounds:
  assumes "worker_ok L b w"
  shows "0 \<le> held (w_pc w)" and "held (w_pc w) \<le> max 0 b"
  using assms by (cases "w_pc w"; auto simp: worker_ok_def)+

text \<open>
  C3. No span is lost in the accounting: in every state of every run, the generated spans are those
  sent, those given up on, and those the workers still have in hand (in the arithmetic of \<open>uint64\<close>),
  and a worker never has more than one batch in hand.
\<close>

theorem spans_accounted:
  assumes "runnable X c" and "running X gmp c (e, ws)"
  shows "generated e = sent e + errors e + word_of_int (total_of held ws)
     \<and> (\<forall>w \<in> set ws. 0 \<le> held (w_pc w) \<and> held (w_pc w) \<le> max 0 (EffectiveBatchSize c))"
proof -
  have "batch e = EffectiveBatchSize c"
    using configured.holds [OF assms(2)] by (auto simp: configured_def)
  then have "\<forall>w \<in> set ws. worker_ok (xlib X) (EffectiveBatchSize c) w"
    using workers_ok.holds [OF assms(2)] assms(1) by (simp add: workers_ok_def)
  with conserved.holds [OF assms(2)] held_bounds show ?thesis
    by (auto simp: conserved_def)
qed

lemma spans_accounted_witness:
  "\<exists>e ws. running sample_externals 4 sample_config (e, ws) \<and> map w_pc ws = [Returned 2000, Returned 0]
     \<and> generated e = sent e + errors e + 2000"
proof -
  obtain e ws where r: "running sample_externals 4 sample_config (e, ws)" "map w_pc ws = [Returned 2000, Returned 0]"
    by (rule sample_run)
  have "total_of held ws = sum_list (map held (map w_pc ws))"
    by (simp add: total_of_def comp_def)
  with spans_accounted [OF sample_runnable r(1)] r show ?thesis
    by (intro exI [of _ e] exI [of _ ws]) simp
qed

text \<open>
  C4. With a span cap, the spans sent and the spans given up on stay below the cap at all times, and so
  does the count of generated spans up to one batch per worker: the batch that reaches the cap is never
  given to the sink.
\<close>

theorem span_cap:
  assumes "runnable X c" and "cap_fits gmp c" and "running X gmp c (e, ws)"
  shows "uint (sent e) + uint (errors e) < int (MaxSpans (Gen c))
     \<and> uint (generated e) < int (MaxSpans (Gen c)) + max 0 (EffectiveBatchSize c) * int (worker_count gmp c)"
proof -
  have cap: "capped (int (MaxSpans (Gen c))) (max 0 (EffectiveBatchSize c)) (e, ws)"
    using capped.holds [OF assms(3)] assms(1,2) by blast
  have conf: "batch e = EffectiveBatchSize c" "length ws = worker_count gmp c"
    using configured.holds [OF assms(3)] by (auto simp: configured_def)
  have "\<forall>w \<in> set ws. worker_ok (xlib X) (EffectiveBatchSize c) w"
    using workers_ok.holds [OF assms(3)] assms(1) conf(1) by (simp add: workers_ok_def)
  then have "0 \<le> passed (w_pc w)" if "w \<in> set ws" for w
    using that by (cases "w_pc w"; fastforce simp: worker_ok_def)
  then have "0 \<le> total_of passed ws"
    by (rule total_nonneg)
  moreover have "total_of (crossed (cancelled e)) ws \<le> int (worker_count gmp c)"
    using total_le [of ws "crossed (cancelled e)" "\<lambda>q. 1"] crossed_range(2) total_one conf(2) by simp
  then have "max 0 (EffectiveBatchSize c) * total_of (crossed (cancelled e)) ws
      \<le> max 0 (EffectiveBatchSize c) * int (worker_count gmp c)"
    by (rule mult_left_mono) simp
  moreover have "0 \<le> max 0 (EffectiveBatchSize c) * int (worker_count gmp c)"
    by (rule mult_nonneg_nonneg) simp_all
  ultimately show ?thesis
    using cap unfolding capped_def Let_def fst_conv snd_conv by linarith
qed

lemma span_cap_witness:
  "\<exists>e ws. running sample_externals 4 sample_config (e, ws) \<and> generated e = 2000 \<and> cancelled e
     \<and> uint (sent e) + uint (errors e) < 100"
proof -
  obtain e ws where r: "running sample_externals 4 sample_config (e, ws)" "cancelled e" "generated e = 2000"
    by (rule sample_run)
  have "MaxSpans (Gen sample_config) = 100"
    by (simp add: sample_config_def)
  with span_cap [OF sample_runnable sample_fits r(1)] r show ?thesis
    by auto
qed

definition quiet :: "worker list \<Rightarrow> bool" where
  "quiet ws \<longleftrightarrow> (\<forall>w \<in> set ws. \<exists>n. w_pc w = Returned n)"

lemma quiet_total: "quiet ws \<Longrightarrow> (\<And>n. f (Returned n) = 0) \<Longrightarrow> total_of f ws = 0"
  by (rule total_start) (auto simp: quiet_def)

text \<open>
  C10. When all workers have returned, the metrics agree with the engine's counters and with what the sink was given.
  No batch is in flight, every call of \<open>Send\<close> is timed and every failed one counted, and the calls are those of a list
  of batches, each of which was offered once, or a second time after one failure: it was delivered by its last call, or
  given up on after one or two failures. \<open>BatchesOK\<close> and \<open>SpansSent\<close> count the delivered ones and their spans,
  \<open>BatchesErr\<close> and \<open>DroppedSpans\<close> the others.
\<close>

theorem metrics_at_end:
  assumes "runnable X c" and "running X gmp c (e, ws)" and "quiet ws"
  shows "Inflight (met e) = 0
     \<and> generated e = word_of_int (SpansGenerated (met e))
     \<and> sent e = word_of_int (SpansSent (met e)) \<and> SpansSent (met e) = delivered (sends e)
     \<and> errors e = word_of_int (DroppedSpans (met e))
     \<and> SendErrors (met e) = failures (sends e) \<and> SendDuration (met e) = int (length (sends e))
     \<and> (\<exists>bs. mset (sends e) = mset (concat (map calls_for bs))
          \<and> (\<forall>b \<in> set bs. snd b \<in> {[True], [False, True], [False], [False, False]})
          \<and> BatchesOK (met e) = int (length (filter (\<lambda>b. True \<in> set (snd b)) bs))
          \<and> BatchesErr (met e) = int (length (filter (\<lambda>b. True \<notin> set (snd b)) bs))
          \<and> DroppedSpans (met e) = (\<Sum>b \<leftarrow> filter (\<lambda>b. True \<notin> set (snd b)) bs. int (total_spans (fst b))))"
proof -
  have z: "total_of in_send ws = 0" "total_of due_generated ws = 0" "total_of due_sent ws = 0"
    "total_of due_errors ws = 0" "total_of due_ok ws = 0" "total_of due_failed ws = 0"
    "total_of due_delivered ws = 0" "total_of due_observed ws = 0" "total_of at_ok ws = 0" "total_of at_err ws = 0"
    "total_of due_dropped ws = 0"
    using assms(3) by (simp_all add: quiet_total)
  have fl: "(\<Sum>w \<leftarrow> ws. in_flight w) = {#}"
    using assms(3) unfolding quiet_def by (induction ws) (auto simp: in_flight_def calls_for_def)
  have m: "metrics_agree (e, ws)" "sends_agree (e, ws)"
    using metrics_agree.holds [OF assms(2)] sends_agree.holds [OF assms(2)] assms(1) by blast+
  then obtain bs where "accounted bs e {#} 0 0 0"
    by (auto simp: sends_agree_def Let_def z fl)
  then have "mset (sends e) = mset (concat (map calls_for bs))"
    "\<forall>b \<in> set bs. snd b \<in> {[True], [False, True], [False], [False, False]}"
    "BatchesOK (met e) = int (length (filter (\<lambda>b. True \<in> set (snd b)) bs))"
    "BatchesErr (met e) = int (length (filter (\<lambda>b. True \<notin> set (snd b)) bs))"
    "DroppedSpans (met e) = (\<Sum>b \<leftarrow> filter (\<lambda>b. True \<notin> set (snd b)) bs. int (total_spans (fst b)))"
    by (simp_all add: accounted_def offer_ok_def gave_up_def [abs_def])
  moreover have "Inflight (met e) = 0" "generated e = word_of_int (SpansGenerated (met e))"
    "sent e = word_of_int (SpansSent (met e))" "SpansSent (met e) = delivered (sends e)"
    "errors e = word_of_int (DroppedSpans (met e))" "SendErrors (met e) = failures (sends e)"
    "SendDuration (met e) = int (length (sends e))"
    using m by (simp_all add: metrics_agree_def sends_agree_def Let_def z)
  ultimately show ?thesis
    by blast
qed

lemma metrics_at_end_witness:
  "\<exists>e ws. running sample_externals 4 sample_config (e, ws) \<and> quiet ws \<and> Inflight (met e) = 0
     \<and> SpansSent (met e) = delivered (sends e)"
proof -
  obtain e ws where r: "running sample_externals 4 sample_config (e, ws)" "map w_pc ws = [Returned 2000, Returned 0]"
    by (rule sample_run)
  then have "quiet ws"
    by (auto simp: quiet_def map_eq_Cons_conv)
  with metrics_at_end [OF sample_runnable r(1) this] r(1) show ?thesis
    by blast
qed

section \<open>Shutdown\<close>



text \<open>The operations that a worker has left after cancellation.\<close>

fun rank :: "pc \<Rightarrow> nat" where
  "rank (Returned n) = 0"
| "rank Top = 1"
| "rank EndSend = 2"
| "rank (LogError n) = 3"
| "rank (AddErrors n) = 4"
| "rank (MetDropped n) = 5"
| "rank (MetBatchErr n) = 6"
| "rank (CheckRetry n k) = 7"
| "rank (MetSendError n k) = 8"
| "rank (AddSent n) = 3"
| "rank (MetSent n) = 4"
| "rank (MetBatchOK n) = 5"
| "rank (Observe n k ok) = 9"
| "rank (Attempt n k) = 10"
| "rank (BeginSend n) = 11"
| "rank (Recheck n) = 12"
| "rank (WaitLimiter n) = 13"
| "rank (MetGenerated n) = 14"
| "rank (CancelRun n) = 15"
| "rank (Count n) = 16"

lemma wstep_rank: "wstep X e w e' w' \<Longrightarrow> cancelled e \<Longrightarrow> cancelled e' \<and> rank (w_pc w') < rank (w_pc w)"
  by (erule wstep.cases) auto

lemma rank_le: "rank q \<le> 16"
  by (cases q) auto

text \<open>A worker in front of a call of \<open>Send\<close>, and the batch of that call.\<close>

fun at_send :: "pc \<Rightarrow> bool" where
  "at_send (BeginSend n) = True" | "at_send (Attempt n k) = True" | "at_send _ = False"

definition pending :: "worker \<Rightarrow> Traces multiset" where
  "pending w = (if at_send (w_pc w) then {#w_td w#} else {#})"

lemma pending_sum: "(\<Sum>w \<leftarrow> ws. pending w) = mset (map w_td (filter (\<lambda>w. at_send (w_pc w)) ws))"
  by (induction ws) (simp_all add: pending_def)

lemma wstep_pending:
  assumes "wstep X e w e' w'" and "cancelled e"
  obtains new where "sends e' = sends e @ new" and "mset (map fst new) + pending w' \<subseteq># pending w"
  using assms
proof cases
  case (attempt n k ok)
  then show thesis
    by (intro that [of "[(w_td w, ok)]"]) (simp_all add: pending_def)
qed (use assms(2) in \<open>intro that [of "[]"]; simp add: pending_def\<close>)+

definition winding_down :: "world \<Rightarrow> world \<Rightarrow> bool" where
  "winding_down s s' \<longleftrightarrow> cancelled (fst s') \<and> length (snd s') = length (snd s)
     \<and> (\<forall>i < length (snd s). rank (w_pc (snd s' ! i)) \<le> rank (w_pc (snd s ! i)))
     \<and> (\<exists>new. sends (fst s') = sends (fst s) @ new
          \<and> mset (map fst new) + (\<Sum>w \<leftarrow> snd s'. pending w) \<subseteq># (\<Sum>w \<leftarrow> snd s. pending w))"

lemma step_winds_down:
  assumes "step X s s'" and "cancelled (fst s)"
  shows "winding_down s s'"
  using assms(1)
proof cases
  case (worker e i ws e' w')
  obtain new where new: "sends e' = sends e @ new" "mset (map fst new) + pending w' \<subseteq># pending (ws ! i)"
    using wstep_pending [OF worker(5)] assms(2) worker(1) by auto
  obtain R where R: "(\<Sum>w \<leftarrow> ws. pending w) = R + pending (ws ! i)" "\<And>x. (\<Sum>w \<leftarrow> ws[i := x]. pending w) = R + pending x"
    using sum_list_map_rest [OF worker(4), of pending] by metis
  have "mset (map fst new) + (R + pending w') \<subseteq># R + pending (ws ! i)"
    using new(2) by (metis union_lcomm subset_mset.add_left_mono)
  moreover have "cancelled e'" "rank (w_pc w') < rank (w_pc (ws ! i))"
    using wstep_rank [OF worker(5)] assms(2) worker(1) by auto
  ultimately show ?thesis
    using new(1) by (auto simp: winding_down_def worker(1,2,4) R nth_list_update less_imp_le)
qed (use assms(2) in \<open>auto simp: winding_down_def\<close>)

lemma winding_down_trans: "winding_down s s1 \<Longrightarrow> winding_down s1 s2 \<Longrightarrow> winding_down s s2"
  unfolding winding_down_def
  by (intro conjI; elim conjE exE) (auto intro: order_trans, metis (no_types, lifting) subset_mset.add_left_mono subset_mset.order_trans union_assoc)

lemma winds_down: "(step X)\<^sup>*\<^sup>* s s' \<Longrightarrow> cancelled (fst s) \<Longrightarrow> winding_down s s'"
proof (induction rule: rtranclp_induct)
  case base
  then show ?case by (simp add: winding_down_def)
next
  case (step s1 s2)
  then have "winding_down s s1" "cancelled (fst s1)"
    by (simp_all add: winding_down_def)
  then show ?case
    using step_winds_down [OF step(2)] winding_down_trans by blast
qed

text \<open>
  C9. Shutdown is bounded and starts nothing new. Along any run after the cancellation, the context stays cancelled, no
  worker gets further from its end, which is at most 16 operations away and comes closer with each of them; and the
  only calls of \<open>Send\<close> that still begin are one for each worker that was already in front of one, with its batch: no new
  batch is offered, and none is offered again.
\<close>

theorem shutdown_bounded:
  assumes "(step X)\<^sup>*\<^sup>* (e, ws) (e', ws')" and "cancelled e"
  shows "cancelled e' \<and> length ws' = length ws
     \<and> (\<forall>i < length ws. rank (w_pc (ws' ! i)) \<le> rank (w_pc (ws ! i)) \<and> rank (w_pc (ws ! i)) \<le> 16)
     \<and> (\<forall>i < length ws'. \<forall>e'' w''. wstep X e' (ws' ! i) e'' w'' \<longrightarrow> rank (w_pc w'') < rank (w_pc (ws' ! i)))
     \<and> (\<exists>new. sends e' = sends e @ new \<and> mset (map fst new) \<subseteq># mset (map w_td (filter (\<lambda>w. at_send (w_pc w)) ws)))"
proof -
  have "winding_down (e, ws) (e', ws')"
    using winds_down [OF assms(1)] assms(2) by simp
  then show ?thesis
    using wstep_rank rank_le
    by (auto simp: winding_down_def pending_sum intro: subset_mset.order_trans [OF mset_subset_eq_add_left])
qed

lemma shutdown_bounded_witness:
  "\<exists>e w e' w'. cancelled e \<and> w_pc w = CheckRetry 7 0 \<and> (step sample_externals)\<^sup>*\<^sup>* (e, [w]) (e', [w'])
     \<and> w_pc w' = MetBatchErr 7 \<and> sends e' = sends e"
proof -
  obtain e ws where r: "cancelled e" "running sample_externals 4 sample_config (e, ws)"
    by (rule sample_run)
  define w where "w = (new_worker (e\<lparr>crashed := False\<rparr>) 0)\<lparr>w_pc := CheckRetry 7 0\<rparr>"
  let ?e = "e\<lparr>crashed := False\<rparr>" and ?w = "w\<lparr>w_pc := MetBatchErr 7\<rparr>"
  have "wstep sample_externals ?e w ?e ?w"
    using wstep.check_retry [of w 7 0 sample_externals ?e] r by (simp add: w_def)
  then have "step sample_externals (?e, [w]) (?e, [?w])"
    using step.worker [of ?e 0 "[w]" sample_externals ?e ?w] by simp
  then have st: "(step sample_externals)\<^sup>*\<^sup>* (?e, [w]) (?e, [?w])"
    by blast
  from shutdown_bounded [OF st] r(1) st show ?thesis
    by (intro exI [of _ ?e] exI [of _ w] exI [of _ ?w]) (auto simp: w_def)
qed

lemma failing_batch_panics:
  assumes "running X gmp c (e, [w])" and "w_pc w = Attempt 0 0" and "\<not> crashed e" and "\<not> cancelled e"
    and "(word_of_int (batch e * 20) :: u64) = 0"
  shows "\<exists>s. running X gmp c s \<and> crashed (fst s)"
proof -
  let ?w = "\<lambda>q. w\<lparr>w_pc := q\<rparr>"
  let ?e1 = "e\<lparr>sends := sends e @ [(w_td w, False)]\<rparr>"
  let ?o1 = "?e1\<lparr>met := (met ?e1)\<lparr>SendDuration := SendDuration (met ?e1) + 1\<rparr>\<rparr>"
  let ?e2 = "?o1\<lparr>met := (met ?o1)\<lparr>SendErrors := SendErrors (met ?o1) + 1\<rparr>\<rparr>"
  let ?e3 = "?e2\<lparr>sends := sends ?e2 @ [(w_td w, False)]\<rparr>"
  let ?o3 = "?e3\<lparr>met := (met ?e3)\<lparr>SendDuration := SendDuration (met ?e3) + 1\<rparr>\<rparr>"
  let ?e4 = "?o3\<lparr>met := (met ?o3)\<lparr>SendErrors := SendErrors (met ?o3) + 1\<rparr>\<rparr>"
  let ?e5 = "?e4\<lparr>met := (met ?e4)\<lparr>BatchesErr := BatchesErr (met ?e4) + 1\<rparr>\<rparr>"
  let ?e6 = "?e5\<lparr>met := (met ?e5)\<lparr>DroppedSpans := DroppedSpans (met ?e5) + 0\<rparr>\<rparr>"
  let ?e7 = "?e6\<lparr>errors := errors ?e6 + word_of_int 0\<rparr>"
  note at = run_first
  have "running X gmp c (?e1, [?w (Observe 0 0 False)])"
    by (rule at [OF assms(1) _ wstep.attempt [where n = 0 and k = 0 and ok = False]]) (use assms in auto)
  then have "running X gmp c (?o1, [?w (MetSendError 0 0)])"
    by (rule at [OF _ _ wstep.observe [where n = 0 and k = 0 and ok = False]]) (use assms in auto)
  then have "running X gmp c (?e2, [?w (CheckRetry 0 0)])"
    by (rule at [OF _ _ wstep.met_send_error [where n = 0 and k = 0]]) (use assms in auto)
  then have "running X gmp c (?e2, [?w (Attempt 0 1)])"
    by (rule at [OF _ _ wstep.check_retry [where n = 0 and k = 0]]) (use assms in \<open>auto simp: sendAttempts_def\<close>)
  then have "running X gmp c (?e3, [?w (Observe 0 1 False)])"
    by (rule at [OF _ _ wstep.attempt [where n = 0 and k = 1 and ok = False]]) (use assms in auto)
  then have "running X gmp c (?o3, [?w (MetSendError 0 1)])"
    by (rule at [OF _ _ wstep.observe [where n = 0 and k = 1 and ok = False]]) (use assms in auto)
  then have "running X gmp c (?e4, [?w (CheckRetry 0 1)])"
    by (rule at [OF _ _ wstep.met_send_error [where n = 0 and k = 1]]) (use assms in auto)
  then have "running X gmp c (?e4, [?w (MetBatchErr 0)])"
    by (rule at [OF _ _ wstep.check_retry [where n = 0 and k = 1]]) (use assms in \<open>auto simp: sendAttempts_def\<close>)
  then have "running X gmp c (?e5, [?w (MetDropped 0)])"
    by (rule at [OF _ _ wstep.met_batch_err [where n = 0]]) (use assms in auto)
  then have "running X gmp c (?e6, [?w (AddErrors 0)])"
    by (rule at [OF _ _ wstep.met_dropped [where n = 0]]) (use assms in auto)
  then have "running X gmp c (?e7, [?w (LogError 0)])"
    by (rule at [OF _ _ wstep.add_errors [where n = 0]]) (use assms in auto)
  then have "running X gmp c (?e7\<lparr>crashed := True\<rparr>, [?w EndSend])"
    by (rule at [OF _ _ wstep.log_error [where n = 0]])
      (use assms in auto)
  then show ?thesis
    by (intro exI [of _ "(?e7\<lparr>crashed := True\<rparr>, [?w EndSend])"]) simp
qed

lemma over_limit_unlimited: "MaxSpans (Gen (cfg e)) = 0 \<Longrightarrow> \<not> over_limit e t"
  by (simp add: over_limit_def)

text \<open>A single worker without a cap and a rate takes its first batch to the sink.\<close>

lemma first_attempt:
  assumes "runnable X c" and "Workers (Gen c) = 1" and "MaxSpans (Gen c) = 0" and "\<not> f_less (Finite 0) (Rate (Gen c))"
  obtains e w where "running X gmp c (e, [w])" and "w_pc w = Attempt (max 0 (EffectiveBatchSize c)) 0"
    and "int (total_spans (w_td w)) = max 0 (EffectiveBatchSize c)" and "\<not> crashed e" and "\<not> cancelled e"
    and "batch e = EffectiveBatchSize c" and "sends e = []" and "SendErrors (met e) = 0"
proof -
  let ?n = "max 0 (EffectiveBatchSize c)"
  have "validate c = None" "Services (Gen c) \<le> 2 ^ 41"
    using assms(1) by (simp_all add: runnable_def validate_iff)
  then obtain e where e: "New c = Some e"
    by (rule New_Some)
  note f = New_fields [OF e]
  define w where "w = new_worker e 0"
  have "Run gmp e = (e, [w])"
    by (simp add: Run_def f worker_count_def assms(2) w_def upt_rec)
  then have r: "running X gmp c (e, [w])"
    using e by (intro reach_init) (auto simp: started_def)
  have top: "w_pc w = Top" "gen_ok (xlib X) (w_gen w)"
    using new_worker_ok [OF assms(1) e] by (simp_all add: w_def worker_ok_def) (simp add: new_worker_def)
  obtain g td where fill: "FillBatch (xlib X) (w_gen w) [] (batch e) = Some (?n, g, td)" "int (total_spans td) = ?n"
    using FillBatch_counts [OF top(2), of "batch e"] f(2) by auto
  have lim: "limiter_of e = None"
    using f(18) assms(4) by simp
  let ?w = "\<lambda>q. w\<lparr>w_pc := q, w_gen := g, w_td := td\<rparr>"
  let ?e1 = "e\<lparr>generated := generated e + word_of_int ?n\<rparr>"
  let ?e2 = "?e1\<lparr>met := (met ?e1)\<lparr>SpansGenerated := SpansGenerated (met ?e1) + ?n\<rparr>\<rparr>"
  let ?e3 = "?e2\<lparr>met := (met ?e2)\<lparr>Inflight := Inflight (met ?e2) + 1\<rparr>\<rparr>"
  have "running X gmp c (e, [?w (Count ?n)])"
    by (rule run_first [OF r _ wstep.fill [where n = ?n and g = g and td = td]]) (use f top fill in auto)
  then have "running X gmp c (?e1, [?w (MetGenerated ?n)])"
    by (rule run_first [OF _ _ wstep.count_spans [where n = ?n]]) (use f assms(3) in \<open>auto simp: over_limit_unlimited\<close>)
  then have "running X gmp c (?e2, [?w (WaitLimiter ?n)])"
    by (rule run_first [OF _ _ wstep.met_generated [where n = ?n]]) (use f in auto)
  then have "running X gmp c (?e2, [?w (Recheck ?n)])"
    by (rule run_first [OF _ _ wstep.no_limiter [where n = ?n]]) (use f lim in auto)
  then have "running X gmp c (?e2, [?w (BeginSend ?n)])"
    by (rule run_first [OF _ _ wstep.recheck [where n = ?n]]) (use f in auto)
  then have "running X gmp c (?e3, [?w (Attempt ?n 0)])"
    by (rule run_first [OF _ _ wstep.begin_send [where n = ?n]]) (use f in auto)
  then show thesis
    by (rule that) (use f fill in auto)
qed

text \<open>
  C24. A batch size of 0, which \<open>validate\<close> accepts, brings the process down: on the first batch that fails
  twice, the modulus of the log condition is \<open>uint64(e.batch*20) = 0\<close>.
\<close>

theorem empty_batch_panics:
  assumes "runnable X c" and "EffectiveBatchSize c = 0" and "Workers (Gen c) = 1" and "MaxSpans (Gen c) = 0"
    and "\<not> f_less (Finite 0) (Rate (Gen c))"
  shows "validate c = None \<and> (\<exists>s. running X gmp c s \<and> crashed (fst s))"
proof -
  have "valid_config c"
    using assms(1) by (simp add: runnable_def)
  moreover obtain e w where "running X gmp c (e, [w])" "w_pc w = Attempt 0 0" "\<not> crashed e" "\<not> cancelled e" "batch e = 0"
    using first_attempt [OF assms(1,3,4,5)] assms(2) by (metis max.idem)
  then have "\<exists>s. running X gmp c s \<and> crashed (fst s)"
    by (intro failing_batch_panics) auto
  ultimately show ?thesis
    by (simp add: validate_iff)
qed

definition empty_batch_config :: Config where
  "empty_batch_config = sample_config\<lparr>Gen := (Gen sample_config)\<lparr>Rate := Finite 0, MaxSpans := 0, Workers := 1\<rparr>,
     OTLP := (OTLP sample_config)\<lparr>SpansPerRequest := 0\<rparr>\<rparr>"

lemma empty_batch_panics_witness:
  "validate empty_batch_config = None \<and> (\<exists>s. running sample_externals 4 empty_batch_config s \<and> crashed (fst s))"
proof (rule empty_batch_panics)
  show "runnable sample_externals empty_batch_config"
    using sample_runnable
    by (auto simp: runnable_def empty_batch_config_def sample_config_def valid_config_def)
qed (simp_all add: empty_batch_config_def sample_config_def EffectiveBatchSize_def)

text \<open>A run in which the only worker delivers one batch and then ends.\<close>

lemma delivering_run:
  assumes "runnable X c" and "Workers (Gen c) = 1" and "MaxSpans (Gen c) = 0" and "\<not> f_less (Finite 0) (Rate (Gen c))"
  obtains e ws td where "running X gmp c (e, ws)" and "quiet ws" and "sends e = [(td, True)]"
    and "int (total_spans td) = max 0 (EffectiveBatchSize c)" and "SendErrors (met e) = 0"
proof -
  let ?n = "max 0 (EffectiveBatchSize c)"
  obtain e w where r: "running X gmp c (e, [w])" "w_pc w = Attempt ?n 0" "int (total_spans (w_td w)) = ?n"
      "\<not> crashed e" "\<not> cancelled e" "sends e = []" "SendErrors (met e) = 0"
    using first_attempt [OF assms] by metis
  let ?w = "\<lambda>q. w\<lparr>w_pc := q\<rparr>"
  let ?e1 = "e\<lparr>sends := sends e @ [(w_td w, True)]\<rparr>"
  let ?o1 = "?e1\<lparr>met := (met ?e1)\<lparr>SendDuration := SendDuration (met ?e1) + 1\<rparr>\<rparr>"
  let ?e2 = "?o1\<lparr>met := (met ?o1)\<lparr>BatchesOK := BatchesOK (met ?o1) + 1\<rparr>\<rparr>"
  let ?e3 = "?e2\<lparr>met := (met ?e2)\<lparr>SpansSent := SpansSent (met ?e2) + ?n\<rparr>\<rparr>"
  let ?e4 = "?e3\<lparr>sent := sent ?e3 + word_of_int ?n\<rparr>"
  let ?e5 = "?e4\<lparr>met := (met ?e4)\<lparr>Inflight := Inflight (met ?e4) - 1\<rparr>\<rparr>"
  let ?e6 = "?e5\<lparr>cancelled := True\<rparr>"
  have "running X gmp c (?e1, [?w (Observe ?n 0 True)])"
    by (rule run_first [OF r(1) _ wstep.attempt [where n = ?n and k = 0 and ok = True]]) (use r in auto)
  then have "running X gmp c (?o1, [?w (MetBatchOK ?n)])"
    by (rule run_first [OF _ _ wstep.observe [where n = ?n and k = 0 and ok = True]]) (use r in auto)
  then have "running X gmp c (?e2, [?w (MetSent ?n)])"
    by (rule run_first [OF _ _ wstep.met_batch_ok [where n = ?n]]) (use r in auto)
  then have "running X gmp c (?e3, [?w (AddSent ?n)])"
    by (rule run_first [OF _ _ wstep.met_sent [where n = ?n]]) (use r in auto)
  then have "running X gmp c (?e4, [?w EndSend])"
    by (rule run_first [OF _ _ wstep.add_sent [where n = ?n]]) (use r in auto)
  then have "running X gmp c (?e5, [?w Top])"
    by (rule run_first [OF _ _ wstep.end_send]) (use r in auto)
  then have "running X gmp c (?e6, [?w Top])"
    by (rule reach_step) (rule step.cancel, use r in simp)
  then have "running X gmp c (?e6, [?w (Returned 0)])"
    by (rule run_first [OF _ _ wstep.stop]) (use r in auto)
  then show thesis
    by (rule that) (use r in \<open>auto simp: quiet_def\<close>)
qed

section \<open>Seeds\<close>

lemma seed_factor_odd: "odd (uint (2654435761 :: u64))"
  by simp

lemma seed_term_inj:
  assumes "0 \<le> v" and "v < 2 ^ 63" and "0 \<le> w" and "w < 2 ^ 63"
  shows "word_of_int (v + 1) * (2654435761 :: u64) = word_of_int (w + 1) * 2654435761 \<longleftrightarrow> v = w"
proof
  assume "word_of_int (v + 1) * (2654435761 :: u64) = word_of_int (w + 1) * 2654435761"
  then have "(word_of_int (v + 1) :: u64) = word_of_int (w + 1)"
    by (rule odd_mult_inj [OF seed_factor_odd])
  then have "uint (word_of_int (v + 1) :: u64) = uint (word_of_int (w + 1) :: u64)"
    by (rule arg_cong)
  moreover have "uint (word_of_int x :: u64) = x" if "0 \<le> x" "x < 2 ^ 64" for x
    using that by (simp add: unsigned_of_int take_bit_int_eq_self)
  moreover have "0 \<le> v + 1" "v + 1 < 2 ^ 64" "0 \<le> w + 1" "w + 1 < 2 ^ 64"
    using assms by auto
  ultimately show "v = w"
    by (metis add_right_cancel)
qed simp

text \<open>
  C25. Seeds: within a pod the workers have pairwise different seeds, and one worker has different seeds on
  hosts with different ids. Seeds of different workers on different hosts are equal exactly if the host
  ids differ by the two worker terms.
\<close>

theorem seedFor_unique:
  assumes "0 \<le> v" and "v < 2 ^ 63" and "0 \<le> w" and "w < 2 ^ 63"
  shows "(seedFor b h v = seedFor b h w \<longleftrightarrow> v = w)
     \<and> (seedFor b h w = seedFor b h' w \<longleftrightarrow> h = h')
     \<and> (seedFor b h v = seedFor b h' w
          \<longleftrightarrow> h XOR h' = (word_of_int (v + 1) * 2654435761) XOR (word_of_int (w + 1) * 2654435761))"
proof -
  have "seedFor b h v = seedFor b h w \<longleftrightarrow> v = w"
    unfolding seedFor_def xor_left_inj by (rule seed_term_inj [OF assms])
  moreover have "seedFor b h w = seedFor b h' w \<longleftrightarrow> h = h'"
    unfolding seedFor_def xor_left_inj xor_right_inj by (rule refl)
  moreover have "seedFor b h v = seedFor b h' w
      \<longleftrightarrow> h XOR h' = (word_of_int (v + 1) * 2654435761) XOR (word_of_int (w + 1) * 2654435761)"
    unfolding seedFor_def xor_left_inj by (rule xor_swap)
  ultimately show ?thesis by blast
qed

lemma seedFor_unique_witness:
  "seedFor 42 7 0 \<noteq> seedFor 42 7 1 \<and> seedFor 42 7 1 \<noteq> seedFor 42 8 1"
  using seedFor_unique [of 0 1 42 7 8] by simp

end
