(* ===== verification/RampProps.thy ===== *)
theory RampProps
  imports Engine
begin

text \<open>
  The ramp of \<open>internal/generate/engine.go\<close> in its \<open>float64\<close> arithmetic: durations in seconds are
  monotone, and so are the limits that the ticks set, between a hundredth of the target and the target.
\<close>

section \<open>Whole numbers and seconds as floats\<close>

lemma fl_of_int:
  assumes "0 \<le> n" and "n < 2 ^ 53"
  shows "fl (of_int n) = of_int n"
proof (cases "n = 0")
  case False
  let ?x = "of_int n :: rat"
  have pos: "0 < ?x"
    using assms(1) False by simp
  have "?x < 2 ^ 53"
    using assms(2) by (metis of_int_less_iff of_int_numeral of_int_power)
  then have "pow2 (ilog2 ?x) < pow2 53"
    using ilog2_bounds(1) [OF pos] by (simp add: pow2_def)
  then have e: "ilog2 ?x - 52 \<le> 0"
    by (simp add: pow2_less_iff)
  define k where "k = nat (52 - ilog2 ?x)"
  have p: "pow2 (ilog2 ?x - 52) = 1 / 2 ^ k"
    using e by (auto simp: pow2_def k_def)
  have "?x / pow2 (ilog2 ?x - 52) = of_int (n * 2 ^ k)"
    unfolding p by simp
  then show ?thesis
    unfolding fl_pos [OF pos] by (simp only: round_even_of_int) (simp add: p)
qed simp

lemma fl_1 [simp]: "fl 1 = 1"
  using fl_of_int [of 1] by simp

lemma fl_gt_0: "0 < x \<Longrightarrow> 0 < fl x"
  using fl_exponent_bounds(1) [of x] pow2_pos [of "ilog2 x"] by linarith

lemma div_giga: "0 \<le> (d :: int) \<Longrightarrow> d < 2 ^ 63 \<Longrightarrow> 0 \<le> d div 10 ^ 9 \<and> d div 10 ^ 9 < 2 ^ 53"
  using zdiv_mono1 [of d "2 ^ 63" "10 ^ 9"] by (simp add: pos_imp_zdiv_nonneg_iff)

lemma Seconds_mono:
  assumes "0 \<le> s" and "s \<le> t" and "t < 2 ^ 63"
  shows "Seconds s \<le> Seconds t"
proof -
  let ?G = "10 ^ 9 :: int"
  have frac: "0 \<le> fl (fl (of_int (d mod ?G)) / 10 ^ 9) \<and> fl (fl (of_int (d mod ?G)) / 10 ^ 9) \<le> 1" for d
  proof -
    have m: "0 \<le> d mod ?G" "d mod ?G < ?G"
      by simp_all
    then have "fl (of_int (d mod ?G)) = of_int (d mod ?G)"
      by (intro fl_of_int) simp_all
    moreover have "(of_int (d mod ?G) :: rat) \<le> of_int ?G"
      using m by (simp only: of_int_le_iff)
    ultimately have "0 \<le> fl (of_int (d mod ?G)) / 10 ^ 9" "fl (of_int (d mod ?G)) / 10 ^ 9 \<le> 1"
      using m by simp_all
    then show ?thesis
      using fl_mono [of "fl (of_int (d mod ?G)) / 10 ^ 9" 1] fl_nonneg by simp
  qed
  have whole: "fl (of_int (s div ?G)) = of_int (s div ?G)" "fl (of_int (t div ?G)) = of_int (t div ?G)"
    using assms by (auto intro!: fl_of_int simp: div_giga)
  have le: "s div ?G \<le> t div ?G"
    using assms(2) by (intro zdiv_mono1) simp_all
  have sum: "of_int (s div ?G) + fl (fl (of_int (s mod ?G)) / 10 ^ 9)
      \<le> of_int (t div ?G) + fl (fl (of_int (t mod ?G)) / 10 ^ 9)"
  proof (cases "s div ?G = t div ?G")
    case True
    then have "s mod ?G \<le> t mod ?G"
      using assms(2) by (metis add_le_cancel_left mult_div_mod_eq)
    then have "fl (of_int (s mod ?G)) / 10 ^ 9 \<le> fl (of_int (t mod ?G)) / 10 ^ 9"
      by (intro divide_right_mono fl_mono) simp_all
    then show ?thesis
      using True by (auto intro!: fl_mono divide_nonneg_nonneg fl_nonneg)
  next
    case False
    then have "s div ?G + 1 \<le> t div ?G"
      using le by linarith
    then have "(of_int (s div ?G) :: rat) + 1 \<le> of_int (t div ?G)"
      by (metis of_int_1 of_int_add of_int_le_iff)
    then show ?thesis
      using frac [of s] frac [of t] by linarith
  qed
  have "0 \<le> s div ?G"
    using assms(1) by (simp add: pos_imp_zdiv_nonneg_iff)
  then have "0 \<le> of_int (s div ?G) + fl (fl (of_int (s mod ?G)) / 10 ^ 9)"
    using frac [of s] by (simp add: add_nonneg_nonneg)
  then show ?thesis
    unfolding Seconds_def whole using sum by (rule fl_mono)
qed

lemma Seconds_pos: "1 \<le> d \<Longrightarrow> d < 2 ^ 63 \<Longrightarrow> 0 < Seconds d"
proof -
  assume d: "1 \<le> d" "d < 2 ^ 63"
  have "Seconds 1 = fl (fl (1 / 10 ^ 9))"
    by (simp add: Seconds_def)
  then have "0 < Seconds 1"
    by (simp add: fl_gt_0)
  also have "Seconds 1 \<le> Seconds d"
    using d by (intro Seconds_mono) auto
  finally show ?thesis .
qed

lemma Seconds_nonneg: "0 \<le> d \<Longrightarrow> d < 2 ^ 63 \<Longrightarrow> 0 \<le> Seconds d"
  using Seconds_mono [of 0 d] by (simp add: Seconds_def)

section \<open>The limits\<close>

text \<open>The tick and its limits for a finite target, as numbers.\<close>

definition ramp_cur :: "rat \<Rightarrow> int \<Rightarrow> int \<Rightarrow> rat \<times> bool" where
  "ramp_cur target rampDur elapsed =
     (let frac = fl (Seconds elapsed / Seconds rampDur)
      in if frac \<ge> 1 then (target, True) else (max (fl (target * frac)) (fl (target / 100)), False))"

fun ramp_curs :: "rat \<Rightarrow> int \<Rightarrow> int list \<Rightarrow> rat list" where
  "ramp_curs target rampDur [] = []"
| "ramp_curs target rampDur (t # ts) =
     (let (cur, fin) = ramp_cur target rampDur t in cur # (if fin then [] else ramp_curs target rampDur ts))"

lemma ramp_tick_Finite: "ramp_tick (Finite x) d t = map_prod Finite id (ramp_cur x d t)"
  by (simp add: ramp_tick_def ramp_cur_def Let_def max_def)

lemma ramp_limits_Finite: "ramp_limits (Finite x) d ts = map Finite (ramp_curs x d ts)"
  by (induction ts) (auto simp: ramp_tick_Finite Let_def case_prod_beta)

lemma cur_bounds:
  assumes "is_float target" and "0 < target" and "1 \<le> rampDur" and "rampDur < 2 ^ 63" and "0 \<le> t" and "t < 2 ^ 63"
  shows "fl (target / 100) \<le> fst (ramp_cur target rampDur t)" and "fst (ramp_cur target rampDur t) \<le> target"
proof -
  have low: "fl (target / 100) \<le> target"
    using fl_mono [of "target / 100" target] assms(1,2) by (simp add: is_float_def)
  have "0 \<le> fl (Seconds t / Seconds rampDur)"
    using Seconds_nonneg [OF assms(5,6)] Seconds_pos [OF assms(3,4)] by (intro fl_nonneg) simp
  moreover have "fl (target * f) \<le> target" if "0 \<le> f" "f < 1" for f
  proof -
    have "fl (target * f) \<le> fl target"
      using assms(2) that by (intro fl_mono) auto
    with assms(1) show ?thesis by (simp add: is_float_def)
  qed
  ultimately show "fl (target / 100) \<le> fst (ramp_cur target rampDur t)" "fst (ramp_cur target rampDur t) \<le> target"
    using low by (auto simp: ramp_cur_def Let_def max_def not_less not_le)
qed

lemma cur_mono:
  assumes "is_float target" and "0 < target" and "1 \<le> rampDur" and "rampDur < 2 ^ 63"
    and "0 \<le> s" and "s \<le> t" and "t < 2 ^ 63"
  shows "fst (ramp_cur target rampDur s) \<le> fst (ramp_cur target rampDur t)"
proof (cases "snd (ramp_cur target rampDur t)")
  case True
  then have "fst (ramp_cur target rampDur t) = target"
    by (auto simp: ramp_cur_def Let_def max_def split: if_splits)
  with cur_bounds(2) [OF assms(1-5)] assms(6,7) show ?thesis by simp
next
  case False
  let ?f = "\<lambda>x. fl (Seconds x / Seconds rampDur)"
  have pos: "0 < Seconds rampDur"
    using assms(3,4) by (rule Seconds_pos)
  have nn: "0 \<le> Seconds s"
    using assms(5-7) by (intro Seconds_nonneg) auto
  have le: "?f s \<le> ?f t"
    using pos nn Seconds_mono [OF assms(5-7)] by (intro fl_mono divide_right_mono) auto
  have "0 \<le> ?f s"
    using pos nn by (intro fl_nonneg) simp
  then have "fl (target * ?f s) \<le> fl (target * ?f t)"
    using le assms(2) by (intro fl_mono) auto
  with False le show ?thesis
    by (auto simp: ramp_cur_def Let_def max_def)
qed

lemma cur_final:
  assumes "1 \<le> rampDur" and "rampDur \<le> t" and "t < 2 ^ 63"
  shows "ramp_cur target rampDur t = (target, True)"
proof -
  have "0 < Seconds rampDur" "Seconds rampDur \<le> Seconds t"
    using assms by (auto intro!: Seconds_pos Seconds_mono)
  then have "fl 1 \<le> fl (Seconds t / Seconds rampDur)"
    by (intro fl_mono) simp_all
  then show ?thesis
    by (simp add: ramp_cur_def Let_def)
qed

lemma curs_range:
  assumes "is_float target" and "0 < target" and "1 \<le> rampDur" and "rampDur < 2 ^ 63"
    and "sorted ts" and "\<And>t. t \<in> set ts \<Longrightarrow> 0 \<le> t \<and> t < 2 ^ 63"
  shows "(\<forall>r \<in> set (ramp_curs target rampDur ts). r \<le> target
           \<and> (ts \<noteq> [] \<longrightarrow> fst (ramp_cur target rampDur (hd ts)) \<le> r))
     \<and> sorted (ramp_curs target rampDur ts)
     \<and> ((\<exists>t \<in> set ts. rampDur \<le> t) \<longrightarrow> last (ramp_curs target rampDur ts) = target)"
  using assms(5,6)
proof (induction ts)
  case (Cons t ts)
  have t: "0 \<le> t" "t < 2 ^ 63"
    using Cons.prems(2) by auto
  have IH: "(\<forall>r \<in> set (ramp_curs target rampDur ts). r \<le> target
           \<and> (ts \<noteq> [] \<longrightarrow> fst (ramp_cur target rampDur (hd ts)) \<le> r))
     \<and> sorted (ramp_curs target rampDur ts)
     \<and> ((\<exists>t \<in> set ts. rampDur \<le> t) \<longrightarrow> last (ramp_curs target rampDur ts) = target)"
    using Cons.prems by (intro Cons.IH) auto
  have b: "fst (ramp_cur target rampDur t) \<le> target"
    using t by (intro cur_bounds assms)
  have nil: "ramp_curs target rampDur ts = [] \<longleftrightarrow> ts = []"
    by (cases ts) (simp_all add: Let_def case_prod_beta)
  have up: "fst (ramp_cur target rampDur t) \<le> r" if "r \<in> set (ramp_curs target rampDur ts)" for r
  proof (cases ts)
    case (Cons u us)
    then have "fst (ramp_cur target rampDur t) \<le> fst (ramp_cur target rampDur u)"
      using Cons.prems t by (intro cur_mono assms) auto
    with IH that Cons show ?thesis by fastforce
  qed (use that in simp)
  have fin: "snd (ramp_cur target rampDur t) \<Longrightarrow> fst (ramp_cur target rampDur t) = target"
    by (auto simp: ramp_cur_def Let_def max_def split: if_splits)
  have late: "rampDur \<le> t \<Longrightarrow> ramp_cur target rampDur t = (target, True)"
    by (rule cur_final [OF assms(3) _ t(2)])
  show ?case
    using IH b up fin late nil by (auto simp: Let_def case_prod_beta)
qed simp

text \<open>
  C26. The ramp to a finite target: at ticks in the order of time, the limits are finite and never fall, stay between
  a hundredth of the target and the target, and end at the target once the ramp's duration has passed.
\<close>

theorem ramp_rises:
  assumes "is_float target" and "0 < target" and "1 \<le> rampDur" and "rampDur < 2 ^ 63"
    and "sorted ts" and "\<And>t. t \<in> set ts \<Longrightarrow> 0 \<le> t \<and> t < 2 ^ 63"
  shows "\<exists>rs. ramp_limits (Finite target) rampDur ts = map Finite rs
     \<and> (\<forall>r \<in> set rs. fl (target / 100) \<le> r \<and> r \<le> target)
     \<and> sorted rs
     \<and> ((\<exists>t \<in> set ts. rampDur \<le> t) \<longrightarrow> last rs = target)"
proof (rule exI [of _ "ramp_curs target rampDur ts"], cases ts)
  case (Cons t us)
  then have "fl (target / 100) \<le> fst (ramp_cur target rampDur t)"
    using assms(6) by (intro cur_bounds assms) auto
  moreover note curs_range [OF assms]
  ultimately show "ramp_limits (Finite target) rampDur ts = map Finite (ramp_curs target rampDur ts)
     \<and> (\<forall>r \<in> set (ramp_curs target rampDur ts). fl (target / 100) \<le> r \<and> r \<le> target)
     \<and> sorted (ramp_curs target rampDur ts)
     \<and> ((\<exists>t \<in> set ts. rampDur \<le> t) \<longrightarrow> last (ramp_curs target rampDur ts) = target)"
    unfolding Cons list.sel ramp_limits_Finite by (blast intro: order_trans)
qed simp

lemma ramp_rises_witness:
  "\<exists>rs. ramp_limits (Finite 1000) 30000000000 [200000000, 400000000, 31000000000] = map Finite rs
     \<and> sorted rs \<and> last rs = 1000"
proof -
  have "is_float 1000"
    using fl_of_int [of 1000] by (simp add: is_float_def)
  moreover have "0 \<le> t \<and> t < 2 ^ 63" if "t \<in> set [200000000, 400000000, 31000000000]" for t :: int
    using that by auto
  ultimately show ?thesis
    using ramp_rises [of 1000 30000000000 "[200000000, 400000000, 31000000000]"]
    by (simp del: ramp_limits.simps) blast
qed

end
