(* ===== verification/ChRows.thy ===== *)
theory ChRows
  imports Config Pdata "HOL-Library.AList" "HOL-Library.Char_ord" "HOL-Library.List_Lexorder"
begin

text \<open>
  The row encoders of \<open>internal/sink/clickhouse.go\<close>: attribute maps, events and links, the rows of the
  two schemas and the INSERT statement whose column list they follow. A Go map is an association list
  with distinct keys.
\<close>

section \<open>Reading the message tree\<close>

text \<open>
  The readers of \<open>pcommon\<close> and \<open>ptrace\<close> that the sink calls: \<open>Value.AsString\<close>, \<open>SpanKind.String\<close>,
  \<open>StatusCode.String\<close> and \<open>IsEmpty\<close> of the two kinds of ids.
\<close>

record readers =
  asString :: "attr_value \<Rightarrow> string"
  kindString :: "SpanKind \<Rightarrow> string"
  codeString :: "StatusCode \<Rightarrow> string"
  emptyID :: "u8 list \<Rightarrow> bool"

type_synonym amap = "(string \<times> string) list"

definition attrMap :: "readers \<Rightarrow> attributes \<Rightarrow> amap" where
  "attrMap R as = fold (\<lambda>(k, v) m. AList.update k (asString R v) m) as []"

text \<open>\<open>m[k]\<close> of a map of strings: the zero value if the key is missing.\<close>

definition map_get :: "amap \<Rightarrow> string \<Rightarrow> string" where
  "map_get m k = (case map_of m k of Some v \<Rightarrow> v | None \<Rightarrow> [])"

definition traceHex :: "readers \<Rightarrow> TraceID \<Rightarrow> string" where
  "traceHex R i = (if emptyID R i then [] else hex_encode i)"

definition spanHex :: "readers \<Rightarrow> SpanID \<Rightarrow> string" where
  "spanHex R i = (if emptyID R i then [] else hex_encode i)"

section \<open>\<open>json.Marshal\<close> of a map of strings\<close>

definition byte_in :: "nat \<Rightarrow> nat \<Rightarrow> char \<Rightarrow> bool" where
  "byte_in lo hi c \<longleftrightarrow> lo \<le> of_char c \<and> of_char c \<le> hi"

text \<open>
  The length of the well-formed UTF-8 sequence at the start of a string, as \<open>utf8.DecodeRuneInString\<close>
  finds it; 0 if there is none.
\<close>

fun rune_size :: "string \<Rightarrow> nat" where
  "rune_size [] = 0"
| "rune_size (a # s) =
     (if byte_in 0 127 a then 1
      else if byte_in 194 223 a then (case s of b # _ \<Rightarrow> if byte_in 128 191 b then 2 else 0 | _ \<Rightarrow> 0)
      else if byte_in 224 239 a then
        (case s of b # c # _ \<Rightarrow>
           if byte_in (if a = CHR 0xE0 then 160 else 128) (if a = CHR 0xED then 159 else 191) b
             \<and> byte_in 128 191 c then 3 else 0
         | _ \<Rightarrow> 0)
      else if byte_in 240 244 a then
        (case s of b # c # d # _ \<Rightarrow>
           if byte_in (if a = CHR 0xF0 then 144 else 128) (if a = CHR 0xF4 then 143 else 191) b
             \<and> byte_in 128 191 c \<and> byte_in 128 191 d then 4 else 0
         | _ \<Rightarrow> 0)
      else 0)"

text \<open>The escape of one byte below 128.\<close>

definition json_byte :: "char \<Rightarrow> string" where
  "json_byte c =
     (if c = CHR 0x5C \<or> c = CHR 0x22 then [CHR 0x5C, c]
      else if c = CHR 0x08 then [CHR 0x5C, CHR ''b'']
      else if c = CHR 0x0C then [CHR 0x5C, CHR ''f'']
      else if c = CHR 0x0A then [CHR 0x5C, CHR ''n'']
      else if c = CHR 0x0D then [CHR 0x5C, CHR ''r'']
      else if c = CHR 0x09 then [CHR 0x5C, CHR ''t'']
      else if byte_in 0 31 c \<or> c = CHR ''<'' \<or> c = CHR ''>'' \<or> c = CHR ''&''
        then [CHR 0x5C, CHR ''u'', CHR ''0'', CHR ''0'', hex_digit (of_char c div 16), hex_digit (of_char c mod 16)]
      else [c])"

function json_chars :: "string \<Rightarrow> string" where
  "json_chars [] = []"
| "json_chars (a # s) =
     (if byte_in 0 127 a then json_byte a @ json_chars s
      else let n = rune_size (a # s); r = take n (a # s)
           in if n = 0 then CHR 0x5C # ''ufffd'' @ json_chars s
              else (if r = [CHR 0xE2, CHR 0x80, CHR 0xA8] then CHR 0x5C # ''u2028''
                    else if r = [CHR 0xE2, CHR 0x80, CHR 0xA9] then CHR 0x5C # ''u2029'' else r)
                   @ json_chars (drop n (a # s)))"
  by pat_completeness auto
termination
  by (relation "measure length") (auto simp del: rune_size.simps)

definition json_string :: "string \<Rightarrow> string" where
  "json_string s = CHR 0x22 # json_chars s @ [CHR 0x22]"

definition json_member :: "string \<times> string \<Rightarrow> string" where
  "json_member kv = json_string (fst kv) @ CHR '':'' # json_string (snd kv)"

text \<open>\<open>jsonAttr\<close>; \<open>json.Marshal\<close> sorts the keys, and does not fail for a map of strings.\<close>

definition jsonAttr :: "amap \<Rightarrow> string" where
  "jsonAttr m =
     (if m = [] then ''{}''
      else CHR ''{'' # join_byte (CHR '','') (map json_member (sort_key fst m)) @ ''}'')"

section \<open>Rows\<close>

text \<open>The Go values that a row holds.\<close>

datatype cell =
    CTime u64
  | CStr string
  | CU64 u64
  | CI64 int
  | CMap amap
  | CTimes "u64 list"
  | CStrs "string list"
  | CMaps "amap list"

definition events :: "readers \<Rightarrow> span \<Rightarrow> u64 list \<times> string list \<times> amap list" where
  "events R sp = (map ev_timestamp (span_events sp), map ev_name (span_events sp),
     map (\<lambda>e. attrMap R (ev_attributes e)) (span_events sp))"

definition links :: "readers \<Rightarrow> span \<Rightarrow> string list \<times> string list \<times> string list \<times> amap list" where
  "links R sp = (map (\<lambda>l. traceHex R (lk_traceID l)) (span_links sp), map (\<lambda>l. spanHex R (lk_spanID l)) (span_links sp),
     map lk_traceState (span_links sp), map (\<lambda>l. attrMap R (lk_attributes l)) (span_links sp))"

definition eventsJSON :: "readers \<Rightarrow> span \<Rightarrow> u64 list \<times> string list \<times> string list" where
  "eventsJSON R sp = (map ev_timestamp (span_events sp), map ev_name (span_events sp),
     map (\<lambda>e. jsonAttr (attrMap R (ev_attributes e))) (span_events sp))"

definition linksJSON :: "readers \<Rightarrow> span \<Rightarrow> string list \<times> string list \<times> string list \<times> string list" where
  "linksJSON R sp = (map (\<lambda>l. traceHex R (lk_traceID l)) (span_links sp), map (\<lambda>l. spanHex R (lk_spanID l)) (span_links sp),
     map lk_traceState (span_links sp), map (\<lambda>l. jsonAttr (attrMap R (lk_attributes l))) (span_links sp))"

definition appendSpanMap :: "readers \<Rightarrow> span \<Rightarrow> amap \<Rightarrow> string \<Rightarrow> string \<Rightarrow> string \<Rightarrow> cell list" where
  "appendSpanMap R sp resAttrs svcName scopeName scopeVer =
     (let (evTs, evNames, evAttrs) = events R sp;
          (lkTraceIDs, lkSpanIDs, lkStates, lkAttrs) = links R sp
      in [CTime (startTimestamp sp),
          CStr (traceHex R (traceID sp)),
          CStr (spanHex R (spanID sp)),
          CStr (spanHex R (parentSpanID sp)),
          CStr (traceState sp),
          CStr (span_name sp),
          CStr (kindString R (span_kind sp)),
          CStr svcName,
          CMap resAttrs,
          CStr scopeName,
          CStr scopeVer,
          CMap (attrMap R (span_attributes sp)),
          CU64 (endTimestamp sp - startTimestamp sp),
          CStr (codeString R (statusCode sp)),
          CStr (statusMessage sp),
          CTimes evTs, CStrs evNames, CMaps evAttrs,
          CStrs lkTraceIDs, CStrs lkSpanIDs, CStrs lkStates, CMaps lkAttrs])"

definition appendSpanJSON :: "readers \<Rightarrow> span \<Rightarrow> amap \<Rightarrow> amap \<Rightarrow> string \<Rightarrow> string \<Rightarrow> string \<Rightarrow> cell list" where
  "appendSpanJSON R sp resAttrs scopeAttrs svcName scopeName scopeVer =
     (let (evTs, evNames, evAttrs) = eventsJSON R sp;
          (lkTraceIDs, lkSpanIDs, lkStates, lkAttrs) = linksJSON R sp
      in [CTime (startTimestamp sp),
          CStr (traceHex R (traceID sp)),
          CStr (spanHex R (spanID sp)),
          CStr (spanHex R (parentSpanID sp)),
          CStr (traceState sp),
          CStr (span_name sp),
          CStr (kindString R (span_kind sp)),
          CStr svcName,
          CI64 (sint (endTimestamp sp - startTimestamp sp)),
          CStr (codeString R (statusCode sp)),
          CStr (statusMessage sp),
          CStr (jsonAttr resAttrs),
          CStr (jsonAttr (attrMap R (span_attributes sp))),
          CStr (jsonAttr scopeAttrs),
          CStr scopeName,
          CStr scopeVer,
          CStrs lkTraceIDs, CStrs lkSpanIDs, CStrs lkStates, CStrs lkAttrs,
          CTimes evTs, CStrs evNames, CStrs evAttrs])"

definition appendSpan :: "readers \<Rightarrow> bool \<Rightarrow> span \<Rightarrow> amap \<Rightarrow> amap \<Rightarrow> string \<Rightarrow> string \<Rightarrow> string \<Rightarrow> cell list" where
  "appendSpan R jsonAttrs sp resAttrs scopeAttrs svcName scopeName scopeVer =
     (if jsonAttrs then appendSpanJSON R sp resAttrs scopeAttrs svcName scopeName scopeVer
      else appendSpanMap R sp resAttrs svcName scopeName scopeVer)"

section \<open>The statement\<close>

definition newline :: string where
  "newline = [CHR 0x0A]"

definition json_column_lines :: "string list" where
  "json_column_lines =
     [''Timestamp, TraceId, SpanId, ParentSpanId, TraceState, SpanName, SpanKind,'',
      ''ServiceName, Duration, StatusCode, StatusMessage,'',
      ''ResourceAttributes, SpanAttributes, ScopeAttributes, ScopeName, ScopeVersion,'',
      ''Links.TraceId, Links.SpanId, Links.TraceState, Links.Attributes,'',
      ''Events.Timestamp, Events.Name, Events.Attributes)'']"

definition map_column_lines :: "string list" where
  "map_column_lines =
     [''Timestamp, TraceId, SpanId, ParentSpanId, TraceState, SpanName, SpanKind,'',
      ''ServiceName, ResourceAttributes, ScopeName, ScopeVersion, SpanAttributes,'',
      ''Duration, StatusCode, StatusMessage,'',
      ''Events.Timestamp, Events.Name, Events.Attributes,'',
      ''Links.TraceId, Links.SpanId, Links.TraceState, Links.Attributes)'']"

definition buildInsertSQL :: "string \<Rightarrow> string \<Rightarrow> string \<Rightarrow> string" where
  "buildInsertSQL db table schema =
     ''INSERT INTO `'' @ db @ ''`.`'' @ table @ ''` ('' @ newline @
     (if schema = ''json''
      then concat (map (\<lambda>l. newline @ replicate 3 (CHR 0x09) @ l) json_column_lines)
      else concat (map (\<lambda>l. newline @ replicate 2 (CHR 0x09) @ l) map_column_lines))"

end
