(* ===== verification/Sink.thy ===== *)
theory Sink
  imports Pdata
begin

text \<open>
  What the two sinks of \<open>internal/sink\<close> share: errors as their texts, the context of a call, and the
  contract of the rotation over a list of targets, which both provide.
\<close>

section \<open>Errors and contexts\<close>

text \<open>A Go \<open>error\<close> is its text; nil is \<^term>\<open>None\<close>. A fallible call returns \<open>Inl\<close> the text or \<open>Inr\<close> a value.\<close>

type_synonym error = "string option"

text \<open>
  A \<open>context.Context\<close> as the program derives it. An attempt of a call ends at the shortest timeout on the
  way to the root; \<open>WithoutCancel\<close> cuts the way off.
\<close>

datatype ctx = Background | WithCancel ctx | WithoutCancel ctx | WithTimeout ctx int | WithOutgoing ctx "string \<Rightarrow> string list"

fun timeouts :: "ctx \<Rightarrow> int list" where
  "timeouts Background = []"
| "timeouts (WithCancel c) = timeouts c"
| "timeouts (WithoutCancel c) = []"
| "timeouts (WithTimeout c d) = d # timeouts c"
| "timeouts (WithOutgoing c md) = timeouts c"

fun contains :: "string \<Rightarrow> string \<Rightarrow> bool" where
  "contains p [] = (p = [])"
| "contains p (c # s) = (take (length p) (c # s) = p \<or> contains p s)"

section \<open>Rotation\<close>

text \<open>The targets of \<open>n\<close> picks in a row.\<close>

primrec picks :: "('s \<Rightarrow> ('c \<times> 's) option) \<Rightarrow> nat \<Rightarrow> 's \<Rightarrow> ('c list \<times> 's) option" where
  "picks pk 0 s = Some ([], s)"
| "picks pk (Suc n) s =
     (case pk s of
        None \<Rightarrow> None
      | Some (c, s') \<Rightarrow> (case picks pk n s' of None \<Rightarrow> None | Some (cs, s'') \<Rightarrow> Some (c # cs, s'')))"

lemma mset_rotated: "mset (rotate n xs) = mset xs"
proof (induction n)
  case (Suc n)
  have "mset (rotate1 ys) = mset ys" for ys :: "'a list"
    by (cases ys) simp_all
  with Suc show ?case
    by simp
qed simp

text \<open>
  The contract of a rotation: a single target is taken without touching the counter; of several, the
  counter is advanced and taken modulo their number.
\<close>

locale round_robin =
  fixes pk :: "'s \<Rightarrow> ('c \<times> 's) option" and targets :: "'s \<Rightarrow> 'c list" and cursor :: "'s \<Rightarrow> u64"
  assumes none: "targets s = [] \<Longrightarrow> pk s = None"
    and single: "length (targets s) = 1 \<Longrightarrow> pk s = Some (targets s ! 0, s)"
    and several: "1 < length (targets s) \<Longrightarrow>
      \<exists>s'. pk s = Some (targets s ! (unat (cursor s + 1) mod length (targets s)), s')
         \<and> targets s' = targets s \<and> cursor s' = cursor s + 1"
begin

lemma picks_single: "length (targets s) = 1 \<Longrightarrow> picks pk n s = Some (replicate n (targets s ! 0), s)"
  by (induction n) (simp_all add: single)

lemma cursor_next: "unat (c :: u64) + 1 < 2 ^ 64 \<Longrightarrow> unat (c + 1) = unat c + 1"
  by (simp add: unat_word_ariths)

lemma picks_several:
  assumes "1 < length (targets s)" and "unat (cursor s) + n < 2 ^ 64"
  shows "\<exists>s'. picks pk n s = Some (map (\<lambda>j. targets s ! (j mod length (targets s)))
       [unat (cursor s) + 1 ..< unat (cursor s) + 1 + n], s')
     \<and> targets s' = targets s \<and> cursor s' = cursor s + of_nat n"
  using assms
proof (induction n arbitrary: s)
  case (Suc n)
  let ?c = "unat (cursor s)"
  have next1: "unat (cursor s + 1) = ?c + 1"
    by (rule cursor_next) (use Suc.prems(2) in simp)
  obtain s1 where s1: "pk s = Some (targets s ! ((?c + 1) mod length (targets s)), s1)"
      "targets s1 = targets s" "cursor s1 = cursor s + 1"
    using several [OF Suc.prems(1)] next1 by auto
  have "1 < length (targets s1)" "unat (cursor s1) + n < 2 ^ 64"
    using Suc.prems next1 s1 by simp_all
  then obtain s2 where s2: "picks pk n s1 = Some (map (\<lambda>j. targets s ! (j mod length (targets s)))
        [?c + 1 + 1 ..< ?c + 1 + 1 + n], s2)"
      "targets s2 = targets s" "cursor s2 = cursor s + 1 + of_nat n"
    using Suc.IH [of s1] next1 s1 by auto
  have upt: "[?c + 1 ..< ?c + 1 + Suc n] = (?c + 1) # [?c + 1 + 1 ..< ?c + 1 + 1 + n]"
    by (simp add: upt_conv_Cons)
  show ?case
    by (intro exI [of _ s2]) (simp only: picks.simps s1(1) s2 upt option.case prod.case list.map, simp)
qed simp

lemma rotation: "map (\<lambda>j. xs ! (j mod length xs)) [c ..< c + length xs] = rotate c xs"
  by (rule nth_equalityI) (simp_all add: nth_rotate)

text \<open>Every target is taken once in as many picks as there are targets.\<close>

lemma fair:
  assumes "targets s \<noteq> []" and "unat (cursor s) + length (targets s) < 2 ^ 64"
  shows "\<exists>cs s'. picks pk (length (targets s)) s = Some (cs, s') \<and> mset cs = mset (targets s)"
proof (cases "length (targets s) = 1")
  case True
  then obtain c where "targets s = [c]"
    by (cases "targets s") auto
  with picks_single [OF True, of 1] show ?thesis
    by auto
next
  case False
  then have "1 < length (targets s)"
    using assms(1) by (cases "targets s") auto
  from picks_several [OF this assms(2)]
  obtain s' where "picks pk (length (targets s)) s = Some (rotate (unat (cursor s) + 1) (targets s), s')"
    unfolding rotation by blast
  then show ?thesis
    by (intro exI [of _ "rotate (unat (cursor s) + 1) (targets s)"] exI [of _ s']) (simp only: mset_rotated)
qed

lemma first_pick:
  assumes "1 < length (targets s)" and "unat (cursor s) + 1 < 2 ^ 64"
  shows "\<exists>s'. pk s = Some (targets s ! ((unat (cursor s) + 1) mod length (targets s)), s')"
  using several [OF assms(1)] cursor_next [OF assms(2)] by auto

end

end
