(* ===== verification/ClickHouse.thy ===== *)
theory ClickHouse
  imports ChRows Sink
begin

text \<open>
  \<open>internal/sink/clickhouse.go\<close>: the connection options, the two protocols behind one interface, the
  sink's constructor, \<open>Send\<close>, \<open>Close\<close> and the choice of a connection. clickhouse-go and \<open>database/sql\<close>
  are the fields of \<open>drivers\<close>: operations on a state \<open>'w\<close> of the outside world, whose objects are known
  by their addresses.
\<close>

section \<open>Options\<close>

datatype chProto = Native | HTTP

datatype chMethod = CompressionZSTD | CompressionGZIP | CompressionNone | CompressionLZ4

record Options =
  opt_Addr :: "string list"
  opt_Database :: string
  opt_Username :: string
  opt_Password :: string
  opt_Protocol :: chProto
  opt_DialTimeout :: int
  opt_MaxOpenConns :: int
  opt_MaxIdleConns :: int
  opt_BlockBufferSize :: u8
  opt_Settings :: "(string \<times> int) list"
  opt_Compression :: chMethod
  opt_TLS :: bool

definition chProtocol :: "string \<Rightarrow> chProto" where
  "chProtocol p = (if p = ''http'' then HTTP else Native)"

definition buildCompression :: "string \<Rightarrow> chMethod" where
  "buildCompression method =
     (if method = ''zstd'' then CompressionZSTD
      else if method = ''gzip'' then CompressionGZIP
      else if method = ''none'' then CompressionNone
      else CompressionLZ4)"

definition clampU8 :: "int \<Rightarrow> int" where
  "clampU8 n = (if n < 1 then 1 else if n > 255 then 255 else n)"

definition clampMin1 :: "int \<Rightarrow> int" where
  "clampMin1 n = (if n < 1 then 1 else n)"

definition buildSettings :: "CHConfig \<Rightarrow> (string \<times> int) list" where
  "buildSettings ch =
     (if Schema ch = ''json'' then [(''output_format_native_write_json_as_string'', 1)] else []) @
     (if Async ch then
        [(''async_insert'', 1), (''wait_for_async_insert'', if WaitForAsync ch then 1 else 0)] @
        (if AsyncMaxDataSize ch > 0 then [(''async_insert_max_data_size'', AsyncMaxDataSize ch)] else []) @
        (if AsyncBusyTimeoutMs ch > 0 then [(''async_insert_busy_timeout_ms'', AsyncBusyTimeoutMs ch)] else [])
      else [])"

definition mkOpts :: "CHConfig \<Rightarrow> string list \<Rightarrow> Options" where
  "mkOpts ch addrs =
     \<lparr>opt_Addr = addrs, opt_Database = Database ch, opt_Username = Username ch, opt_Password = Password ch,
      opt_Protocol = chProtocol (Protocol ch), opt_DialTimeout = DialTimeout ch,
      opt_MaxOpenConns = MaxOpenConns ch, opt_MaxIdleConns = MaxOpenConns ch,
      opt_BlockBufferSize = word_of_int (clampU8 (BlockBuffer ch)), opt_Settings = buildSettings ch,
      opt_Compression = buildCompression (Compression ch), opt_TLS = TLS ch\<rparr>"

section \<open>The two client libraries\<close>

type_synonym handle = nat

record 'w drivers =
  chOpen :: "Options \<Rightarrow> 'w \<Rightarrow> (string + handle) \<times> 'w"
  connPing :: "handle \<Rightarrow> ctx \<Rightarrow> 'w \<Rightarrow> error \<times> 'w"
  connClose :: "handle \<Rightarrow> 'w \<Rightarrow> error \<times> 'w"
  PrepareBatch :: "handle \<Rightarrow> ctx \<Rightarrow> string \<Rightarrow> 'w \<Rightarrow> (string + handle) \<times> 'w"
  batchAppend :: "handle \<Rightarrow> cell list \<Rightarrow> 'w \<Rightarrow> error \<times> 'w"
  batchSend :: "handle \<Rightarrow> 'w \<Rightarrow> error \<times> 'w"
  batchAbort :: "handle \<Rightarrow> 'w \<Rightarrow> error \<times> 'w"
  OpenDB :: "Options \<Rightarrow> 'w \<Rightarrow> handle \<times> 'w"
  SetMaxOpenConns :: "handle \<Rightarrow> int \<Rightarrow> 'w \<Rightarrow> 'w"
  SetMaxIdleConns :: "handle \<Rightarrow> int \<Rightarrow> 'w \<Rightarrow> 'w"
  PingContext :: "handle \<Rightarrow> ctx \<Rightarrow> 'w \<Rightarrow> error \<times> 'w"
  dbClose :: "handle \<Rightarrow> 'w \<Rightarrow> error \<times> 'w"
  BeginTx :: "handle \<Rightarrow> ctx \<Rightarrow> 'w \<Rightarrow> (string + handle) \<times> 'w"
  PrepareContext :: "handle \<Rightarrow> ctx \<Rightarrow> string \<Rightarrow> 'w \<Rightarrow> (string + handle) \<times> 'w"
  ExecContext :: "handle \<Rightarrow> ctx \<Rightarrow> cell list \<Rightarrow> 'w \<Rightarrow> error \<times> 'w"
  Commit :: "handle \<Rightarrow> 'w \<Rightarrow> error \<times> 'w"
  Rollback :: "handle \<Rightarrow> 'w \<Rightarrow> error \<times> 'w"
  stmtClose :: "handle \<Rightarrow> 'w \<Rightarrow> error \<times> 'w"

section \<open>\<open>chConn\<close> and \<open>chBatch\<close>\<close>

datatype chConn = nativeConn handle | httpConn handle

datatype chBatch = nativeBatch handle | httpBatch ctx handle handle

definition nativeConn_Ping :: "'w drivers \<Rightarrow> handle \<Rightarrow> ctx \<Rightarrow> 'w \<Rightarrow> error \<times> 'w" where
  "nativeConn_Ping D c cx w = connPing D c cx w"

definition nativeConn_Close :: "'w drivers \<Rightarrow> handle \<Rightarrow> 'w \<Rightarrow> error \<times> 'w" where
  "nativeConn_Close D c w = connClose D c w"

definition nativeConn_newBatch :: "'w drivers \<Rightarrow> handle \<Rightarrow> ctx \<Rightarrow> string \<Rightarrow> 'w \<Rightarrow> (string + chBatch) \<times> 'w" where
  "nativeConn_newBatch D c cx sql w =
     (case PrepareBatch D c cx sql w of
        (Inl err, w1) \<Rightarrow> (Inl err, w1)
      | (Inr b, w1) \<Rightarrow> (Inr (nativeBatch b), w1))"

definition nativeBatch_Append :: "'w drivers \<Rightarrow> handle \<Rightarrow> cell list \<Rightarrow> 'w \<Rightarrow> error \<times> 'w" where
  "nativeBatch_Append D b args w = batchAppend D b args w"

definition nativeBatch_Send :: "'w drivers \<Rightarrow> handle \<Rightarrow> 'w \<Rightarrow> error \<times> 'w" where
  "nativeBatch_Send D b w = batchSend D b w"

definition nativeBatch_Abort :: "'w drivers \<Rightarrow> handle \<Rightarrow> 'w \<Rightarrow> error \<times> 'w" where
  "nativeBatch_Abort D b w = batchAbort D b w"

definition httpConn_Ping :: "'w drivers \<Rightarrow> handle \<Rightarrow> ctx \<Rightarrow> 'w \<Rightarrow> error \<times> 'w" where
  "httpConn_Ping D db cx w = PingContext D db cx w"

definition httpConn_Close :: "'w drivers \<Rightarrow> handle \<Rightarrow> 'w \<Rightarrow> error \<times> 'w" where
  "httpConn_Close D db w = dbClose D db w"

definition httpConn_newBatch :: "'w drivers \<Rightarrow> handle \<Rightarrow> ctx \<Rightarrow> string \<Rightarrow> 'w \<Rightarrow> (string + chBatch) \<times> 'w" where
  "httpConn_newBatch D db cx sql w =
     (case BeginTx D db cx w of
        (Inl err, w1) \<Rightarrow> (Inl err, w1)
      | (Inr tx, w1) \<Rightarrow>
          (case PrepareContext D tx cx sql w1 of
             (Inl err, w2) \<Rightarrow> (Inl err, snd (Rollback D tx w2))
           | (Inr stmt, w2) \<Rightarrow> (Inr (httpBatch cx tx stmt), w2)))"

definition httpBatch_Append :: "'w drivers \<Rightarrow> ctx \<Rightarrow> handle \<Rightarrow> cell list \<Rightarrow> 'w \<Rightarrow> error \<times> 'w" where
  "httpBatch_Append D cx stmt args w = ExecContext D stmt cx args w"

text \<open>The deferred \<open>stmt.Close\<close> runs after the transaction has ended.\<close>

definition httpBatch_Send :: "'w drivers \<Rightarrow> handle \<Rightarrow> handle \<Rightarrow> 'w \<Rightarrow> error \<times> 'w" where
  "httpBatch_Send D tx stmt w = (case Commit D tx w of (err, w1) \<Rightarrow> (err, snd (stmtClose D stmt w1)))"

definition httpBatch_Abort :: "'w drivers \<Rightarrow> handle \<Rightarrow> handle \<Rightarrow> 'w \<Rightarrow> error \<times> 'w" where
  "httpBatch_Abort D tx stmt w = (case Rollback D tx w of (err, w1) \<Rightarrow> (err, snd (stmtClose D stmt w1)))"

text \<open>The methods of the two interfaces.\<close>

fun conn_Ping :: "'w drivers \<Rightarrow> chConn \<Rightarrow> ctx \<Rightarrow> 'w \<Rightarrow> error \<times> 'w" where
  "conn_Ping D (nativeConn c) cx w = nativeConn_Ping D c cx w"
| "conn_Ping D (httpConn db) cx w = httpConn_Ping D db cx w"

fun conn_Close :: "'w drivers \<Rightarrow> chConn \<Rightarrow> 'w \<Rightarrow> error \<times> 'w" where
  "conn_Close D (nativeConn c) w = nativeConn_Close D c w"
| "conn_Close D (httpConn db) w = httpConn_Close D db w"

fun newBatch :: "'w drivers \<Rightarrow> chConn \<Rightarrow> ctx \<Rightarrow> string \<Rightarrow> 'w \<Rightarrow> (string + chBatch) \<times> 'w" where
  "newBatch D (nativeConn c) cx sql w = nativeConn_newBatch D c cx sql w"
| "newBatch D (httpConn db) cx sql w = httpConn_newBatch D db cx sql w"

fun batch_Append :: "'w drivers \<Rightarrow> chBatch \<Rightarrow> cell list \<Rightarrow> 'w \<Rightarrow> error \<times> 'w" where
  "batch_Append D (nativeBatch b) args w = nativeBatch_Append D b args w"
| "batch_Append D (httpBatch cx tx stmt) args w = httpBatch_Append D cx stmt args w"

fun batch_Send :: "'w drivers \<Rightarrow> chBatch \<Rightarrow> 'w \<Rightarrow> error \<times> 'w" where
  "batch_Send D (nativeBatch b) w = nativeBatch_Send D b w"
| "batch_Send D (httpBatch cx tx stmt) w = httpBatch_Send D tx stmt w"

fun batch_Abort :: "'w drivers \<Rightarrow> chBatch \<Rightarrow> 'w \<Rightarrow> error \<times> 'w" where
  "batch_Abort D (nativeBatch b) w = nativeBatch_Abort D b w"
| "batch_Abort D (httpBatch cx tx stmt) w = httpBatch_Abort D tx stmt w"

lemmas receivers [simp] =
  nativeConn_Ping_def nativeConn_Close_def nativeConn_newBatch_def
  nativeBatch_Append_def nativeBatch_Send_def nativeBatch_Abort_def
  httpConn_Ping_def httpConn_Close_def httpConn_newBatch_def
  httpBatch_Append_def httpBatch_Send_def httpBatch_Abort_def

section \<open>The sink\<close>

record chSink =
  conns :: "chConn list"
  insertSQL :: string
  jsonAttrs :: bool
  ch_next :: u64
  sendTO :: int

definition openOne :: "'w drivers \<Rightarrow> CHConfig \<Rightarrow> string list \<Rightarrow> 'w \<Rightarrow> (string + chConn) \<times> 'w" where
  "openOne D ch addrs w =
     (let opt = mkOpts ch addrs
      in if chProtocol (Protocol ch) = HTTP then
           (let opt = opt\<lparr>opt_MaxOpenConns := 0, opt_MaxIdleConns := 0\<rparr>;
                (db, w1) = OpenDB D opt w;
                w2 = SetMaxOpenConns D db (clampMin1 (MaxOpenConns ch)) w1;
                w3 = SetMaxIdleConns D db (clampMin1 (MaxOpenConns ch)) w2
            in (Inr (httpConn db), w3))
         else (case chOpen D opt w of
                 (Inl err, w1) \<Rightarrow> (Inl err, w1)
               | (Inr c, w1) \<Rightarrow> (Inr (nativeConn c), w1)))"

fun open_shards :: "'w drivers \<Rightarrow> CHConfig \<Rightarrow> string list \<Rightarrow> chConn list \<Rightarrow> 'w \<Rightarrow> (string + chConn list) \<times> 'w" where
  "open_shards D ch [] cs w = (Inr cs, w)"
| "open_shards D ch (ep # eps) cs w =
     (case openOne D ch [ep] w of
        (Inl err, w1) \<Rightarrow> (Inl (''open clickhouse '' @ ep @ '': '' @ err), w1)
      | (Inr c, w1) \<Rightarrow> open_shards D ch eps (cs @ [c]) w1)"

text \<open>\<open>%v\<close> of a list of strings.\<close>

definition show_strings :: "string list \<Rightarrow> string" where
  "show_strings ss = CHR ''['' # join_byte (CHR '' '') ss @ '']''"

definition ping_hint :: "string \<Rightarrow> string" where
  "ping_hint err =
     (if contains ''unexpected packet [72]'' err
      then [CHR '' '', CHR 0xE2, CHR 0x80, CHR 0x94] @
        '' got an HTTP response on a native connection: you are using -ch.protocol=native against an HTTP port. Use -ch.protocol=http with port 8123, or point at the native port 9000''
      else [])"

text \<open>The connections of the two kinds of mode.\<close>

definition open_conns :: "'w drivers \<Rightarrow> CHConfig \<Rightarrow> int \<Rightarrow> chSink \<Rightarrow> 'w \<Rightarrow> (string + chSink) \<times> 'w" where
  "open_conns D ch replicaIndex s w =
     (if Mode ch = ''shard-roundrobin'' then
        (case open_shards D ch (Endpoints ch) [] w of
           (Inl err, w1) \<Rightarrow> (Inl err, w1)
         | (Inr cs, w1) \<Rightarrow>
             (Inr (s\<lparr>conns := cs, ch_next := if length cs > 0
                 then word_of_int (replicaIndex smod int (length cs)) else ch_next s\<rparr>), w1))
      else
        (case openOne D ch (Endpoints ch) w of
           (Inl err, w1) \<Rightarrow> (Inl (''open clickhouse: '' @ err), w1)
         | (Inr c, w1) \<Rightarrow> (Inr (s\<lparr>conns := [c]\<rparr>), w1)))"

text \<open>The ping; \<^term>\<open>None\<close> is the panic of \<open>s.conns[0]\<close> on an empty list.\<close>

definition ping_first :: "'w drivers \<Rightarrow> CHConfig \<Rightarrow> chSink \<Rightarrow> 'w \<Rightarrow> ((string + chSink) \<times> 'w) option" where
  "ping_first D ch s w =
     (case slice_at (conns s) 0 of
        None \<Rightarrow> None
      | Some c0 \<Rightarrow>
          Some (case conn_Ping D c0 (WithTimeout Background (DialTimeout ch)) w of
             (Some err, w1) \<Rightarrow>
               (Inl (''clickhouse ping (protocol='' @ Protocol ch @ '' endpoints='' @
                  show_strings (Endpoints ch) @ ''): '' @ err @ ping_hint err), w1)
           | (None, w1) \<Rightarrow> (Inr s, w1)))"

definition NewClickHouse :: "'w drivers \<Rightarrow> Config \<Rightarrow> int \<Rightarrow> 'w \<Rightarrow> ((string + chSink) \<times> 'w) option" where
  "NewClickHouse D c replicaIndex w =
     (let ch = CH c;
          s = \<lparr>conns = [], insertSQL = buildInsertSQL (Database ch) (Table ch) (Schema ch),
               jsonAttrs = (Schema ch = ''json''), ch_next = 0, sendTO = SendTimeout ch\<rparr>
      in case open_conns D ch replicaIndex s w of
           (Inl err, w1) \<Rightarrow> Some (Inl err, w1)
         | (Inr s, w1) \<Rightarrow> ping_first D ch s w1)"

fun close_conns :: "'w drivers \<Rightarrow> chConn list \<Rightarrow> error \<Rightarrow> 'w \<Rightarrow> error \<times> 'w" where
  "close_conns D [] first w = (first, w)"
| "close_conns D (c # cs) first w =
     (case conn_Close D c w of
        (err, w1) \<Rightarrow> close_conns D cs (if err \<noteq> None \<and> first = None then err else first) w1)"

definition ch_Close :: "'w drivers \<Rightarrow> chSink \<Rightarrow> 'w \<Rightarrow> error \<times> 'w" where
  "ch_Close D s w = close_conns D (conns s) None w"

text \<open>\<^term>\<open>None\<close> is the division by zero on an empty list.\<close>

definition ch_pick :: "chSink \<Rightarrow> (chConn \<times> chSink) option" where
  "ch_pick s =
     (if length (conns s) = 1 then Some (conns s ! 0, s)
      else let i = ch_next s + 1; s = s\<lparr>ch_next := i\<rparr>
           in if length (conns s) = 0 then None
              else Some (conns s ! (unat i mod length (conns s)), s))"

fun append_spans :: "'w drivers \<Rightarrow> readers \<Rightarrow> chSink \<Rightarrow> chBatch \<Rightarrow> amap \<Rightarrow> amap \<Rightarrow> string \<Rightarrow> string \<Rightarrow> string
    \<Rightarrow> span list \<Rightarrow> 'w \<Rightarrow> error \<times> 'w" where
  "append_spans D R s b resAttrs scopeAttrs svc sname sver [] w = (None, w)"
| "append_spans D R s b resAttrs scopeAttrs svc sname sver (sp # sps) w =
     (case batch_Append D b (appendSpan R (jsonAttrs s) sp resAttrs scopeAttrs svc sname sver) w of
        (Some err, w1) \<Rightarrow> (Some err, w1)
      | (None, w1) \<Rightarrow> append_spans D R s b resAttrs scopeAttrs svc sname sver sps w1)"

fun append_scopes :: "'w drivers \<Rightarrow> readers \<Rightarrow> chSink \<Rightarrow> chBatch \<Rightarrow> amap \<Rightarrow> string \<Rightarrow> scope_spans list \<Rightarrow> 'w \<Rightarrow> error \<times> 'w" where
  "append_scopes D R s b resAttrs svc [] w = (None, w)"
| "append_scopes D R s b resAttrs svc (ss # sss) w =
     (case append_spans D R s b resAttrs (attrMap R (scope_attributes ss)) svc (scope_name ss) (scope_version ss) (spans ss) w of
        (Some err, w1) \<Rightarrow> (Some err, w1)
      | (None, w1) \<Rightarrow> append_scopes D R s b resAttrs svc sss w1)"

fun append_resources :: "'w drivers \<Rightarrow> readers \<Rightarrow> chSink \<Rightarrow> chBatch \<Rightarrow> Traces \<Rightarrow> 'w \<Rightarrow> error \<times> 'w" where
  "append_resources D R s b [] w = (None, w)"
| "append_resources D R s b (rs # rss) w =
     (let resAttrs = attrMap R (rs_attributes rs)
      in case append_scopes D R s b resAttrs (map_get resAttrs ''service.name'') (rs_scopes rs) w of
           (Some err, w1) \<Rightarrow> (Some err, w1)
         | (None, w1) \<Rightarrow> append_resources D R s b rss w1)"

definition ch_Send :: "'w drivers \<Rightarrow> readers \<Rightarrow> ctx \<Rightarrow> Traces \<Rightarrow> chSink \<Rightarrow> 'w \<Rightarrow> (error \<times> chSink \<times> 'w) option" where
  "ch_Send D R cx td s w =
     (let cx = WithTimeout cx (sendTO s)
      in case ch_pick s of
           None \<Rightarrow> None
         | Some (c, s1) \<Rightarrow>
             Some (case newBatch D c cx (insertSQL s1) w of
                (Inl err, w1) \<Rightarrow> (Some (''prepare batch: '' @ err), s1, w1)
              | (Inr b, w1) \<Rightarrow>
                  (case append_resources D R s1 b td w1 of
                     (Some err, w2) \<Rightarrow> (Some (''append: '' @ err), s1, snd (batch_Abort D b w2))
                   | (None, w2) \<Rightarrow>
                       (case batch_Send D b w2 of
                          (Some err, w3) \<Rightarrow> (Some (''send batch: '' @ err), s1, w3)
                        | (None, w3) \<Rightarrow> (None, s1, w3)))))"

end
