(* ===== verification/ChLaws.thy ===== *)
theory ChLaws
  imports ClickHouse
begin

text \<open>
  The interfaces of the ClickHouse sink. \<open>batch_api\<close> is the contract of \<open>chConn\<close> and \<open>chBatch\<close> that
  \<open>Send\<close> relies on; the laws of clickhouse-go's native batches and of \<open>database/sql\<close> transactions give it
  for both protocols. \<open>connections\<close> is the contract of opening and closing. A small in-memory
  server shows that the laws can hold, and runs the sink on concrete input.
\<close>

section \<open>Rows of a batch\<close>

definition scope_rows :: "readers \<Rightarrow> bool \<Rightarrow> amap \<Rightarrow> scope_spans \<Rightarrow> cell list list" where
  "scope_rows R json resAttrs ss =
     map (\<lambda>sp. appendSpan R json sp resAttrs (attrMap R (scope_attributes ss)) (map_get resAttrs ''service.name'')
            (scope_name ss) (scope_version ss)) (spans ss)"

definition resource_rows :: "readers \<Rightarrow> bool \<Rightarrow> resource_spans \<Rightarrow> cell list list" where
  "resource_rows R json rs = concat (map (scope_rows R json (attrMap R (rs_attributes rs))) (rs_scopes rs))"

definition rows_of :: "readers \<Rightarrow> bool \<Rightarrow> Traces \<Rightarrow> cell list list" where
  "rows_of R json td = concat (map (resource_rows R json) td)"

lemma length_rows_of: "length (rows_of R json td) = total_spans td"
  by (simp add: rows_of_def resource_rows_def [abs_def] scope_rows_def [abs_def] total_spans_def scope_total_def [abs_def]
      length_concat comp_def)

text \<open>Appending a list of rows, up to the first error.\<close>

fun append_rows :: "('b \<Rightarrow> cell list \<Rightarrow> 'w \<Rightarrow> error \<times> 'w) \<Rightarrow> 'b \<Rightarrow> cell list list \<Rightarrow> 'w \<Rightarrow> error \<times> 'w" where
  "append_rows app b [] w = (None, w)"
| "append_rows app b (r # rs) w =
     (case app b r w of (Some err, w1) \<Rightarrow> (Some err, w1) | (None, w1) \<Rightarrow> append_rows app b rs w1)"

lemma append_rows_append:
  "append_rows app b (rs @ rs') w =
     (case append_rows app b rs w of (Some err, w1) \<Rightarrow> (Some err, w1) | (None, w1) \<Rightarrow> append_rows app b rs' w1)"
  by (induction rs arbitrary: w) (auto split: prod.splits option.splits)

lemma append_spans_rows:
  "append_spans D R s b resAttrs scopeAttrs svc sname sver sps w
     = append_rows (batch_Append D) b (map (\<lambda>sp. appendSpan R (jsonAttrs s) sp resAttrs scopeAttrs svc sname sver) sps) w"
  by (induction sps arbitrary: w) (auto split: prod.splits option.splits)

lemma append_scopes_rows:
  "append_scopes D R s b resAttrs (map_get resAttrs ''service.name'') sss w
     = append_rows (batch_Append D) b (concat (map (scope_rows R (jsonAttrs s) resAttrs) sss)) w"
  by (induction sss arbitrary: w)
    (auto simp: append_spans_rows append_rows_append scope_rows_def split: prod.splits option.splits)

text \<open>The three loops of \<open>Send\<close> append the rows of the batch in their order.\<close>

lemma append_resources_rows:
  "append_resources D R s b td w = append_rows (batch_Append D) b (rows_of R (jsonAttrs s) td) w"
  by (induction td arbitrary: w)
    (auto simp: append_scopes_rows append_rows_append rows_of_def resource_rows_def Let_def split: prod.splits option.splits)

section \<open>The contract of a batch\<close>

text \<open>
  \<open>tab\<close>: the committed rows, each with the statement it came by; \<open>pend\<close>: the statement and the rows of an
  open batch. Nothing is promised of a batch whose \<open>Send\<close> fails, except that it only adds its own rows.
\<close>

type_synonym table = "(string \<times> cell list) list"
type_synonym open_batch = "string \<times> cell list list"

locale batch_api =
  fixes newB :: "'c \<Rightarrow> ctx \<Rightarrow> string \<Rightarrow> 'w \<Rightarrow> (string + 'b) \<times> 'w"
    and app :: "'b \<Rightarrow> cell list \<Rightarrow> 'w \<Rightarrow> error \<times> 'w"
    and snd_batch :: "'b \<Rightarrow> 'w \<Rightarrow> error \<times> 'w"
    and abort :: "'b \<Rightarrow> 'w \<Rightarrow> error \<times> 'w"
    and tab :: "'w \<Rightarrow> table"
    and pend :: "'w \<Rightarrow> 'b \<Rightarrow> open_batch option"
  assumes new_error: "newB c cx q w = (Inl e, w') \<Longrightarrow> tab w' = tab w"
    and new_ok: "newB c cx q w = (Inr b, w') \<Longrightarrow> tab w' = tab w \<and> pend w' b = Some (q, [])"
    and app_error: "app b r w = (Some e, w') \<Longrightarrow> tab w' = tab w"
    and app_ok: "pend w b = Some (q, rs) \<Longrightarrow> app b r w = (None, w') \<Longrightarrow> tab w' = tab w \<and> pend w' b = Some (q, rs @ [r])"
    and send_ok: "pend w b = Some (q, rs) \<Longrightarrow> snd_batch b w = (None, w') \<Longrightarrow> tab w' = tab w @ map (Pair q) rs"
    and send_error: "pend w b = Some (q, rs) \<Longrightarrow> snd_batch b w = (Some e, w') \<Longrightarrow>
      \<exists>extra. tab w' = tab w @ extra \<and> set extra \<subseteq> set (map (Pair q) rs)"
    and abort_tab: "tab (snd (abort b w)) = tab w"
begin

lemma append_rows_error: "append_rows app b rs w = (Some e, w') \<Longrightarrow> pend w b = Some (q, rs0) \<Longrightarrow> tab w' = tab w"
proof (induction rs arbitrary: w rs0)
  case (Cons r rs)
  obtain x w1 where r: "app b r w = (x, w1)"
    by (cases "app b r w")
  show ?case
  proof (cases x)
    case None
    with Cons.IH [of w1 "rs0 @ [r]"] app_ok [OF Cons.prems(2)] r Cons.prems(1) show ?thesis
      by simp
  next
    case (Some e')
    with r Cons.prems(1) app_error [of b r w e' w1] show ?thesis
      by simp
  qed
qed simp

lemma append_rows_ok:
  "append_rows app b rs w = (None, w') \<Longrightarrow> pend w b = Some (q, rs0) \<Longrightarrow>
     tab w' = tab w \<and> pend w' b = Some (q, rs0 @ rs)"
proof (induction rs arbitrary: w rs0)
  case (Cons r rs)
  then obtain w1 where "app b r w = (None, w1)" "append_rows app b rs w1 = (None, w')"
    by (auto split: prod.splits option.splits)
  with Cons.IH [of w1 "rs0 @ [r]"] app_ok [OF Cons.prems(2)] show ?case
    by simp
qed simp

end

section \<open>The laws of the two libraries\<close>

text \<open>A prepared batch of clickhouse-go.\<close>

locale native_driver =
  fixes D :: "'w drivers" and tab :: "'w \<Rightarrow> table" and npend :: "'w \<Rightarrow> handle \<Rightarrow> open_batch option"
  assumes prepare_error: "PrepareBatch D c cx q w = (Inl e, w') \<Longrightarrow> tab w' = tab w"
    and prepare_ok: "PrepareBatch D c cx q w = (Inr b, w') \<Longrightarrow> tab w' = tab w \<and> npend w' b = Some (q, [])"
    and nappend_error: "batchAppend D b r w = (Some e, w') \<Longrightarrow> tab w' = tab w"
    and nappend_ok: "npend w b = Some (q, rs) \<Longrightarrow> batchAppend D b r w = (None, w') \<Longrightarrow>
      tab w' = tab w \<and> npend w' b = Some (q, rs @ [r])"
    and nsend_ok: "npend w b = Some (q, rs) \<Longrightarrow> batchSend D b w = (None, w') \<Longrightarrow> tab w' = tab w @ map (Pair q) rs"
    and nsend_error: "npend w b = Some (q, rs) \<Longrightarrow> batchSend D b w = (Some e, w') \<Longrightarrow>
      \<exists>extra. tab w' = tab w @ extra \<and> set extra \<subseteq> set (map (Pair q) rs)"
    and nabort_tab: "tab (snd (batchAbort D b w)) = tab w"

text \<open>A transaction of \<open>database/sql\<close> on clickhouse-go: the rows of its prepared statement are sent by \<open>Commit\<close>.\<close>

locale sql_driver =
  fixes D :: "'w drivers" and tab :: "'w \<Rightarrow> table" and tpend :: "'w \<Rightarrow> handle \<Rightarrow> handle \<Rightarrow> open_batch option"
  assumes begin_tab: "tab (snd (BeginTx D db cx w)) = tab w"
    and stmt_error: "PrepareContext D tx cx q w = (Inl e, w') \<Longrightarrow> tab w' = tab w"
    and stmt_ok: "PrepareContext D tx cx q w = (Inr st, w') \<Longrightarrow> tab w' = tab w \<and> tpend w' tx st = Some (q, [])"
    and exec_error: "ExecContext D st cx r w = (Some e, w') \<Longrightarrow> tab w' = tab w"
    and exec_ok: "tpend w tx st = Some (q, rs) \<Longrightarrow> ExecContext D st cx r w = (None, w') \<Longrightarrow>
      tab w' = tab w \<and> tpend w' tx st = Some (q, rs @ [r])"
    and commit_ok: "tpend w tx st = Some (q, rs) \<Longrightarrow> Commit D tx w = (None, w') \<Longrightarrow> tab w' = tab w @ map (Pair q) rs"
    and commit_error: "tpend w tx st = Some (q, rs) \<Longrightarrow> Commit D tx w = (Some e, w') \<Longrightarrow>
      \<exists>extra. tab w' = tab w @ extra \<and> set extra \<subseteq> set (map (Pair q) rs)"
    and rollback_tab: "tab (snd (Rollback D tx w)) = tab w"
    and stmtClose_tab: "tab (snd (stmtClose D st w)) = tab w"

locale both_drivers = native_driver D tab npend + sql_driver D tab tpend
  for D :: "'w drivers" and tab npend tpend
begin

fun pend :: "'w \<Rightarrow> chBatch \<Rightarrow> open_batch option" where
  "pend w (nativeBatch b) = npend w b"
| "pend w (httpBatch cx tx st) = tpend w tx st"

lemma begin_same: "BeginTx D db cx w = (r, w') \<Longrightarrow> tab w' = tab w"
  by (metis begin_tab snd_conv)

lemma rollback_same: "Rollback D tx w = (r, w') \<Longrightarrow> tab w' = tab w"
  by (metis rollback_tab snd_conv)

lemma newBatch_error: "newBatch D c cx q w = (Inl e, w') \<Longrightarrow> tab w' = tab w"
  by (cases c)
    (auto simp: rollback_tab split: prod.splits sum.splits dest!: prepare_error stmt_error begin_same)

lemma newBatch_ok: "newBatch D c cx q w = (Inr b, w') \<Longrightarrow> tab w' = tab w \<and> pend w' b = Some (q, [])"
  by (cases c)
    (auto split: prod.splits sum.splits dest!: prepare_ok stmt_ok begin_same)

lemma Append_error: "batch_Append D b r w = (Some e, w') \<Longrightarrow> tab w' = tab w"
  by (cases b) (auto dest: nappend_error exec_error)

lemma Append_ok:
  "pend w b = Some (q, rs) \<Longrightarrow> batch_Append D b r w = (None, w') \<Longrightarrow> tab w' = tab w \<and> pend w' b = Some (q, rs @ [r])"
  by (cases b) (auto dest: nappend_ok exec_ok)

lemma Send_ok: "pend w b = Some (q, rs) \<Longrightarrow> batch_Send D b w = (None, w') \<Longrightarrow> tab w' = tab w @ map (Pair q) rs"
  by (cases b) (auto simp: stmtClose_tab split: prod.splits dest: nsend_ok commit_ok)

lemma Send_error:
  "pend w b = Some (q, rs) \<Longrightarrow> batch_Send D b w = (Some e, w') \<Longrightarrow>
     \<exists>extra. tab w' = tab w @ extra \<and> set extra \<subseteq> set (map (Pair q) rs)"
  using nsend_error commit_error by (cases b) (fastforce simp: stmtClose_tab split: prod.splits)+

lemma Abort_tab: "tab (snd (batch_Abort D b w)) = tab w"
  by (cases b) (auto simp: nabort_tab stmtClose_tab split: prod.splits dest!: rollback_same)

end

text \<open>Both protocols provide the contract.\<close>

sublocale both_drivers \<subseteq> batch: batch_api "newBatch D" "batch_Append D" "batch_Send D" "batch_Abort D" tab pend
  by unfold_locales (fact newBatch_error newBatch_ok Append_error Append_ok Send_ok Send_error Abort_tab)+


text \<open>
  When the laws may be relied on. An asynchronous insert that is not waited for is acknowledged before the server has
  stored its rows, and its errors do not reach the client; so the laws are promised for connections whose settings do
  not ask for that.
\<close>

definition waits :: "(string \<times> int) list \<Rightarrow> bool" where
  "waits st \<longleftrightarrow> \<not> (map_of st ''async_insert'' = Some 1 \<and> map_of st ''wait_for_async_insert'' = Some 0)"

lemma waits_buildSettings: "waits (buildSettings ch) \<longleftrightarrow> (Async ch \<longrightarrow> WaitForAsync ch)"
  by (simp add: waits_def buildSettings_def)

section \<open>The choice of a connection\<close>

lemma ch_pick_fields:
  "ch_pick s = Some (c, s1) \<Longrightarrow> c \<in> set (conns s) \<and> conns s1 = conns s \<and> insertSQL s1 = insertSQL s
     \<and> jsonAttrs s1 = jsonAttrs s \<and> sendTO s1 = sendTO s"
  by (auto simp: ch_pick_def Let_def split: if_splits)

interpretation ch_rr: round_robin ch_pick conns ch_next
  by unfold_locales (auto simp: ch_pick_def Let_def)

section \<open>\<open>Send\<close>\<close>

context both_drivers
begin

lemma ch_Send_ok:
  assumes "ch_Send D R cx td s w = Some (None, s', w')"
  shows "tab w' = tab w @ map (Pair (insertSQL s)) (rows_of R (jsonAttrs s) td)"
proof -
  obtain c s1 where p: "ch_pick s = Some (c, s1)"
    using assms by (auto simp: ch_Send_def Let_def split: option.splits)
  obtain b w1 where n: "newBatch D c (WithTimeout cx (sendTO s)) (insertSQL s1) w = (Inr b, w1)"
    using assms p by (auto simp: ch_Send_def Let_def split: prod.splits sum.splits)
  obtain w2 where a: "append_resources D R s1 b td w1 = (None, w2)"
    using assms p n by (auto simp: ch_Send_def Let_def split: prod.splits option.splits)
  have f: "insertSQL s1 = insertSQL s" "jsonAttrs s1 = jsonAttrs s"
    using ch_pick_fields [OF p] by simp_all
  have rows: "tab w2 = tab w" "pend w2 b = Some (insertSQL s, rows_of R (jsonAttrs s) td)"
    using batch.append_rows_ok [OF a [unfolded append_resources_rows f]] newBatch_ok [OF n [unfolded f]] by simp_all
  have "batch_Send D b w2 = (None, w')"
    using assms p n a by (auto simp: ch_Send_def Let_def split: prod.splits option.splits)
  from Send_ok [OF rows(2) this] rows(1) show ?thesis
    by simp
qed

lemma ch_Send_error:
  assumes "ch_Send D R cx td s w = Some (Some e, s', w')"
  shows "tab w' = tab w \<or> take 12 e = ''send batch: '' \<and>
    (\<exists>extra. tab w' = tab w @ extra \<and> set extra \<subseteq> set (map (Pair (insertSQL s)) (rows_of R (jsonAttrs s) td)))"
proof -
  obtain c s1 where p: "ch_pick s = Some (c, s1)"
    using assms by (auto simp: ch_Send_def Let_def split: option.splits)
  have f: "insertSQL s1 = insertSQL s" "jsonAttrs s1 = jsonAttrs s"
    using ch_pick_fields [OF p] by simp_all
  obtain r w1 where n: "newBatch D c (WithTimeout cx (sendTO s)) (insertSQL s1) w = (r, w1)"
    by fastforce
  show ?thesis
  proof (cases r)
    case (Inl err)
    with assms p n newBatch_error show ?thesis
      by (auto simp: ch_Send_def Let_def)
  next
    case (Inr b)
    have b: "tab w1 = tab w" "pend w1 b = Some (insertSQL s, [])"
      using newBatch_ok [OF n [unfolded Inr f]] by simp_all
    obtain x w2 where a: "append_resources D R s1 b td w1 = (x, w2)"
      by fastforce
    show ?thesis
    proof (cases x)
      case (Some err)
      have "tab w2 = tab w"
        using batch.append_rows_error [OF a [unfolded append_resources_rows f Some] b(2)] b(1) by simp
      with assms p n Inr a Some Abort_tab show ?thesis
        by (auto simp: ch_Send_def Let_def)
    next
      case None
      have rows: "tab w2 = tab w" "pend w2 b = Some (insertSQL s, rows_of R (jsonAttrs s) td)"
        using batch.append_rows_ok [OF a [unfolded append_resources_rows f None] b(2)] b(1) by simp_all
      obtain err where "batch_Send D b w2 = (Some err, w')" "e = ''send batch: '' @ err"
        using assms p n Inr a None by (auto simp: ch_Send_def Let_def split: prod.splits option.splits)
      with Send_error [OF rows(2)] rows(1) show ?thesis
        by fastforce
    qed
  qed
qed

end

text \<open>What a batch amounts to in the table.\<close>

definition batch_rows :: "readers \<Rightarrow> chSink \<Rightarrow> Traces \<Rightarrow> table" where
  "batch_rows R s td = map (Pair (insertSQL s)) (rows_of R (jsonAttrs s) td)"

section \<open>Opening and closing\<close>

text \<open>\<open>live\<close>: the open connections. \<open>Close\<close> releases a connection also when it reports an error.\<close>

locale connections =
  fixes D :: "'w drivers" and live :: "'w \<Rightarrow> chConn set"
  assumes open_error: "chOpen D opt w = (Inl e, w') \<Longrightarrow> live w' = live w"
    and open_ok: "chOpen D opt w = (Inr c, w') \<Longrightarrow> nativeConn c \<notin> live w \<and> live w' = insert (nativeConn c) (live w)"
    and openDB: "OpenDB D opt w = (db, w') \<Longrightarrow> httpConn db \<notin> live w \<and> live w' = insert (httpConn db) (live w)"
    and set_open: "live (SetMaxOpenConns D db n w) = live w"
    and set_idle: "live (SetMaxIdleConns D db n w) = live w"
    and ping_native: "live (snd (connPing D c cx w)) = live w"
    and ping_http: "live (snd (PingContext D db cx w)) = live w"
    and close_native: "live (snd (connClose D c w)) = live w - {nativeConn c}"
    and close_http: "live (snd (dbClose D db w)) = live w - {httpConn db}"
begin

lemma Ping_live: "conn_Ping D c cx w = (e, w') \<Longrightarrow> live w' = live w"
  using ping_native [of _ cx w] ping_http [of _ cx w] by (cases c) (simp_all, (metis snd_conv)+)

lemma Close_live: "live (snd (conn_Close D c w)) = live w - {c}"
  by (cases c) (simp_all add: close_native close_http)

lemma openOne_error: "openOne D ch addrs w = (Inl e, w') \<Longrightarrow> live w' = live w"
  by (auto simp: openOne_def Let_def dest!: open_error split: if_splits prod.splits sum.splits)

lemma openOne_ok: "openOne D ch addrs w = (Inr c, w') \<Longrightarrow> c \<notin> live w \<and> live w' = insert c (live w)"
proof (cases "chProtocol (Protocol ch) = HTTP")
  case True
  let ?opt = "(mkOpts ch addrs)\<lparr>opt_MaxOpenConns := 0, opt_MaxIdleConns := 0\<rparr>"
  obtain db w1 where db: "OpenDB D ?opt w = (db, w1)"
    by fastforce
  assume "openOne D ch addrs w = (Inr c, w')"
  with True db have "c = httpConn db" "live w' = live w1"
    by (auto simp: openOne_def Let_def set_open set_idle)
  with openDB [OF db] show ?thesis
    by simp
next
  case False
  assume "openOne D ch addrs w = (Inr c, w')"
  with False obtain h where "chOpen D (mkOpts ch addrs) w = (Inr h, w')" "c = nativeConn h"
    by (auto simp: openOne_def Let_def split: prod.splits sum.splits)
  with open_ok show ?thesis
    by blast
qed

lemma open_shards_live:
  "open_shards D ch eps cs w = (r, w') \<Longrightarrow>
     \<exists>new. distinct new \<and> set new \<inter> live w = {} \<and> live w' = live w \<union> set new
       \<and> (case r of Inl e \<Rightarrow> take 16 e = ''open clickhouse '' \<and> length new < length eps
          | Inr cs' \<Rightarrow> cs' = cs @ new \<and> length new = length eps)"
proof (induction eps arbitrary: cs w)
  case (Cons ep eps)
  obtain x w1 where x: "openOne D ch [ep] w = (x, w1)"
    by fastforce
  show ?case
  proof (cases x)
    case (Inl e)
    with x Cons.prems openOne_error show ?thesis
      by (intro exI [of _ "[]"]) auto
  next
    case (Inr c)
    with x Cons.prems have "open_shards D ch eps (cs @ [c]) w1 = (r, w')"
      by simp
    from Cons.IH [OF this] obtain new where new: "distinct new" "set new \<inter> live w1 = {}" "live w' = live w1 \<union> set new"
        "case r of Inl e \<Rightarrow> take 16 e = ''open clickhouse '' \<and> length new < length eps
          | Inr cs' \<Rightarrow> cs' = (cs @ [c]) @ new \<and> length new = length eps"
      by blast
    moreover have "c \<notin> live w" "live w1 = insert c (live w)"
      using openOne_ok [OF x [unfolded Inr]] by simp_all
    ultimately show ?thesis
      by (intro exI [of _ "c # new"]) (auto split: sum.splits)
  qed
qed (auto intro: exI [of _ "[]"])

lemma close_conns_live: "live (snd (close_conns D cs first w)) = live w - set cs"
proof (induction cs arbitrary: first w)
  case (Cons c cs)
  obtain e w1 where "conn_Close D c w = (e, w1)"
    by fastforce
  with Cons.IH [of _ w1] Close_live [of c w] show ?case
    by auto
qed simp

end

text \<open>The errors of the \<open>Close\<close> calls, in their order.\<close>

fun close_errors :: "'w drivers \<Rightarrow> chConn list \<Rightarrow> 'w \<Rightarrow> string list" where
  "close_errors D [] w = []"
| "close_errors D (c # cs) w =
     (case conn_Close D c w of (err, w1) \<Rightarrow> (case err of Some e \<Rightarrow> [e] | None \<Rightarrow> []) @ close_errors D cs w1)"

lemma close_conns_first:
  "fst (close_conns D cs first w)
     = (case first of Some e \<Rightarrow> Some e | None \<Rightarrow> (case close_errors D cs w of e # es \<Rightarrow> Some e | [] \<Rightarrow> None))"
proof (induction cs arbitrary: first w)
  case (Cons c cs)
  obtain e w1 where "conn_Close D c w = (e, w1)"
    by fastforce
  with Cons.IH [of _ w1] show ?case
    by (cases e; cases first) simp_all
qed (simp split: option.split)

section \<open>A server in memory\<close>

text \<open>
  Every call ticks a clock; the calls at the times of \<open>m_down\<close> are refused. New objects get addresses above
  those in use.
\<close>

record mem =
  m_clock :: nat
  m_down :: "nat list"
  m_table :: table
  m_open :: "(handle \<times> open_batch) list"
  m_tx :: "(handle \<times> handle) list"
  m_live :: "chConn list"

definition mem0 :: "nat list \<Rightarrow> mem" where
  "mem0 down = \<lparr>m_clock = 0, m_down = down, m_table = [], m_open = [], m_tx = [], m_live = []\<rparr>"

definition tick :: "mem \<Rightarrow> mem" where
  "tick w = w\<lparr>m_clock := m_clock w + 1\<rparr>"

definition refused :: string where
  "refused = ''connection refused''"

definition m_call :: "(mem \<Rightarrow> mem) \<Rightarrow> mem \<Rightarrow> error \<times> mem" where
  "m_call f w = (if m_clock w \<in> set (m_down w) then (Some refused, tick w) else (None, tick (f w)))"

definition fresh_object :: "mem \<Rightarrow> handle" where
  "fresh_object w = Suc (sum_list (map fst (m_open w)) + sum_list (map fst (m_tx w)))"

definition m_make :: "(handle \<Rightarrow> mem \<Rightarrow> mem) \<Rightarrow> mem \<Rightarrow> (string + handle) \<times> mem" where
  "m_make f w = (if m_clock w \<in> set (m_down w) then (Inl refused, tick w) else (Inr (fresh_object w), tick (f (fresh_object w) w)))"

definition m_append :: "handle \<Rightarrow> cell list \<Rightarrow> mem \<Rightarrow> mem" where
  "m_append b r w =
     (case map_of (m_open w) b of Some (q, rs) \<Rightarrow> w\<lparr>m_open := (b, q, rs @ [r]) # m_open w\<rparr> | None \<Rightarrow> w)"

definition m_commit :: "handle \<Rightarrow> mem \<Rightarrow> mem" where
  "m_commit b w =
     (case map_of (m_open w) b of Some (q, rs) \<Rightarrow> w\<lparr>m_table := m_table w @ map (Pair q) rs\<rparr> | None \<Rightarrow> w)"

fun conn_addr :: "chConn \<Rightarrow> handle" where
  "conn_addr (nativeConn h) = h"
| "conn_addr (httpConn h) = h"

definition fresh :: "mem \<Rightarrow> handle" where
  "fresh w = Suc (sum_list (map conn_addr (m_live w)))"

definition m_connect :: "chConn \<Rightarrow> mem \<Rightarrow> mem" where
  "m_connect c w = w\<lparr>m_live := c # m_live w\<rparr>"

definition m_close :: "chConn \<Rightarrow> mem \<Rightarrow> mem" where
  "m_close c w = w\<lparr>m_live := removeAll c (m_live w)\<rparr>"

definition mem_drivers :: "mem drivers" where
  "mem_drivers = \<lparr>
     chOpen = (\<lambda>opt w. case m_call (m_connect (nativeConn (fresh w))) w of
       (Some e, w1) \<Rightarrow> (Inl e, w1) | (None, w1) \<Rightarrow> (Inr (fresh w), w1)),
     connPing = (\<lambda>c cx. m_call id),
     connClose = (\<lambda>c w. (fst (m_call id w), tick (m_close (nativeConn c) w))),
     PrepareBatch = (\<lambda>c cx q. m_make (\<lambda>h w. w\<lparr>m_open := (h, q, []) # m_open w\<rparr>)),
     batchAppend = (\<lambda>b r. m_call (m_append b r)),
     batchSend = (\<lambda>b. m_call (m_commit b)),
     batchAbort = (\<lambda>b. m_call id),
     OpenDB = (\<lambda>opt w. (fresh w, tick (m_connect (httpConn (fresh w)) w))),
     SetMaxOpenConns = (\<lambda>db n w. w),
     SetMaxIdleConns = (\<lambda>db n w. w),
     PingContext = (\<lambda>db cx. m_call id),
     dbClose = (\<lambda>c w. (fst (m_call id w), tick (m_close (httpConn c) w))),
     BeginTx = (\<lambda>db cx. m_make (\<lambda>h. id)),
     PrepareContext = (\<lambda>tx cx q. m_make (\<lambda>h w. w\<lparr>m_open := (h, q, []) # m_open w, m_tx := (tx, h) # m_tx w\<rparr>)),
     ExecContext = (\<lambda>st cx r. m_call (m_append st r)),
     Commit = (\<lambda>tx. m_call (\<lambda>w. case map_of (m_tx w) tx of Some st \<Rightarrow> m_commit st w | None \<Rightarrow> w)),
     Rollback = (\<lambda>tx. m_call id),
     stmtClose = (\<lambda>st. m_call id)\<rparr>"


definition mem_tpend :: "mem \<Rightarrow> handle \<Rightarrow> handle \<Rightarrow> open_batch option" where
  "mem_tpend w tx st = (if map_of (m_tx w) tx = Some st then map_of (m_open w) st else None)"

lemmas mem_defs = mem_drivers_def m_call_def m_make_def m_append_def m_commit_def m_connect_def m_close_def tick_def

lemma fresh_live: "nativeConn (fresh w) \<notin> set (m_live w)" "httpConn (fresh w) \<notin> set (m_live w)"
proof -
  have "conn_addr c \<le> sum_list (map conn_addr (m_live w))" if "c \<in> set (m_live w)" for c
    using that by (intro member_le_sum_list) auto
  then show "nativeConn (fresh w) \<notin> set (m_live w)" "httpConn (fresh w) \<notin> set (m_live w)"
    by (fastforce simp: fresh_def)+
qed

interpretation mem: both_drivers mem_drivers m_table "\<lambda>w. map_of (m_open w)" mem_tpend
  by unfold_locales (auto simp: mem_defs mem_tpend_def split: if_splits option.splits)

interpretation mem: connections mem_drivers "\<lambda>w. set (m_live w)"
  by unfold_locales (auto simp: mem_defs fresh_live split: if_splits)

end
