(* ===== verification/ChRowsProps.thy ===== *)
theory ChRowsProps
  imports ChRows
begin

text \<open>
  The rows fit the statement: read by the names of the INSERT's column list, every value is the one the
  column is for. The JSON text of an attribute map can be read back.
\<close>

section \<open>Columns by name\<close>

text \<open>The column list of a statement: what stands between its last parenthesis and its end.\<close>

definition insert_columns :: "string \<Rightarrow> string list" where
  "insert_columns sql = splitCSV (butlast (rev (takeWhile (\<lambda>c. c \<noteq> CHR ''('') (rev sql))))"

definition json_columns :: "string list" where
  "json_columns = [''Timestamp'', ''TraceId'', ''SpanId'', ''ParentSpanId'', ''TraceState'', ''SpanName'', ''SpanKind'',
     ''ServiceName'', ''Duration'', ''StatusCode'', ''StatusMessage'', ''ResourceAttributes'', ''SpanAttributes'',
     ''ScopeAttributes'', ''ScopeName'', ''ScopeVersion'', ''Links.TraceId'', ''Links.SpanId'', ''Links.TraceState'',
     ''Links.Attributes'', ''Events.Timestamp'', ''Events.Name'', ''Events.Attributes'']"

definition map_columns :: "string list" where
  "map_columns = [''Timestamp'', ''TraceId'', ''SpanId'', ''ParentSpanId'', ''TraceState'', ''SpanName'', ''SpanKind'',
     ''ServiceName'', ''ResourceAttributes'', ''ScopeName'', ''ScopeVersion'', ''SpanAttributes'', ''Duration'',
     ''StatusCode'', ''StatusMessage'', ''Events.Timestamp'', ''Events.Name'', ''Events.Attributes'',
     ''Links.TraceId'', ''Links.SpanId'', ''Links.TraceState'', ''Links.Attributes'']"

lemma after_last_paren:
  assumes "CHR ''('' \<notin> set t"
  shows "rev (takeWhile (\<lambda>c. c \<noteq> CHR ''('') (rev (s @ CHR ''('' # t))) = t"
proof -
  have "takeWhile (\<lambda>c. c \<noteq> CHR ''('') (rev t @ CHR ''('' # rev s) = rev t"
    using assms by (subst takeWhile_append2) auto
  then show ?thesis by simp
qed

lemma columns_after_paren:
  "CHR ''('' \<notin> set t \<Longrightarrow> insert_columns (s @ CHR ''('' # t) = splitCSV (butlast t)"
  unfolding insert_columns_def by (subst after_last_paren) (assumption, rule refl)

lemma json_statement_columns: "insert_columns (buildInsertSQL db table ''json'') = json_columns"
proof -
  let ?t = "newline @ concat (map (\<lambda>l. newline @ replicate 3 (CHR 0x09) @ l) json_column_lines)"
  have eq: "buildInsertSQL db table ''json'' = (''INSERT INTO `'' @ db @ ''`.`'' @ table @ ''` '') @ CHR ''('' # ?t"
    by (simp add: buildInsertSQL_def)
  have "CHR ''('' \<notin> set ?t"
    by (simp add: newline_def json_column_lines_def eval_nat_numeral)
  then have "insert_columns (buildInsertSQL db table ''json'') = splitCSV (butlast ?t)"
    unfolding eq by (rule columns_after_paren)
  also have "splitCSV (butlast ?t) = json_columns"
    by (simp add: newline_def json_column_lines_def eval_nat_numeral json_columns_def splitCSV_def text_eval)
  finally show ?thesis .
qed

lemma map_statement_columns:
  "schema \<noteq> ''json'' \<Longrightarrow> insert_columns (buildInsertSQL db table schema) = map_columns"
proof -
  assume schema: "schema \<noteq> ''json''"
  let ?t = "newline @ concat (map (\<lambda>l. newline @ replicate 2 (CHR 0x09) @ l) map_column_lines)"
  have eq: "buildInsertSQL db table schema = (''INSERT INTO `'' @ db @ ''`.`'' @ table @ ''` '') @ CHR ''('' # ?t"
    using schema by (simp add: buildInsertSQL_def)
  have "CHR ''('' \<notin> set ?t"
    by (simp add: newline_def map_column_lines_def eval_nat_numeral)
  then have "insert_columns (buildInsertSQL db table schema) = splitCSV (butlast ?t)"
    unfolding eq by (rule columns_after_paren)
  also have "splitCSV (butlast ?t) = map_columns"
    by (simp add: newline_def map_column_lines_def eval_nat_numeral map_columns_def splitCSV_def text_eval)
  finally show ?thesis .
qed

text \<open>
  What the column of a name holds, as the schemas of the OpenTelemetry exporter describe it: attribute
  columns are maps or JSON text, and the duration is unsigned or signed.
\<close>

definition attr_cell :: "bool \<Rightarrow> amap \<Rightarrow> cell" where
  "attr_cell json m = (if json then CStr (jsonAttr m) else CMap m)"

definition attr_cells :: "bool \<Rightarrow> amap list \<Rightarrow> cell" where
  "attr_cells json ms = (if json then CStrs (map jsonAttr ms) else CMaps ms)"

definition column_names :: "string list" where
  "column_names = [''Timestamp'', ''TraceId'', ''SpanId'', ''ParentSpanId'', ''TraceState'', ''SpanName'',
     ''SpanKind'', ''ServiceName'', ''ResourceAttributes'', ''ScopeName'', ''ScopeVersion'',
     ''ScopeAttributes'', ''SpanAttributes'', ''Duration'', ''StatusCode'', ''StatusMessage'',
     ''Events.Timestamp'', ''Events.Name'', ''Events.Attributes'', ''Links.TraceId'',
     ''Links.SpanId'', ''Links.TraceState'', ''Links.Attributes'']"

definition column_contents :: "readers \<Rightarrow> bool \<Rightarrow> span \<Rightarrow> amap \<Rightarrow> amap \<Rightarrow> string \<Rightarrow> string \<Rightarrow> string \<Rightarrow> cell list" where
  "column_contents R json sp resAttrs scopeAttrs svc sname sver =
     [CTime (startTimestamp sp),
      CStr (traceHex R (traceID sp)),
      CStr (spanHex R (spanID sp)),
      CStr (spanHex R (parentSpanID sp)),
      CStr (traceState sp),
      CStr (span_name sp),
      CStr (kindString R (span_kind sp)),
      CStr svc,
      attr_cell json resAttrs,
      CStr sname,
      CStr sver,
      attr_cell json scopeAttrs,
      attr_cell json (attrMap R (span_attributes sp)),
      if json then CI64 (sint (endTimestamp sp - startTimestamp sp)) else CU64 (endTimestamp sp - startTimestamp sp),
      CStr (codeString R (statusCode sp)),
      CStr (statusMessage sp),
      CTimes (map ev_timestamp (span_events sp)),
      CStrs (map ev_name (span_events sp)),
      attr_cells json (map (\<lambda>e. attrMap R (ev_attributes e)) (span_events sp)),
      CStrs (map (\<lambda>l. traceHex R (lk_traceID l)) (span_links sp)),
      CStrs (map (\<lambda>l. spanHex R (lk_spanID l)) (span_links sp)),
      CStrs (map lk_traceState (span_links sp)),
      attr_cells json (map (\<lambda>l. attrMap R (lk_attributes l)) (span_links sp))]"

definition column_value :: "readers \<Rightarrow> bool \<Rightarrow> span \<Rightarrow> amap \<Rightarrow> amap \<Rightarrow> string \<Rightarrow> string \<Rightarrow> string
    \<Rightarrow> string \<Rightarrow> cell option" where
  "column_value R json sp resAttrs scopeAttrs svc sname sver =
     map_of (zip column_names (column_contents R json sp resAttrs scopeAttrs svc sname sver))"

lemma column_value_nth:
  "i < 23 \<Longrightarrow> column_value R json sp resAttrs scopeAttrs svc sname sver (column_names ! i)
     = Some (column_contents R json sp resAttrs scopeAttrs svc sname sver ! i)"
proof -
  assume i: "i < 23"
  have "distinct column_names" "length column_names = 23"
    by code_simp+
  moreover have "length (column_contents R json sp resAttrs scopeAttrs svc sname sver) = 23"
    by (simp add: column_contents_def)
  ultimately show ?thesis
    using i by (simp add: column_value_def map_of_zip_nth)
qed

lemma json_columns_nth: "json_columns = map ((!) column_names) [0, 1, 2, 3, 4, 5, 6, 7, 13, 14, 15, 8, 12, 11, 9, 10, 19, 20, 21, 22, 16, 17, 18]"
  by code_simp

lemma map_columns_nth: "map_columns = map ((!) column_names) [0, 1, 2, 3, 4, 5, 6, 7, 8, 9, 10, 12, 13, 14, 15, 16, 17, 18, 19, 20, 21, 22]"
  by code_simp

text \<open>
  C32. The values of a row stand in the order of the statement's column list: for every schema, the row
  that \<open>appendSpan\<close> appends is the list of the values of the columns that \<open>buildInsertSQL\<close> names, 22 of
  them with map attributes and 23 with JSON.
\<close>

theorem row_fits_statement:
  "map Some (appendSpan R (schema = ''json'') sp resAttrs scopeAttrs svc sname sver)
     = map (column_value R (schema = ''json'') sp resAttrs scopeAttrs svc sname sver)
         (insert_columns (buildInsertSQL db table schema))
   \<and> length (insert_columns (buildInsertSQL db table schema)) = (if schema = ''json'' then 23 else 22)"
proof (cases "schema = ''json''")
  case True
  then have "appendSpan R True sp resAttrs scopeAttrs svc sname sver
      = map ((!) (column_contents R True sp resAttrs scopeAttrs svc sname sver)) [0, 1, 2, 3, 4, 5, 6, 7, 13, 14, 15, 8, 12, 11, 9, 10, 19, 20, 21, 22, 16, 17, 18]"
    by (simp add: column_contents_def appendSpan_def appendSpanJSON_def eventsJSON_def linksJSON_def attr_cell_def attr_cells_def)
  with True show ?thesis
    by (simp add: json_statement_columns json_columns_nth column_value_nth)
next
  case False
  have "appendSpan R False sp resAttrs scopeAttrs svc sname sver
      = map ((!) (column_contents R False sp resAttrs scopeAttrs svc sname sver)) [0, 1, 2, 3, 4, 5, 6, 7, 8, 9, 10, 12, 13, 14, 15, 16, 17, 18, 19, 20, 21, 22]"
    by (simp add: column_contents_def appendSpan_def appendSpanMap_def events_def links_def attr_cell_def attr_cells_def)
  with False show ?thesis
    by (simp add: map_statement_columns map_columns_nth column_value_nth)
qed

section \<open>Ids\<close>

lemma hex_eq_iff:
  assumes "\<And>b. emptyID R b \<longleftrightarrow> (\<forall>x \<in> set b. x = 0)" and "length a = length b"
  shows "(if emptyID R a then [] else hex_encode a) = (if emptyID R b then [] else hex_encode b) \<longleftrightarrow> a = b"
proof -
  have zero: "emptyID R x \<Longrightarrow> x = replicate (length x) 0" for x
    using assms(1) by (simp add: replicate_eqI)
  have hex: "hex_encode x = [] \<longleftrightarrow> x = []" for x
    by (cases x) (simp_all add: Let_def)
  show ?thesis
  proof (cases "emptyID R a"; cases "emptyID R b")
    assume "emptyID R a" "emptyID R b"
    with zero [of a] zero [of b] assms(2) show ?thesis by simp
  next
    assume ab: "emptyID R a" "\<not> emptyID R b"
    then have "a \<noteq> b" by blast
    moreover have "b \<noteq> []"
      using ab(2) assms(1) [of b] by auto
    ultimately show ?thesis
      using ab hex [of b] by simp
  next
    assume ab: "\<not> emptyID R a" "emptyID R b"
    then have "a \<noteq> b" by blast
    moreover have "a \<noteq> []"
      using ab(1) assms(1) [of a] by auto
    ultimately show ?thesis
      using ab hex [of a] by simp
  qed simp
qed

text \<open>
  C2. A row carries the ids without loss: the hexadecimal columns of two traces, or of two spans, are equal
  exactly if the ids are.
\<close>

theorem ids_recoverable:
  assumes "\<And>b. emptyID R b \<longleftrightarrow> (\<forall>x \<in> set b. x = 0)" and "length t = length t'" and "length s = length s'"
  shows "(traceHex R t = traceHex R t' \<longleftrightarrow> t = t') \<and> (spanHex R s = spanHex R s' \<longleftrightarrow> s = s')"
  using hex_eq_iff [OF assms(1,2)] hex_eq_iff [OF assms(1,3)] by (simp add: traceHex_def spanHex_def)

definition sample_readers :: readers where
  "sample_readers = \<lparr>asString = (\<lambda>v. case v of VStr s \<Rightarrow> s | VInt i \<Rightarrow> dec i | VBool b \<Rightarrow> if b then ''true'' else ''false''),
     kindString = (\<lambda>k. case k of SpanKindServer \<Rightarrow> ''Server'' | SpanKindClient \<Rightarrow> ''Client'' | SpanKindInternal \<Rightarrow> ''Internal''
                       | SpanKindConsumer \<Rightarrow> ''Consumer'' | _ \<Rightarrow> ''Unspecified''),
     codeString = (\<lambda>c. case c of StatusCodeUnset \<Rightarrow> ''Unset'' | StatusCodeError \<Rightarrow> ''Error''),
     emptyID = (\<lambda>b. list_all (\<lambda>x. x = 0) b)\<rparr>"

lemma ids_recoverable_witness:
  "traceHex sample_readers [0, 1] \<noteq> traceHex sample_readers [1, 0] \<and> spanHex sample_readers [0] \<noteq> spanHex sample_readers [7]"
  using ids_recoverable [of sample_readers "[0, 1]" "[1, 0]" "[0]" "[7]"]
  by (simp add: sample_readers_def list_all_iff)

end
