(* ===== verification/ChProps.thy ===== *)
theory ChProps
  imports ChLaws ChRowsProps ConfigProps
begin

text \<open>
  The properties of the ClickHouse sink: what the constructor opens, how batches rotate over the shards,
  what a call of \<open>Send\<close> leaves in the table, closing, and the options and settings.
\<close>

section \<open>Sending\<close>

text \<open>A sink as \<open>NewClickHouse\<close> makes it for a configuration; its connections have the settings of \<open>buildSettings\<close>.\<close>

definition shards :: "Config \<Rightarrow> nat" where
  "shards c = (if Mode (CH c) = ''shard-roundrobin'' then length (Endpoints (CH c)) else 1)"

definition connected :: "chSink \<Rightarrow> Config \<Rightarrow> bool" where
  "connected s c \<longleftrightarrow> length (conns s) = shards c \<and> sendTO s = SendTimeout (CH c)
     \<and> insertSQL s = buildInsertSQL (Database (CH c)) (Table (CH c)) (Schema (CH c))
     \<and> jsonAttrs s = (Schema (CH c) = ''json'')"

text \<open>The rows of a batch under a configuration, each with the INSERT it goes by.\<close>

definition config_rows :: "readers \<Rightarrow> Config \<Rightarrow> Traces \<Rightarrow> table" where
  "config_rows R c td = map (Pair (buildInsertSQL (Database (CH c)) (Table (CH c)) (Schema (CH c))))
     (rows_of R (Schema (CH c) = ''json'') td)"

lemma connected_rows: "connected s c \<Longrightarrow> config_rows R c td = batch_rows R s td"
  by (simp add: config_rows_def batch_rows_def connected_def)

text \<open>
  C31. Unless asynchronous inserts are configured not to be waited for, \<open>Send\<close> does what it reports: if it returns nil,
  exactly the rows of the batch were added to the table, one per span, in their order and under the INSERT of the
  configured schema; if it fails before \<open>batch.Send\<close>, the table is unchanged; if \<open>batch.Send\<close> fails, at most rows of
  this batch were added. The laws of the client library are promised only for inserts that are waited for.
\<close>

theorem Send_commits:
  assumes "waits (buildSettings (CH c)) \<longrightarrow> both_drivers D tab npend tpend" and "Async (CH c) \<longrightarrow> WaitForAsync (CH c)"
    and "connected s c" and "ch_Send D R cx td s w = Some (r, s', w')"
  shows "(r = None \<longrightarrow> tab w' = tab w @ config_rows R c td \<and> length (tab w') = length (tab w) + total_spans td)
     \<and> (\<forall>e. r = Some e \<and> take 12 e \<noteq> ''send batch: '' \<longrightarrow> tab w' = tab w)
     \<and> (\<exists>extra. tab w' = tab w @ extra \<and> set extra \<subseteq> set (config_rows R c td))"
proof -
  have D: "both_drivers D tab npend tpend"
    using assms(1,2) waits_buildSettings by blast
  show ?thesis
  proof (cases r)
    case None
    with both_drivers.ch_Send_ok [OF D] assms(4) show ?thesis
      by (simp add: connected_rows [OF assms(3)] batch_rows_def length_rows_of)
  next
    case (Some e)
    with both_drivers.ch_Send_error [OF D] assms(4) show ?thesis
      by (fastforce simp: connected_rows [OF assms(3)] batch_rows_def)
  qed
qed

definition sample_traces :: Traces where
  "sample_traces = [\<lparr>rs_attributes = [(''service.name'', VStr ''checkout-0'')], rs_scopes =
     [\<lparr>scope_name = ''spangen'', scope_version = ''1.0.0'', scope_attributes = [], spans =
       [\<lparr>traceID = replicate 16 1, spanID = replicate 8 2, parentSpanID = replicate 8 0, traceState = [],
         span_name = ''GET /'', span_kind = SpanKindServer, startTimestamp = 5, endTimestamp = 9,
         span_attributes = [], statusCode = StatusCodeUnset, statusMessage = [], span_events = [], span_links = []\<rparr>]\<rparr>]\<rparr>]"

definition sample_sink :: chSink where
  "sample_sink = \<lparr>conns = [nativeConn 1, httpConn 2], insertSQL = buildInsertSQL ''otel'' ''otel_traces'' ''json'',
     jsonAttrs = True, ch_next = 0, sendTO = 30\<rparr>"

definition json_config :: Config where
  "json_config = sample_config\<lparr>CH := (CH sample_config)\<lparr>Schema := ''json'', SendTimeout := 30\<rparr>\<rparr>"

lemma sample_connected: "connected sample_sink json_config" "Async (CH json_config) \<longrightarrow> WaitForAsync (CH json_config)"
  by (simp_all add: connected_def shards_def sample_sink_def json_config_def sample_config_def)

lemma Send_commits_witness:
  "\<exists>s' w'. ch_Send mem_drivers sample_readers Background sample_traces sample_sink (mem0 []) = Some (None, s', w')
     \<and> length (m_table w') = 1"
proof -
  obtain s' w' where r: "ch_Send mem_drivers sample_readers Background sample_traces sample_sink (mem0 []) = Some (None, s', w')"
    by (simp add: ch_Send_def ch_pick_def sample_sink_def append_resources_rows rows_of_def resource_rows_def
        scope_rows_def sample_traces_def mem_defs mem0_def Let_def)
  moreover have "total_spans sample_traces = 1" "m_table (mem0 []) = []"
    by (simp_all add: total_spans_def scope_total_def sample_traces_def mem0_def)
  ultimately show ?thesis
    using Send_commits [OF impI [OF mem.both_drivers_axioms] sample_connected(2,1) r] by auto
qed

section \<open>Rotation\<close>

text \<open>
  Batches rotate fairly: as long as the counter does not wrap, any \<open>n\<close> sends in a row over \<open>n\<close>
  connections use every connection once.
\<close>

theorem pick_fair:
  assumes "conns s \<noteq> []" and "unat (ch_next s) + length (conns s) < 2 ^ 64"
  shows "\<exists>cs s'. picks ch_pick (length (conns s)) s = Some (cs, s') \<and> mset cs = mset (conns s)"
  using assms by (rule ch_rr.fair)

lemma pick_fair_witness:
  "\<exists>cs s'. picks ch_pick 2 sample_sink = Some (cs, s') \<and> mset cs = {#nativeConn 1, httpConn 2#}"
proof -
  have "length (conns sample_sink) = 2" "mset (conns sample_sink) = {#nativeConn 1, httpConn 2#}"
    by (simp_all add: sample_sink_def)
  from pick_fair [of sample_sink, unfolded this] show ?thesis
    by (simp add: sample_sink_def del: picks.simps)
qed

section \<open>The constructor\<close>

definition opens :: "('w \<Rightarrow> chConn set) \<Rightarrow> 'w \<Rightarrow> 'w \<Rightarrow> chConn list \<Rightarrow> bool" where
  "opens live w w' new \<longleftrightarrow> distinct new \<and> set new \<inter> live w = {} \<and> live w' = live w \<union> set new"

definition outcome :: "Config \<Rightarrow> string + chSink \<Rightarrow> chConn list \<Rightarrow> bool" where
  "outcome c r new \<longleftrightarrow> (case r of
       Inr s \<Rightarrow> connected s c \<and> conns s = new
     | Inl e \<Rightarrow> take 16 e = ''clickhouse ping '' \<longrightarrow> length new = shards c)"

context connections
begin

lemma ping_first_outcome:
  assumes "conns s \<noteq> []" and "connected s c" and "opens live w w1 (conns s)"
  shows "\<exists>r w'. ping_first D (CH c) s w1 = Some (r, w') \<and> opens live w w' (conns s) \<and> outcome c r (conns s)"
proof -
  obtain c0 cs where s: "conns s = c0 # cs"
    using assms(1) by (cases "conns s") auto
  obtain e w2 where e: "conn_Ping D c0 (WithTimeout Background (DialTimeout (CH c))) w1 = (e, w2)"
    by fastforce
  with assms s Ping_live [OF e] show ?thesis
    by (cases e) (auto simp: ping_first_def slice_at_def opens_def outcome_def connected_def)
qed

lemma open_conns_outcome:
  assumes "open_conns D (CH c) replica s w = (r, w1)" and "Endpoints (CH c) \<noteq> []"
    and "sendTO s = SendTimeout (CH c)" and "jsonAttrs s = (Schema (CH c) = ''json'')"
    and "insertSQL s = buildInsertSQL (Database (CH c)) (Table (CH c)) (Schema (CH c))"
  shows "\<exists>new. opens live w w1 new \<and> outcome c r new \<and> (\<forall>s'. r = Inr s' \<longrightarrow> new \<noteq> [])"
proof (cases "Mode (CH c) = ''shard-roundrobin''")
  case True
  obtain x w2 where x: "open_shards D (CH c) (Endpoints (CH c)) [] w = (x, w2)"
    by fastforce
  from open_shards_live [OF x] True assms x show ?thesis
    by (cases x) (auto simp: open_conns_def opens_def outcome_def connected_def shards_def)
next
  case False
  obtain x w2 where x: "openOne D (CH c) (Endpoints (CH c)) w = (x, w2)"
    by fastforce
  show ?thesis
  proof (cases x)
    case (Inl e)
    with x False assms openOne_error show ?thesis
      by (intro exI [of _ "[]"]) (auto simp: open_conns_def opens_def outcome_def)
  next
    case (Inr c0)
    with openOne_ok [OF x [unfolded Inr]] x False assms show ?thesis
      by (intro exI [of _ "[c0]"]) (auto simp: open_conns_def opens_def outcome_def connected_def shards_def)
  qed
qed

lemma NewClickHouse_outcome:
  assumes "Endpoints (CH c) \<noteq> []"
  shows "\<exists>r w' new. NewClickHouse D c replica w = Some (r, w') \<and> opens live w w' new \<and> outcome c r new"
proof -
  let ?s = "\<lparr>conns = [], insertSQL = buildInsertSQL (Database (CH c)) (Table (CH c)) (Schema (CH c)),
    jsonAttrs = (Schema (CH c) = ''json''), ch_next = 0, sendTO = SendTimeout (CH c)\<rparr>"
  obtain x w1 where x: "open_conns D (CH c) replica ?s w = (x, w1)"
    by fastforce
  with assms obtain new where new: "opens live w w1 new" "outcome c x new" "\<And>s. x = Inr s \<Longrightarrow> new \<noteq> []"
    using open_conns_outcome [OF x] by auto
  show ?thesis
  proof (cases x)
    case (Inl e)
    with x new show ?thesis
      by (auto simp: NewClickHouse_def)
  next
    case (Inr s)
    with new have "conns s = new" "connected s c"
      by (simp_all add: outcome_def)
    with ping_first_outcome [of s c w w1] new(1) new(3) [OF Inr] x Inr show ?thesis
      by (auto simp: NewClickHouse_def)
  qed
qed

end

text \<open>
  C36. For every configuration that \<open>validate\<close> accepts, \<open>NewClickHouse\<close> returns. A sink it returns has one new
  connection per shard (a single one in the other modes), the statement and row layout of the schema, and
  owns all connections that were opened. On an error it closes nothing: the connections it had opened
  stay open, all of them if the ping failed.
\<close>

theorem NewClickHouse_returns:
  assumes "connections D live" and "validate c = None" and "Sink c = ''clickhouse''"
  shows "\<exists>r w' new. NewClickHouse D c replica w = Some (r, w')
     \<and> distinct new \<and> set new \<inter> live w = {} \<and> live w' = live w \<union> set new
     \<and> (case r of Inr s \<Rightarrow> connected s c \<and> conns s = new
        | Inl e \<Rightarrow> take 16 e = ''clickhouse ping '' \<longrightarrow> length new = shards c)"
proof -
  have "Endpoints (CH c) \<noteq> []"
    using assms(2,3) by (auto simp: validate_iff valid_config_def valid_clickhouse_def)
  from connections.NewClickHouse_outcome [OF assms(1) this, of replica w] show ?thesis
    by (auto simp: opens_def outcome_def)
qed

definition sample_ch :: Config where
  "sample_ch = sample_config\<lparr>Sink := ''clickhouse''\<rparr>"

lemma sample_ch_valid: "validate sample_ch = None"
  by (simp add: validate_iff sample_ch_def sample_config_def valid_config_def valid_clickhouse_def)

lemma NewClickHouse_returns_witness:
  "\<exists>r w' new. NewClickHouse mem_drivers sample_ch 3 (mem0 [2]) = Some (r, w')
     \<and> set (m_live w') = set new \<and> length new = 2"
proof -
  obtain e w' where e: "NewClickHouse mem_drivers sample_ch 3 (mem0 [2]) = Some (Inl e, w')"
      "take 16 e = ''clickhouse ping ''"
    by (simp add: NewClickHouse_def open_conns_def ping_first_def sample_ch_def sample_config_def openOne_def mem_defs mem0_def chProtocol_def Let_def
        slice_at_def)
  with NewClickHouse_returns [OF mem.connections_axioms sample_ch_valid, of 3 "mem0 [2]"] show ?thesis
    by (auto simp: shards_def sample_ch_def sample_config_def mem0_def)
qed

section \<open>The first shard\<close>

lemma smod_nonneg: "0 \<le> a \<Longrightarrow> 0 < b \<Longrightarrow> a smod b = a mod (b :: int)"
  by (cases "a = 0") (simp_all add: signed_modulo_int_def)

lemma NewClickHouse_start:
  assumes "NewClickHouse D c replica w = Some (Inr s, w')" and "Mode (CH c) = ''shard-roundrobin''"
    and "0 \<le> replica" and "conns s \<noteq> []"
  shows "ch_next s = word_of_int (replica mod int (length (conns s)))"
  using assms
  by (auto simp: NewClickHouse_def open_conns_def ping_first_def slice_at_def smod_nonneg Let_def
      split: prod.splits sum.splits option.splits if_splits)

lemma start_unat:
  assumes "0 < n" and "n < 2 ^ 63"
  shows "unat (word_of_int (int r mod int n) :: u64) = r mod n"
proof -
  have "r mod n < n"
    using assms(1) by simp
  then have "r mod n < 2 ^ 64"
    using assms(2) by simp
  moreover have "int r mod int n = int (r mod n)"
    by (simp add: zmod_int)
  ultimately show ?thesis
    by (simp add: unat_of_nat take_bit_nat_eq_self)
qed

text \<open>
  C38. The replicas start at different shards: the first batch of replica \<open>r\<close> goes to shard \<open>r + 1\<close> modulo
  their number, so two replicas start at the same shard exactly if their indices agree modulo the number
  of shards.
\<close>

theorem first_shards:
  assumes "Mode (CH c) = ''shard-roundrobin''" and "NewClickHouse D c (int r) w = Some (Inr s, w1)"
    and "1 < length (conns s)" and "length (conns s) < 2 ^ 63"
  shows "(\<exists>s'. ch_pick s = Some (conns s ! ((r + 1) mod length (conns s)), s'))
     \<and> ((r + 1) mod length (conns s) = (r' + 1) mod length (conns s) \<longleftrightarrow> r mod length (conns s) = r' mod length (conns s))"
proof -
  let ?n = "length (conns s)"
  have "ch_next s = word_of_int (int r mod int ?n)"
    by (rule NewClickHouse_start [OF assms(2,1)]) (use assms(3) in auto)
  then have next1: "unat (ch_next s) = r mod ?n"
    using start_unat [OF order.strict_trans [OF zero_less_one assms(3)] assms(4), of r] by simp
  moreover have "r mod ?n < ?n"
    by (rule mod_less_divisor) (use assms(3) in linarith)
  ultimately have "unat (ch_next s) + 1 < 2 ^ 64"
    using assms(4) by simp
  from ch_rr.first_pick [OF assms(3) this] next1
  have "\<exists>s'. ch_pick s = Some (conns s ! ((r + 1) mod ?n), s')"
    by (simp add: mod_Suc_eq)
  moreover have "(r + 1) mod ?n = (r' + 1) mod ?n \<longleftrightarrow> r mod ?n = r' mod ?n"
    using assms(3) by (simp add: mod_Suc)
  ultimately show ?thesis
    by blast
qed

lemma first_shards_witness:
  "\<exists>s w' s'. NewClickHouse mem_drivers sample_ch 3 (mem0 []) = Some (Inr s, w') \<and> ch_pick s = Some (conns s ! 0, s')"
proof -
  obtain s w' where s: "NewClickHouse mem_drivers sample_ch 3 (mem0 []) = Some (Inr s, w')" "length (conns s) = 2"
    by (simp add: NewClickHouse_def open_conns_def ping_first_def sample_ch_def sample_config_def openOne_def mem_defs
        mem0_def chProtocol_def Let_def slice_at_def)
  with first_shards [of sample_ch mem_drivers 3 "mem0 []" s w' 0] show ?thesis
    by (auto simp: sample_ch_def sample_config_def)
qed

section \<open>Closing\<close>

text \<open>
  \<open>Close\<close> closes every connection of the sink, also after an error, and returns the first error of the
  connections in their order, or nil if none failed.
\<close>

theorem Close_all:
  assumes "connections D live"
  shows "live (snd (ch_Close D s w)) = live w - set (conns s)
     \<and> fst (ch_Close D s w) = (case close_errors D (conns s) w of [] \<Rightarrow> None | e # es \<Rightarrow> Some e)"
  using connections.close_conns_live [OF assms] by (auto simp: ch_Close_def close_conns_first split: list.splits)

lemma Close_all_witness:
  "fst (ch_Close mem_drivers sample_sink (mem0 [0])) = Some ''connection refused''
     \<and> set (m_live (snd (ch_Close mem_drivers sample_sink (mem0 [0])))) = {}"
  using Close_all [OF mem.connections_axioms, of sample_sink "mem0 [0]"]
  by (simp add: sample_sink_def mem_defs mem0_def refused_def)

section \<open>Options and settings\<close>

text \<open>
  The options of a validated configuration: the block buffer size fits its byte and is clamped to
  \<open>1 .. 255\<close>, the compression is the configured one, gzip only goes with HTTP, the settings have distinct
  names, and \<open>wait_for_async_insert\<close> is set exactly if asynchronous inserts are on.
\<close>

theorem options_valid:
  assumes "validate c = None" and "Sink c = ''clickhouse''"
  shows "let opt = mkOpts (CH c) addrs in
       uint (opt_BlockBufferSize opt) = clampU8 (BlockBuffer (CH c))
     \<and> 1 \<le> clampU8 (BlockBuffer (CH c)) \<and> clampU8 (BlockBuffer (CH c)) \<le> 255
     \<and> (opt_Compression opt = CompressionGZIP \<longrightarrow> opt_Protocol opt = HTTP)
     \<and> map_of [(''none'', CompressionNone), (''lz4'', CompressionLZ4), (''zstd'', CompressionZSTD), (''gzip'', CompressionGZIP)]
         (Compression (CH c)) = Some (opt_Compression opt)
     \<and> distinct (map fst (opt_Settings opt))
     \<and> map_of (opt_Settings opt) ''wait_for_async_insert''
         = (if Async (CH c) then Some (if WaitForAsync (CH c) then 1 else 0) else None)
     \<and> (map_of (opt_Settings opt) ''output_format_native_write_json_as_string'' = Some 1 \<longleftrightarrow> Schema (CH c) = ''json'')"
proof -
  have v: "valid_clickhouse (CH c)"
    using assms by (auto simp: validate_iff valid_config_def)
  have "uint (word_of_int (clampU8 (BlockBuffer (CH c))) :: u8) = clampU8 (BlockBuffer (CH c))"
    by (simp add: clampU8_def unsigned_of_int take_bit_int_eq_self)
  moreover have "1 \<le> clampU8 (BlockBuffer (CH c))" "clampU8 (BlockBuffer (CH c)) \<le> 255"
    by (simp_all add: clampU8_def)
  moreover have "buildCompression (Compression (CH c)) = CompressionGZIP \<longrightarrow> chProtocol (Protocol (CH c)) = HTTP"
    using v by (auto simp: valid_clickhouse_def buildCompression_def chProtocol_def)
  moreover have "map_of [(''none'', CompressionNone), (''lz4'', CompressionLZ4), (''zstd'', CompressionZSTD), (''gzip'', CompressionGZIP)]
      (Compression (CH c)) = Some (buildCompression (Compression (CH c)))"
    using v by (auto simp: valid_clickhouse_def buildCompression_def)
  moreover have "distinct (map fst (buildSettings (CH c)))"
    "map_of (buildSettings (CH c)) ''wait_for_async_insert''
       = (if Async (CH c) then Some (if WaitForAsync (CH c) then 1 else 0) else None)"
    "map_of (buildSettings (CH c)) ''output_format_native_write_json_as_string'' = Some 1 \<longleftrightarrow> Schema (CH c) = ''json''"
    by (auto simp: buildSettings_def)
  ultimately show ?thesis
    by (simp only: mkOpts_def Let_def Options.simps simp_thms)
qed

lemma options_valid_witness:
  "opt_Compression (mkOpts (CH sample_ch) []) = CompressionLZ4
     \<and> map_of (opt_Settings (mkOpts (CH sample_ch) [])) ''wait_for_async_insert'' = Some 1"
  using options_valid [OF sample_ch_valid, of "[]"]
  by (simp add: Let_def) (simp add: sample_ch_def sample_config_def)

end
