(* ===== verification/Otlp.thy ===== *)
theory Otlp
  imports Config Pdata Sink
begin

text \<open>
  \<open>internal/sink/otlp.go\<close>: the OTLP/gRPC sink. The gRPC library and the collector behind it are the fields
  of \<open>grpc\<close>; a client connection is known by its address, and a \<open>ptraceotlp.GRPCClient\<close> by its connection.
\<close>

section \<open>The library\<close>

type_synonym clientConn = nat
type_synonym MD = "string \<Rightarrow> string list"

datatype credentials = InsecureCredentials | TLSSkipVerify

datatype callOption = MaxCallSendMsgSize int | UseCompressor string

datatype dialOption =
    WithTransportCredentials credentials
  | WithDefaultCallOptions "callOption list"
  | WithKeepaliveParams int int bool

datatype GRPCClient = NewGRPCClient clientConn

text \<open>\<open>Export\<close> returns an error, or the number of rejected spans and the collector's message.\<close>

record 'w grpc =
  NewClient :: "string \<Rightarrow> dialOption list \<Rightarrow> 'w \<Rightarrow> (string + clientConn) \<times> 'w"
  connCloseG :: "clientConn \<Rightarrow> 'w \<Rightarrow> error \<times> 'w"
  Export :: "GRPCClient \<Rightarrow> ctx \<Rightarrow> Traces \<Rightarrow> callOption list \<Rightarrow> 'w \<Rightarrow> (string + int \<times> string) \<times> 'w"
  metadata_New :: "(string \<rightharpoonup> string) \<Rightarrow> MD"

section \<open>The sink\<close>

record otlpSink =
  otlp_conns :: "clientConn list"
  clients :: "GRPCClient list"
  otlp_next :: u64
  timeout :: int
  mdCtx :: "MD option"
  callOpts :: "callOption list"

definition call_options :: "OTLPConfig \<Rightarrow> callOption list" where
  "call_options oc = MaxCallSendMsgSize (push_bit 20 32) # (if Gzip oc then [UseCompressor ''gzip''] else [])"

definition dial_options :: "OTLPConfig \<Rightarrow> dialOption list" where
  "dial_options oc =
     [WithTransportCredentials (if Insecure oc then InsecureCredentials else TLSSkipVerify),
      WithDefaultCallOptions (call_options oc),
      WithKeepaliveParams (30 * 10 ^ 9) (10 * 10 ^ 9) True]"

fun closeConns :: "'w grpc \<Rightarrow> clientConn list \<Rightarrow> 'w \<Rightarrow> 'w" where
  "closeConns G [] w = w"
| "closeConns G (c # cs) w = closeConns G cs (snd (connCloseG G c w))"

fun dial_loop :: "'w grpc \<Rightarrow> OTLPConfig \<Rightarrow> nat \<Rightarrow> otlpSink \<Rightarrow> 'w \<Rightarrow> (string + otlpSink) \<times> 'w" where
  "dial_loop G oc 0 s w = (Inr s, w)"
| "dial_loop G oc (Suc n) s w =
     (case NewClient G (Endpoint oc) (dial_options oc) w of
        (Inl err, w1) \<Rightarrow> (Inl (''dial otlp '' @ Endpoint oc @ '': '' @ err), closeConns G (otlp_conns s) w1)
      | (Inr c, w1) \<Rightarrow>
          dial_loop G oc n (s\<lparr>otlp_conns := otlp_conns s @ [c], clients := clients s @ [NewGRPCClient c]\<rparr>) w1)"

definition NewOTLP :: "'w grpc \<Rightarrow> Config \<Rightarrow> 'w \<Rightarrow> (string + otlpSink) \<times> 'w" where
  "NewOTLP G c w =
     (let oc = OTLP c;
          s = \<lparr>otlp_conns = [], clients = [], otlp_next = 0, timeout = Timeout oc,
               mdCtx = (if Headers oc \<noteq> Map.empty then Some (metadata_New G (Headers oc)) else None),
               callOpts = call_options oc\<rparr>;
          n = (if Connections oc < 1 then 1 else Connections oc)
      in dial_loop G oc (nat n) s w)"

definition otlp_Close :: "'w grpc \<Rightarrow> otlpSink \<Rightarrow> 'w \<Rightarrow> error \<times> 'w" where
  "otlp_Close G s w = (None, closeConns G (otlp_conns s) w)"

text \<open>The client of a call; \<^term>\<open>None\<close> is the panic of \<open>s.clients[0]\<close> on an empty list.\<close>

definition otlp_pick :: "otlpSink \<Rightarrow> (GRPCClient \<times> otlpSink) option" where
  "otlp_pick s =
     (case slice_at (clients s) 0 of
        None \<Rightarrow> None
      | Some c \<Rightarrow>
          if length (clients s) > 1 then
            (let i = otlp_next s + 1
             in Some (clients s ! (unat i mod length (clients s)), s\<lparr>otlp_next := i\<rparr>))
          else Some (c, s))"

definition otlp_Send :: "'w grpc \<Rightarrow> ctx \<Rightarrow> Traces \<Rightarrow> otlpSink \<Rightarrow> 'w \<Rightarrow> (error \<times> otlpSink \<times> 'w) option" where
  "otlp_Send G cx td s w =
     (let cx = WithTimeout cx (timeout s);
          cx = (case mdCtx s of Some md \<Rightarrow> WithOutgoing cx md | None \<Rightarrow> cx)
      in case otlp_pick s of
           None \<Rightarrow> None
         | Some (client, s1) \<Rightarrow>
             Some (case Export G client cx td (callOpts s1) w of
                (Inl err, w1) \<Rightarrow> (Some (''otlp export: '' @ err), s1, w1)
              | (Inr (rejected, msg), w1) \<Rightarrow>
                  if rejected > 0
                  then (Some (''otlp partial success: '' @ dec rejected @ '' spans rejected: '' @ msg), s1, w1)
                  else (None, s1, w1)))"

section \<open>The contract of a collector\<close>

text \<open>
  \<open>got\<close>: the spans the collector accepted; \<open>live\<close>: the open client connections. An answered export
  accepted all spans of the request but the rejected ones; of a failed one some may have arrived.
\<close>

locale collector =
  fixes G :: "'w grpc" and got :: "'w \<Rightarrow> span list" and live :: "'w \<Rightarrow> clientConn set"
  assumes dial_error: "NewClient G ep opts w = (Inl e, w') \<Longrightarrow> live w' = live w"
    and dial_ok: "NewClient G ep opts w = (Inr c, w') \<Longrightarrow> c \<notin> live w \<and> live w' = insert c (live w)"
    and close_live: "live (snd (connCloseG G c w)) = live w - {c}"
    and export_ok: "Export G cl cx td copts w = (Inr (rej, msg), w') \<Longrightarrow> 0 \<le> rej \<and>
      (\<exists>acc. got w' = got w @ acc \<and> mset acc \<subseteq># mset (all_spans td) \<and> int (length acc) + rej = int (total_spans td))"
    and export_error: "Export G cl cx td copts w = (Inl e, w') \<Longrightarrow>
      \<exists>acc. got w' = got w @ acc \<and> mset acc \<subseteq># mset (all_spans td)"
begin

lemma closeConns_live: "live (closeConns G cs w) = live w - set cs"
  by (induction cs arbitrary: w) (auto simp: close_live)

lemma dial_loop_live:
  "dial_loop G oc n s w = (r, w') \<Longrightarrow> set (otlp_conns s) \<inter> live w0 = {} \<Longrightarrow> live w = live w0 \<union> set (otlp_conns s) \<Longrightarrow>
     distinct (otlp_conns s) \<Longrightarrow> clients s = map NewGRPCClient (otlp_conns s) \<Longrightarrow>
     (case r of Inl e \<Rightarrow> live w' = live w0
      | Inr s' \<Rightarrow> live w' = live w0 \<union> set (otlp_conns s') \<and> set (otlp_conns s') \<inter> live w0 = {} \<and> distinct (otlp_conns s')
          \<and> clients s' = map NewGRPCClient (otlp_conns s') \<and> length (otlp_conns s') = length (otlp_conns s) + n
          \<and> timeout s' = timeout s \<and> mdCtx s' = mdCtx s \<and> callOpts s' = callOpts s \<and> otlp_next s' = otlp_next s)"
proof (induction n arbitrary: s w)
  case (Suc n)
  obtain x w1 where x: "NewClient G (Endpoint oc) (dial_options oc) w = (x, w1)"
    by fastforce
  show ?case
  proof (cases x)
    case (Inl e)
    with x Suc.prems dial_error [OF x [unfolded Inl]] closeConns_live show ?thesis
      by auto
  next
    case (Inr c)
    let ?s = "s\<lparr>otlp_conns := otlp_conns s @ [c], clients := clients s @ [NewGRPCClient c]\<rparr>"
    have "dial_loop G oc n ?s w1 = (r, w')"
      using Suc.prems(1) x Inr by simp
    moreover have "set (otlp_conns ?s) \<inter> live w0 = {}" "live w1 = live w0 \<union> set (otlp_conns ?s)"
      "distinct (otlp_conns ?s)" "clients ?s = map NewGRPCClient (otlp_conns ?s)"
      using dial_ok [OF x [unfolded Inr]] Suc.prems(2-5) by auto
    ultimately show ?thesis
      using Suc.IH [of ?s w1] by (auto split: sum.splits)
  qed
qed auto

lemma NewOTLP_live:
  assumes "NewOTLP G c w = (r, w')"
  shows "case r of Inl e \<Rightarrow> live w' = live w
    | Inr s \<Rightarrow> live w' = live w \<union> set (otlp_conns s) \<and> set (otlp_conns s) \<inter> live w = {} \<and> distinct (otlp_conns s)
        \<and> clients s = map NewGRPCClient (otlp_conns s) \<and> int (length (otlp_conns s)) = max 1 (Connections (OTLP c))
        \<and> timeout s = Timeout (OTLP c) \<and> callOpts s = call_options (OTLP c)"
  using dial_loop_live [OF assms [unfolded NewOTLP_def Let_def], of w]
  by (auto split: sum.splits)

end

section \<open>\<open>Send\<close>\<close>

lemma otlp_Send_export:
  assumes "otlp_Send G cx td s w = Some (r, s', w')"
  obtains cl cx' x where "Export G cl cx' td (callOpts s') w = (x, w')"
    and "r = None \<Longrightarrow> \<exists>rej msg. x = Inr (rej, msg) \<and> rej \<le> 0"
proof -
  let ?cx = "case mdCtx s of Some md \<Rightarrow> WithOutgoing (WithTimeout cx (timeout s)) md | None \<Rightarrow> WithTimeout cx (timeout s)"
  obtain cl s1 where p: "otlp_pick s = Some (cl, s1)"
    using assms by (auto simp: otlp_Send_def Let_def split: option.splits)
  obtain x w1 where x: "Export G cl ?cx td (callOpts s1) w = (x, w1)"
    by fastforce
  show thesis
  proof (cases x)
    case (Inl e)
    with assms p x show thesis
      by (intro that [of cl ?cx x]) (auto simp: otlp_Send_def Let_def)
  next
    case (Inr y)
    with assms p x show thesis
      by (intro that [of cl ?cx x]; cases y) (auto simp: otlp_Send_def Let_def split: if_splits)
  qed
qed

lemma otlp_Send_ok:
  assumes "collector G got live" and "otlp_Send G cx td s w = Some (None, s', w')"
  shows "\<exists>acc. got w' = got w @ acc \<and> mset acc = mset (all_spans td)"
proof -
  obtain cl cx' rej msg where "Export G cl cx' td (callOpts s') w = (Inr (rej, msg), w')" "rej \<le> 0"
    using assms(2) by (elim otlp_Send_export) auto
  with collector.export_ok [OF assms(1)] obtain acc where acc: "got w' = got w @ acc"
      "mset acc \<subseteq># mset (all_spans td)" "length acc = total_spans td"
    by force
  from acc(2) obtain M where "mset (all_spans td) = mset acc + M"
    by (auto simp: mset_subset_eq_exists_conv)
  moreover from this have "size M = 0"
    using acc(3) by (metis add_cancel_left_right length_all_spans size_mset size_union)
  ultimately show ?thesis
    using acc(1) by auto
qed

lemma otlp_Send_error:
  assumes "collector G got live" and "otlp_Send G cx td s w = Some (r, s', w')"
  shows "\<exists>acc. got w' = got w @ acc \<and> mset acc \<subseteq># mset (all_spans td)"
proof -
  obtain cl cx' x where x: "Export G cl cx' td (callOpts s') w = (x, w')"
    using assms(2) by (elim otlp_Send_export)
  show ?thesis
  proof (cases x)
    case (Inl e)
    with x collector.export_error [OF assms(1)] show ?thesis
      by blast
  next
    case (Inr y)
    with x collector.export_ok [OF assms(1)] show ?thesis
      by (cases y) blast
  qed
qed

end
