(* ===== verification/OtlpProps.thy ===== *)
theory OtlpProps
  imports Otlp ConfigProps
begin

text \<open>
  The properties of the OTLP sink: what a call of \<open>Send\<close> leaves at the collector, what a retry after a
  partial success does, the constructor and the rotation over the connections. A collector in memory
  shows that the contract can hold.
\<close>

section \<open>A collector in memory\<close>

text \<open>At the times of \<open>c_down\<close> a call fails; at those of \<open>c_strict\<close> an export rejects the first span.\<close>

record coll =
  c_clock :: nat
  c_down :: "nat list"
  c_strict :: "nat list"
  c_got :: "span list"
  c_live :: "clientConn list"

definition coll0 :: "nat list \<Rightarrow> nat list \<Rightarrow> coll" where
  "coll0 down strict = \<lparr>c_clock = 0, c_down = down, c_strict = strict, c_got = [], c_live = []\<rparr>"

definition c_tick :: "coll \<Rightarrow> coll" where
  "c_tick w = w\<lparr>c_clock := c_clock w + 1\<rparr>"

definition c_fresh :: "coll \<Rightarrow> clientConn" where
  "c_fresh w = Suc (sum_list (c_live w))"

definition c_export :: "Traces \<Rightarrow> coll \<Rightarrow> (string + int \<times> string) \<times> coll" where
  "c_export td w =
     (let rej = (if c_clock w \<in> set (c_strict w) \<and> all_spans td \<noteq> [] then 1 else 0)
      in if c_clock w \<in> set (c_down w) then (Inl ''unavailable'', c_tick w)
         else (Inr (int rej, ''too long''), c_tick (w\<lparr>c_got := c_got w @ drop rej (all_spans td)\<rparr>)))"

definition mem_grpc :: "coll grpc" where
  "mem_grpc = \<lparr>
     NewClient = (\<lambda>ep opts w. if c_clock w \<in> set (c_down w) then (Inl ''bad target'', c_tick w)
        else (Inr (c_fresh w), c_tick (w\<lparr>c_live := c_fresh w # c_live w\<rparr>))),
     connCloseG = (\<lambda>c w. (None, c_tick (w\<lparr>c_live := removeAll c (c_live w)\<rparr>))),
     Export = (\<lambda>cl cx td opts. c_export td),
     metadata_New = (\<lambda>m k. case m k of Some v \<Rightarrow> [v] | None \<Rightarrow> [])\<rparr>"

lemma c_fresh_live: "c_fresh w \<notin> set (c_live w)"
  using member_le_sum_list [of "c_fresh w" "c_live w"] by (auto simp: c_fresh_def)

lemma c_export_ok:
  "c_export td w = (Inr (rej, msg), w') \<Longrightarrow> 0 \<le> rej \<and>
     (\<exists>acc. c_got w' = c_got w @ acc \<and> mset acc \<subseteq># mset (all_spans td) \<and> int (length acc) + rej = int (total_spans td))"
proof -
  let ?r = "if c_clock w \<in> set (c_strict w) \<and> all_spans td \<noteq> [] then 1 else 0 :: nat"
  assume "c_export td w = (Inr (rej, msg), w')"
  then have "rej = int ?r" "c_got w' = c_got w @ drop ?r (all_spans td)"
    by (auto simp: c_export_def Let_def c_tick_def split: if_splits)
  moreover have "int (length (drop ?r (all_spans td))) + int ?r = int (total_spans td)"
    by (cases "all_spans td") (simp_all flip: length_all_spans)
  moreover have "mset (drop ?r (all_spans td)) \<subseteq># mset (all_spans td)"
    by (metis append_take_drop_id mset_append mset_subset_eq_add_right)
  ultimately show ?thesis
    by (intro conjI exI [of _ "drop ?r (all_spans td)"]) simp_all
qed

interpretation mem_coll: collector mem_grpc c_got "\<lambda>w. set (c_live w)"
proof unfold_locales
  fix cl cx td copts w rej msg w'
  assume "Export mem_grpc cl cx td copts w = (Inr (rej, msg), w')"
  then show "0 \<le> rej \<and>
     (\<exists>acc. c_got w' = c_got w @ acc \<and> mset acc \<subseteq># mset (all_spans td) \<and> int (length acc) + rej = int (total_spans td))"
    by (intro c_export_ok) (simp add: mem_grpc_def)
qed (auto simp: mem_grpc_def c_tick_def c_fresh_live c_export_def Let_def split: if_splits)

section \<open>Sending\<close>

text \<open>
  C34. If \<open>Send\<close> returns nil, the collector accepted exactly the spans of the batch; if it returns an error,
  whether of the call or for rejected spans, the collector has accepted spans of this batch only.
\<close>

theorem otlp_Send_delivers:
  assumes "collector G got live" and "otlp_Send G cx td s w = Some (r, s', w')"
  shows "\<exists>acc. got w' = got w @ acc \<and> mset acc \<subseteq># mset (all_spans td) \<and> (r = None \<longrightarrow> mset acc = mset (all_spans td))"
  using otlp_Send_ok [OF assms(1)] otlp_Send_error [OF assms(1)] assms(2) by (cases r) fastforce+

definition two_spans :: Traces where
  "two_spans = (let sp = \<lparr>traceID = replicate 16 1, spanID = replicate 8 2, parentSpanID = replicate 8 0, traceState = [],
       span_name = ''GET /'', span_kind = SpanKindServer, startTimestamp = 5, endTimestamp = 9,
       span_attributes = [], statusCode = StatusCodeUnset, statusMessage = [], span_events = [], span_links = []\<rparr>
     in [\<lparr>rs_attributes = [], rs_scopes = [\<lparr>scope_name = ''spangen'', scope_version = ''1.0.0'', scope_attributes = [],
           spans = [sp, sp\<lparr>spanID := replicate 8 3\<rparr>]\<rparr>]\<rparr>])"

definition sample_otlp :: otlpSink where
  "sample_otlp = \<lparr>otlp_conns = [4, 9], clients = [NewGRPCClient 4, NewGRPCClient 9], otlp_next = 0, timeout = 10,
     mdCtx = None, callOpts = []\<rparr>"

lemmas otlp_eval = otlp_Send_def otlp_pick_def sample_otlp_def slice_at_def mem_grpc_def c_export_def coll0_def
  c_tick_def two_spans_def all_spans_def Let_def

lemma otlp_Send_delivers_witness:
  "\<exists>s' w'. otlp_Send mem_grpc Background two_spans sample_otlp (coll0 [] []) = Some (None, s', w')
     \<and> mset (c_got w') = mset (all_spans two_spans)"
proof -
  obtain s' w' where r: "otlp_Send mem_grpc Background two_spans sample_otlp (coll0 [] []) = Some (None, s', w')"
    by (simp add: otlp_eval)
  from otlp_Send_delivers [OF mem_coll.collector_axioms r] r show ?thesis
    by (auto simp: coll0_def)
qed



section \<open>Rotation\<close>

interpretation otlp_rr: round_robin otlp_pick clients otlp_next
  by unfold_locales (auto simp: otlp_pick_def slice_at_def Let_def)

text \<open>The calls rotate over the clients: any \<open>n\<close> calls in a row over \<open>n\<close> clients use every client once.\<close>

theorem otlp_pick_fair:
  assumes "clients s \<noteq> []" and "unat (otlp_next s) + length (clients s) < 2 ^ 64"
  shows "\<exists>cs s'. picks otlp_pick (length (clients s)) s = Some (cs, s') \<and> mset cs = mset (clients s)"
  using assms by (rule otlp_rr.fair)

lemma otlp_pick_fair_witness:
  "\<exists>cs s'. picks otlp_pick 2 sample_otlp = Some (cs, s') \<and> mset cs = {#NewGRPCClient 4, NewGRPCClient 9#}"
proof -
  have "length (clients sample_otlp) = 2" "mset (clients sample_otlp) = {#NewGRPCClient 4, NewGRPCClient 9#}"
    by (simp_all add: sample_otlp_def)
  from otlp_pick_fair [of sample_otlp, unfolded this] show ?thesis
    by (simp add: sample_otlp_def del: picks.simps)
qed

section \<open>The constructor\<close>

text \<open>
  C37. \<open>NewOTLP\<close> leaks nothing: if it fails, the connections it had dialed are closed again; if it returns a
  sink, the sink has \<open>max 1 Connections\<close> new connections, each with its client, and owns all that were
  opened; closing the sink then releases them. Calls are bounded by 32 MiB, and gzip is used as configured.
\<close>

theorem NewOTLP_no_leak:
  assumes "collector G got live" and "NewOTLP G c w = (r, w')"
  shows "case r of Inl e \<Rightarrow> live w' = live w
     | Inr s \<Rightarrow> clients s = map NewGRPCClient (otlp_conns s) \<and> distinct (otlp_conns s)
         \<and> int (length (clients s)) = max 1 (Connections (OTLP c))
         \<and> set (otlp_conns s) \<inter> live w = {} \<and> live w' = live w \<union> set (otlp_conns s)
         \<and> live (snd (otlp_Close G s w')) = live w
         \<and> timeout s = Timeout (OTLP c)
         \<and> callOpts s = MaxCallSendMsgSize 33554432 # (if Gzip (OTLP c) then [UseCompressor ''gzip''] else [])"
  using collector.NewOTLP_live [OF assms] collector.closeConns_live [OF assms(1)]
  by (auto simp: otlp_Close_def call_options_def split: sum.splits)

lemma NewOTLP_no_leak_witness:
  "\<exists>e w'. NewOTLP mem_grpc sample_config (coll0 [3] []) = (Inl e, w') \<and> set (c_live w') = {}"
proof -
  obtain e w' where r: "NewOTLP mem_grpc sample_config (coll0 [3] []) = (Inl e, w')"
    by (simp add: NewOTLP_def sample_config_def mem_grpc_def coll0_def c_tick_def eval_nat_numeral)
  from NewOTLP_no_leak [OF mem_coll.collector_axioms r] r show ?thesis
    by (auto simp: coll0_def)
qed

end
