(* ===== verification/Status.thy ===== *)
theory Status
  imports EngineProps
begin

text \<open>
  \<open>logStatus\<close> of \<open>internal/generate/engine.go\<close>: the goroutine that prints the counters every five
  seconds. It loads the three counters one after the other while the workers go on, so a line is no
  snapshot of the engine; what its figures still say is proved here. The goroutine writes nothing that
  the engine reads.
\<close>

section \<open>The goroutine\<close>

text \<open>A line: the counters, and the rate since the line before, a \<open>float64\<close>.\<close>

record status_line =
  st_sent :: u64
  st_rate :: rat
  st_generated :: u64
  st_errors :: u64

text \<open>
  Where the goroutine stands: before the first load of \<open>sent\<close>, in the \<open>select\<close>, or before the load that
  the constructor names, with the values it has.
\<close>

datatype logger_pc =
    LoadPrev
  | Select
  | LoadGenerated u64 rat
  | LoadErrors u64 rat u64
  | LoggerDone

record logger =
  lg_pc :: logger_pc
  lg_prev :: u64
  lg_lines :: "status_line list"

definition logger0 :: logger where
  "logger0 = \<lparr>lg_pc = LoadPrev, lg_prev = 0, lg_lines = []\<rparr>"

text \<open>\<open>float64(cur-prev)/dt\<close>, \<open>elapsed\<close> nanoseconds after the line before.\<close>

definition status_rate :: "u64 \<Rightarrow> u64 \<Rightarrow> int \<Rightarrow> rat" where
  "status_rate prev cur elapsed = fl (fl (of_int (uint (cur - prev))) / Seconds elapsed)"

inductive logStatus :: "Engine \<Rightarrow> logger \<Rightarrow> logger \<Rightarrow> bool" for e where
  load_prev: "lg_pc l = LoadPrev \<Longrightarrow> logStatus e l (l\<lparr>lg_pc := Select, lg_prev := sent e\<rparr>)"
| stop: "lg_pc l = Select \<Longrightarrow> cancelled e \<Longrightarrow> logStatus e l (l\<lparr>lg_pc := LoggerDone\<rparr>)"
| tick: "lg_pc l = Select \<Longrightarrow> 0 < elapsed \<Longrightarrow> cur = sent e \<Longrightarrow>
    logStatus e l (l\<lparr>lg_pc := LoadGenerated cur (status_rate (lg_prev l) cur elapsed)\<rparr>)"
| load_generated: "lg_pc l = LoadGenerated cur r \<Longrightarrow>
    logStatus e l (l\<lparr>lg_pc := LoadErrors cur r (generated e)\<rparr>)"
| load_errors: "lg_pc l = LoadErrors cur r g \<Longrightarrow>
    logStatus e l (l\<lparr>lg_pc := Select, lg_prev := cur,
      lg_lines := lg_lines l @ [\<lparr>st_sent = cur, st_rate = r, st_generated = g, st_errors = errors e\<rparr>]\<rparr>)"

text \<open>The run with this goroutine.\<close>

inductive watched_step :: "externals \<Rightarrow> world \<times> logger \<Rightarrow> world \<times> logger \<Rightarrow> bool" for X where
  engine: "step X s s' \<Longrightarrow> watched_step X (s, l) (s', l)"
| logger: "\<not> crashed e \<Longrightarrow> logStatus e l l' \<Longrightarrow> watched_step X ((e, ws), l) ((e, ws), l')"

abbreviation watched :: "externals \<Rightarrow> int \<Rightarrow> Config \<Rightarrow> world \<times> logger \<Rightarrow> bool" where
  "watched X gomaxprocs c \<equiv> reach (\<lambda>(s, l). started gomaxprocs c s \<and> l = logger0) (watched_step X)"

lemma watched_running: "watched X gmp c z \<Longrightarrow> running X gmp c (fst z)"
  by (induction rule: reach.induct) (auto intro: reach_init reach_step elim!: watched_step.cases)

lemma running_watched: "running X gmp c s \<Longrightarrow> watched X gmp c (s, logger0)"
  by (induction rule: reach.induct) (auto intro: reach_init reach_step watched_step.engine)

section \<open>The counters without wrap-around\<close>

text \<open>What the counters count, as integers.\<close>

definition gen_total :: "world \<Rightarrow> int" where
  "gen_total s = SpansGenerated (met (fst s)) + total_of due_generated (snd s)"

definition sent_total :: "world \<Rightarrow> int" where
  "sent_total s = SpansSent (met (fst s)) - total_of due_sent (snd s)"

definition err_total :: "world \<Rightarrow> int" where
  "err_total s = DroppedSpans (met (fst s)) - total_of due_errors (snd s)"

lemmas totals = gen_total_def sent_total_def err_total_def

lemma wstep_totals:
  assumes "wstep X e w e' w'" and "worker_ok L b w"
  defines "G \<equiv> \<lambda>e w. SpansGenerated (met e) + due_generated (w_pc w)"
    and "S \<equiv> \<lambda>e w. SpansSent (met e) - due_sent (w_pc w)"
    and "E \<equiv> \<lambda>e w. DroppedSpans (met e) - due_errors (w_pc w)"
  shows "G e' w' - S e' w' - E e' w' - held (w_pc w') = G e w - S e w - E e w - held (w_pc w)"
    and "G e w \<le> G e' w'" and "S e w \<le> S e' w'" and "E e w \<le> E e' w'"
proof -
  have "0 \<le> n" if "pc_batch (w_pc w) = Some n" for n
    using assms(2) that by (simp add: worker_ok_def)
  then show "G e' w' - S e' w' - E e' w' - held (w_pc w') = G e w - S e w - E e w - held (w_pc w)"
    and "G e w \<le> G e' w'" and "S e w \<le> S e' w'" and "E e w \<le> E e' w'"
    using assms(1) by (auto simp: G_def S_def E_def elim!: wstep.cases)
qed

lemma step_totals:
  assumes "step X s s'" and "workers_ok X s"
  shows "gen_total s' - sent_total s' - err_total s' - total_of held (snd s')
       = gen_total s - sent_total s - err_total s - total_of held (snd s)"
    and "gen_total s \<le> gen_total s'" and "sent_total s \<le> sent_total s'" and "err_total s \<le> err_total s'"
proof -
  have "gen_total s' - sent_total s' - err_total s' - total_of held (snd s')
       = gen_total s - sent_total s - err_total s - total_of held (snd s)
      \<and> gen_total s \<le> gen_total s' \<and> sent_total s \<le> sent_total s' \<and> err_total s \<le> err_total s'"
    using assms(1)
  proof cases
    case (worker e i ws e' w')
    then have "worker_ok (xlib X) (batch e) (ws ! i)"
      using assms(2) by (simp add: workers_ok_def)
    from wstep_totals [OF worker(5) this] worker show ?thesis
      by (simp add: totals)
  qed (auto simp: totals)
  then show "gen_total s' - sent_total s' - err_total s' - total_of held (snd s')
       = gen_total s - sent_total s - err_total s - total_of held (snd s)"
    and "gen_total s \<le> gen_total s'" and "sent_total s \<le> sent_total s'" and "err_total s \<le> err_total s'"
    by simp_all
qed

definition counted :: "world \<Rightarrow> bool" where
  "counted s \<longleftrightarrow> gen_total s = sent_total s + err_total s + total_of held (snd s)
     \<and> 0 \<le> sent_total s \<and> 0 \<le> err_total s"

interpretation counted: run_invariant "started gmp c" "step X" "\<lambda>s. runnable X c \<longrightarrow> counted s" for gmp c X
proof
  fix s
  assume "started gmp c s"
  then obtain e ws where s: "s = (e, ws)" "New c = Some e"
      "ws = map (\<lambda>w. new_worker e (int w)) [0 ..< worker_count gmp c]"
    by (cases s) (auto elim: startedE)
  then have "w_pc w = Top" if "w \<in> set ws" for w
    using that new_workers_top by metis
  then have "f Top = 0 \<Longrightarrow> total_of f ws = 0" for f
    by (intro total_start) simp
  then show "runnable X c \<longrightarrow> counted s"
    using s(1,2) by (simp add: counted_def totals New_fields)
next
  fix s s'
  assume s: "reach (started gmp c) (step X) s" "runnable X c \<longrightarrow> counted s" "step X s s'"
  have "counted s'" if "runnable X c"
    using step_totals [OF s(3)] workers_ok.holds [OF s(1)] s(2) that by (simp add: counted_def)
  then show "runnable X c \<longrightarrow> counted s'" ..
qed

text \<open>Below \<open>2^64\<close> generated spans the counters hold the totals, and sent and given-up spans are generated ones.\<close>

lemma counter_values:
  assumes "runnable X c" and "running X gmp c (e, ws)" and "gen_total (e, ws) < 2 ^ 64"
  shows "uint (generated e) = gen_total (e, ws)" and "uint (sent e) = sent_total (e, ws)"
    and "uint (errors e) = err_total (e, ws)" and "sent e \<le> generated e"
proof -
  have "batch e = EffectiveBatchSize c"
    using configured.holds [OF assms(2)] by (auto simp: configured_def)
  then have "0 \<le> held (w_pc w)" if "w \<in> set ws" for w
    using workers_ok.holds [OF assms(2)] assms(1) that held_bounds(1) by (fastforce simp: workers_ok_def)
  then have held: "0 \<le> total_of held ws"
    by (rule total_nonneg)
  have c: "gen_total (e, ws) = sent_total (e, ws) + err_total (e, ws) + total_of held ws"
      "0 \<le> sent_total (e, ws)" "0 \<le> err_total (e, ws)"
    using counted.holds [OF assms(2)] assms(1) by (simp_all add: counted_def)
  have m: "generated e = word_of_int (gen_total (e, ws))" "sent e = word_of_int (sent_total (e, ws))"
      "errors e = word_of_int (err_total (e, ws))"
    using metrics_agree.holds [OF assms(2)] by (simp_all add: metrics_agree_def totals Let_def algebra_simps)
  have u: "uint (word_of_int n :: u64) = n" if "0 \<le> n" "n < 2 ^ 64" for n
    using that by (simp add: unsigned_of_int take_bit_int_eq_self)
  show "uint (generated e) = gen_total (e, ws)" "uint (sent e) = sent_total (e, ws)"
    "uint (errors e) = err_total (e, ws)"
    unfolding m by (rule u; use c held assms(3) in linarith)+
  then show "sent e \<le> generated e"
    using c held by (simp add: word_le_def)
qed

lemma counters_grow:
  assumes "runnable X c" and "running X gmp c (e, ws)" and "step X (e, ws) (e', ws')"
    and "gen_total (e', ws') < 2 ^ 64"
  shows "gen_total (e, ws) < 2 ^ 64" and "generated e \<le> generated e'" and "sent e \<le> sent e'" and "errors e \<le> errors e'"
proof -
  have w: "workers_ok X (e, ws)"
    using workers_ok.holds [OF assms(2)] assms(1) by simp
  note t = step_totals [OF assms(3) w]
  then show b: "gen_total (e, ws) < 2 ^ 64"
    using assms(4) by linarith
  note v = counter_values [OF assms(1,2) b] counter_values [OF assms(1) reach_step [OF assms(2,3)] assms(4)]
  show "generated e \<le> generated e'" "sent e \<le> sent e'" "errors e \<le> errors e'"
    using t v by (simp_all add: word_le_def)
qed

section \<open>The lines\<close>

text \<open>
  The figures of the lines against the counters \<open>s\<close>, \<open>g\<close> and \<open>f\<close> (sent, generated, errors), and each
  rate against the line before.
\<close>

definition rated :: "status_line list \<Rightarrow> bool" where
  "rated ls \<longleftrightarrow> (\<forall>i. Suc i < length ls \<longrightarrow>
     (\<exists>d>0. st_rate (ls ! Suc i) = status_rate (st_sent (ls ! i)) (st_sent (ls ! Suc i)) d))"

definition lines_ok :: "u64 \<Rightarrow> u64 \<Rightarrow> u64 \<Rightarrow> status_line list \<Rightarrow> bool" where
  "lines_ok s g f ls \<longleftrightarrow> sorted (map st_sent ls) \<and> sorted (map st_generated ls) \<and> sorted (map st_errors ls)
     \<and> (\<forall>x \<in> set ls. st_sent x \<le> st_generated x \<and> st_sent x \<le> s \<and> st_generated x \<le> g \<and> st_errors x \<le> f)"

definition logger_ok :: "u64 \<Rightarrow> u64 \<Rightarrow> u64 \<Rightarrow> logger \<Rightarrow> bool" where
  "logger_ok s g f l \<longleftrightarrow> lines_ok (lg_prev l) g f (lg_lines l) \<and> rated (lg_lines l) \<and> lg_prev l \<le> s
     \<and> (lg_lines l \<noteq> [] \<longrightarrow> lg_pc l \<noteq> LoadPrev \<and> lg_prev l = st_sent (last (lg_lines l)))
     \<and> (case lg_pc l of
          LoadGenerated cur r \<Rightarrow> lg_prev l \<le> cur \<and> cur \<le> s \<and> (\<exists>d>0. r = status_rate (lg_prev l) cur d)
        | LoadErrors cur r gn \<Rightarrow> lg_prev l \<le> cur \<and> cur \<le> s \<and> (\<exists>d>0. r = status_rate (lg_prev l) cur d)
            \<and> cur \<le> gn \<and> gn \<le> g \<and> (\<forall>x \<in> set (lg_lines l). st_generated x \<le> gn)
        | _ \<Rightarrow> True)"

lemma rated_snoc:
  assumes "rated ls" and "ls \<noteq> [] \<Longrightarrow> \<exists>d>0. st_rate x = status_rate (st_sent (last ls)) (st_sent x) d"
  shows "rated (ls @ [x])"
  unfolding rated_def
proof (intro allI impI)
  fix i
  assume "Suc i < length (ls @ [x])"
  then consider "Suc i < length ls" | "Suc i = length ls"
    by force
  then show "\<exists>d>0. st_rate ((ls @ [x]) ! Suc i) = status_rate (st_sent ((ls @ [x]) ! i)) (st_sent ((ls @ [x]) ! Suc i)) d"
  proof cases
    case 1
    with assms(1) show ?thesis
      by (simp add: rated_def nth_append)
  next
    case 2
    then have "ls \<noteq> []" "i = length ls - 1"
      by auto
    then have "ls \<noteq> []" "last ls = ls ! i"
      by (simp_all add: last_conv_nth)
    with 2 assms(2) show ?thesis
      by (simp add: nth_append)
  qed
qed

lemma lines_ok_snoc:
  assumes "lines_ok s g f ls" and "s \<le> st_sent x" and "st_sent x \<le> st_generated x" and "st_generated x \<le> g"
    and "\<forall>y \<in> set ls. st_generated y \<le> st_generated x" and "st_errors x = f"
  shows "lines_ok (st_sent x) g f (ls @ [x])"
  using assms by (auto simp: lines_ok_def sorted_append intro: order_trans)

lemma lines_ok_mono: "lines_ok s g f ls \<Longrightarrow> g \<le> g' \<Longrightarrow> f \<le> f' \<Longrightarrow> lines_ok s g' f' ls"
  by (auto simp: lines_ok_def intro: order_trans)

lemma logger_ok_mono:
  "logger_ok s g f l \<Longrightarrow> s \<le> s' \<Longrightarrow> g \<le> g' \<Longrightarrow> f \<le> f' \<Longrightarrow> logger_ok s' g' f' l"
  using lines_ok_mono [of "lg_prev l" g f "lg_lines l" g' f']
  by (cases "lg_pc l") (auto simp: logger_ok_def intro: order_trans)

lemma logStatus_ok:
  assumes "logStatus e l l'" and ok: "logger_ok (sent e) (generated e) (errors e) l" and "sent e \<le> generated e"
  shows "logger_ok (sent e) (generated e) (errors e) l'"
  using assms(1)
proof cases
  case load_prev
  with ok show ?thesis
    by (auto simp: logger_ok_def lines_ok_def rated_def)
next
  case (load_errors cur r g)
  let ?x = "\<lparr>st_sent = cur, st_rate = r, st_generated = g, st_errors = errors e\<rparr>"
  have "rated (lg_lines l @ [?x])"
    by (rule rated_snoc) (use ok load_errors(2) in \<open>auto simp: logger_ok_def\<close>)
  moreover have "lines_ok cur (generated e) (errors e) (lg_lines l @ [?x])"
    using lines_ok_snoc [of "lg_prev l" "generated e" "errors e" "lg_lines l" ?x] ok load_errors(2)
    by (simp add: logger_ok_def)
  ultimately show ?thesis
    using ok load_errors by (simp add: logger_ok_def)
qed (use ok assms(3) in \<open>auto simp: logger_ok_def lines_ok_def intro: order_trans\<close>)

lemma watched_ok:
  assumes "watched X gmp c z" and "runnable X c" and "gen_total (fst z) < 2 ^ 64"
  shows "logger_ok (sent (fst (fst z))) (generated (fst (fst z))) (errors (fst (fst z))) (snd z)"
  using assms(1,3)
proof (induction rule: reach.induct)
  case (reach_init z)
  then show ?case
    by (auto simp: logger0_def logger_ok_def lines_ok_def rated_def)
next
  case (reach_step z z')
  from reach_step(2) show ?case
  proof cases
    case (engine s s' l)
    obtain e ws e' ws' where s: "s = (e, ws)" "s' = (e', ws')"
      by (cases s, cases s')
    have "running X gmp c (e, ws)"
      using watched_running [OF reach_step(1)] engine s by simp
    from counters_grow [OF assms(2) this] engine s reach_step(3,4) show ?thesis
      by (auto intro: logger_ok_mono)
  next
    case (logger e l l' ws)
    have "sent e \<le> generated e"
      using counter_values(4) [OF assms(2)] watched_running [OF reach_step(1)] logger reach_step(4) by simp
    then show ?thesis
      using logStatus_ok [OF logger(4)] reach_step(3,4) logger by simp
  qed
qed

lemma prints_line:
  assumes "watched X gmp c ((e, ws), l)" and "lg_pc l = Select" and "\<not> crashed e" and "0 < d"
  defines "r \<equiv> status_rate (lg_prev l) (sent e) d"
  shows "watched X gmp c ((e, ws), l\<lparr>lg_pc := Select, lg_prev := sent e,
     lg_lines := lg_lines l @ [\<lparr>st_sent = sent e, st_rate = r, st_generated = generated e, st_errors = errors e\<rparr>]\<rparr>)"
proof -
  let ?l1 = "l\<lparr>lg_pc := LoadGenerated (sent e) r\<rparr>"
  let ?l2 = "?l1\<lparr>lg_pc := LoadErrors (sent e) r (generated e)\<rparr>"
  have "watched X gmp c ((e, ws), ?l1)"
    unfolding r_def by (intro reach_step [OF assms(1)] watched_step.logger assms(2-4) logStatus.tick refl)
  then have "watched X gmp c ((e, ws), ?l2)"
    by (rule reach_step) (intro watched_step.logger assms(3) logStatus.load_generated; simp)
  from reach_step [OF this watched_step.logger [OF assms(3) logStatus.load_errors]] show ?thesis
    by simp
qed

text \<open>
  C27. The status lines: as long as fewer than \<open>2^64\<close> spans have been generated, whatever the workers do
  between the loads of a line, no figure ever falls from one line to the next, a line never shows more
  sent than generated spans and never more than the counters hold, and its rate is that of the spans sent
  since the line before.
\<close>

theorem status_lines:
  assumes "runnable X c" and "watched X gmp c ((e, ws), l)"
    and "SpansGenerated (met e) + total_of due_generated ws < 2 ^ 64"
  defines "ls \<equiv> lg_lines l"
  shows "sorted (map st_sent ls) \<and> sorted (map st_generated ls) \<and> sorted (map st_errors ls)
     \<and> (\<forall>x \<in> set ls. st_sent x \<le> st_generated x \<and> st_sent x \<le> sent e
          \<and> st_generated x \<le> generated e \<and> st_errors x \<le> errors e)
     \<and> (\<forall>i. Suc i < length ls \<longrightarrow> (\<exists>d>0. st_rate (ls ! Suc i)
          = fl (fl (of_int (uint (st_sent (ls ! Suc i)) - uint (st_sent (ls ! i)))) / Seconds d)))"
proof -
  have ok: "logger_ok (sent e) (generated e) (errors e) l"
    using watched_ok [OF assms(2,1)] assms(3) by (simp add: totals)
  then have "uint (st_sent (ls ! Suc i) - st_sent (ls ! i)) = uint (st_sent (ls ! Suc i)) - uint (st_sent (ls ! i))"
    if "Suc i < length ls" for i
    using that sorted_nth_mono [of "map st_sent ls" i "Suc i"]
    by (intro uint_sub_lem [THEN iffD1]) (simp add: ls_def logger_ok_def lines_ok_def word_le_def)
  with ok show ?thesis
    unfolding ls_def logger_ok_def lines_ok_def rated_def status_rate_def by (auto intro: order_trans)
qed

lemma status_lines_witness:
  "\<exists>e ws l. watched sample_externals 4 sample_config ((e, ws), l) \<and> cancelled e
     \<and> map st_generated (lg_lines l) = [2000, 2000] \<and> (\<forall>x \<in> set (lg_lines l). st_sent x \<le> 2000)"
proof -
  obtain e ws where r: "running sample_externals 4 sample_config (e, ws)" "map w_pc ws = [Returned 2000, Returned 0]"
      "cancelled e" "generated e = 2000" "SpansGenerated (met e) = 2000"
    by (rule sample_run)
  have "modulus_ok sample_config" "burst_fits sample_config" "0 \<le> EffectiveBatchSize sample_config"
    by (simp_all add: modulus_ok_def burst_fits_def EffectiveBatchSize_def sample_config_def)
  then have live: "\<not> crashed e"
    using steady.holds [OF r(1)] sample_runnable sample_waitN by (auto simp: steady_def)
  let ?line = "\<lambda>p. \<lparr>st_sent = sent e, st_rate = status_rate p (sent e) 5000000000, st_generated = generated e, st_errors = errors e\<rparr>"
  let ?l = "\<lambda>ls. \<lparr>lg_pc = Select, lg_prev = sent e, lg_lines = ls\<rparr>"
  have "watched sample_externals 4 sample_config ((e, ws), ?l [])"
    using reach_step [OF running_watched [OF r(1)] watched_step.logger [OF live logStatus.load_prev]]
    by (simp add: logger0_def)
  from prints_line [OF prints_line [OF this]] live
  have w: "watched sample_externals 4 sample_config ((e, ws), ?l [?line (sent e), ?line (sent e)])"
    by simp
  have "total_of due_generated ws = sum_list (map due_generated (map w_pc ws))"
    by (simp add: total_of_def comp_def)
  with status_lines [OF sample_runnable w] w r show ?thesis
    by (intro exI [of _ e] exI [of _ ws] exI [of _ "?l [?line (sent e), ?line (sent e)]"]) simp
qed

end
