(* ===== verification/Registry.thy ===== *)
theory Registry
  imports Complex_Main Engine
begin

text \<open>
  \<open>internal/metrics/metrics.go\<close>: the registration of the collectors. A registry is the list of the
  descriptors it holds; \<open>MustRegister\<close> panics where Prometheus's \<open>Register\<close> returns an error. The standard
  Go and process collectors are known by their descriptors.
\<close>

record desc =
  fqName :: string
  helpText :: string
  constLabels :: "(string \<times> string) list"

type_synonym registry = "desc list"

text \<open>
  A descriptor clashes with a registered one of the same name unless both have the same help text and
  the same label names, with different label values.
\<close>

definition clashes :: "desc \<Rightarrow> desc \<Rightarrow> bool" where
  "clashes d d' \<longleftrightarrow> fqName d = fqName d' \<and>
     \<not> (helpText d = helpText d' \<and> map fst (constLabels d) = map fst (constLabels d') \<and> constLabels d \<noteq> constLabels d')"

definition MustRegister :: "desc list \<Rightarrow> registry \<Rightarrow> registry option" where
  "MustRegister ds reg = (if list_ex (\<lambda>d. list_ex (clashes d) reg) ds then None else Some (reg @ ds))"

definition counter :: "(string \<times> string) list \<Rightarrow> string \<Rightarrow> string \<Rightarrow> registry \<Rightarrow> registry option" where
  "counter labels name hlp reg = MustRegister [\<lparr>fqName = name, helpText = hlp, constLabels = labels\<rparr>] reg"

definition gauge :: "(string \<times> string) list \<Rightarrow> string \<Rightarrow> string \<Rightarrow> registry \<Rightarrow> registry option" where
  "gauge labels name hlp reg = MustRegister [\<lparr>fqName = name, helpText = hlp, constLabels = labels\<rparr>] reg"

definition send_buckets :: "rat list" where
  "send_buckets = [1 / 1000, 25 / 10000, 5 / 1000, 1 / 100, 25 / 1000, 5 / 100, 1 / 10, 25 / 100, 5 / 10, 1, 5 / 2, 5, 10]"

text \<open>\<open>NewHistogram\<close> panics unless the buckets increase.\<close>

definition NewHistogram :: "(string \<times> string) list \<Rightarrow> string \<Rightarrow> string \<Rightarrow> rat list \<Rightarrow> desc option" where
  "NewHistogram labels name hlp buckets =
     (if sorted_wrt (<) buckets then Some \<lparr>fqName = name, helpText = hlp, constLabels = labels\<rparr> else None)"

text \<open>\<open>metrics.New\<close>: the registry, and the collectors at their initial values.\<close>

definition Metrics_New :: "desc list \<Rightarrow> desc list \<Rightarrow> string \<Rightarrow> int \<Rightarrow> (registry \<times> Metrics) option" where
  "Metrics_New goCollector processCollector snk replica = do {
     let labels = [(''sink'', snk)];
     reg \<leftarrow> counter labels ''spangen_spans_generated_total'' ''Spans generated.'' [];
     reg \<leftarrow> counter labels ''spangen_spans_sent_total'' ''Spans successfully sent to the sink.'' reg;
     reg \<leftarrow> counter labels ''spangen_batches_ok_total'' ''Batches sent successfully.'' reg;
     reg \<leftarrow> counter labels ''spangen_batches_error_total'' ''Batches that failed to send.'' reg;
     reg \<leftarrow> counter labels ''spangen_send_errors_total'' ''Send errors (including retries).'' reg;
     reg \<leftarrow> counter labels ''spangen_dropped_spans_total'' ''Spans dropped after exhausting retries.'' reg;
     reg \<leftarrow> gauge labels ''spangen_inflight_batches'' ''Batches currently being sent.'' reg;
     reg \<leftarrow> gauge labels ''spangen_target_rate_spans_per_sec'' ''Current target rate (after ramp).'' reg;
     reg \<leftarrow> gauge labels ''spangen_achieved_rate_spans_per_sec'' ''Measured spans/sec over the last sample window.'' reg;
     h \<leftarrow> NewHistogram labels ''spangen_send_duration_seconds'' ''Per-batch send latency.'' send_buckets;
     reg \<leftarrow> MustRegister [h] reg;
     reg \<leftarrow> MustRegister goCollector reg;
     reg \<leftarrow> MustRegister processCollector reg;
     Some (reg, metrics0)
   }"

section \<open>Registration\<close>

definition own_names :: "string list" where
  "own_names = [''spangen_spans_generated_total'', ''spangen_spans_sent_total'', ''spangen_batches_ok_total'',
     ''spangen_batches_error_total'', ''spangen_send_errors_total'', ''spangen_dropped_spans_total'',
     ''spangen_inflight_batches'', ''spangen_target_rate_spans_per_sec'', ''spangen_achieved_rate_spans_per_sec'',
     ''spangen_send_duration_seconds'']"

definition foreign :: "desc list \<Rightarrow> bool" where
  "foreign ds \<longleftrightarrow> list_all (\<lambda>d. take 8 (fqName d) \<noteq> ''spangen_'') ds"

lemma MustRegister_fresh:
  "(\<And>d d'. d \<in> set ds \<Longrightarrow> d' \<in> set reg \<Longrightarrow> fqName d \<noteq> fqName d') \<Longrightarrow> MustRegister ds reg = Some (reg @ ds)"
  by (force simp: MustRegister_def list_ex_iff clashes_def)

lemma own_prefix: "n \<in> set own_names \<Longrightarrow> take 8 n = ''spangen_''"
  by (auto simp: own_names_def)

lemma foreign_fresh: "foreign ds \<Longrightarrow> d \<in> set ds \<Longrightarrow> fqName d \<notin> set own_names"
  using own_prefix by (force simp: foreign_def list_all_iff)

definition own_descs :: "string \<Rightarrow> desc list" where
  "own_descs snk = map2 (\<lambda>n h. \<lparr>fqName = n, helpText = h, constLabels = [(''sink'', snk)]\<rparr>) own_names
     [''Spans generated.'', ''Spans successfully sent to the sink.'', ''Batches sent successfully.'',
      ''Batches that failed to send.'', ''Send errors (including retries).'', ''Spans dropped after exhausting retries.'',
      ''Batches currently being sent.'', ''Current target rate (after ramp).'',
      ''Measured spans/sec over the last sample window.'', ''Per-batch send latency.'']"

lemma own_descs_facts: "map fqName (own_descs snk) = own_names" "length (own_descs snk) = 10"
    "d \<in> set (own_descs snk) \<Longrightarrow> constLabels d = [(''sink'', snk)]"
  by (auto simp: own_descs_def own_names_def)

lemma own_descs_name: "d \<in> set (own_descs snk) \<Longrightarrow> fqName d \<in> set own_names"
  by (metis imageI list.set_map own_descs_facts(1))

lemma MustRegister_one:
  "n \<notin> set (map fqName reg) \<Longrightarrow> MustRegister [\<lparr>fqName = n, helpText = h, constLabels = ls\<rparr>] reg
     = Some (reg @ [\<lparr>fqName = n, helpText = h, constLabels = ls\<rparr>])"
  by (rule MustRegister_fresh) auto

lemma Metrics_New_own:
  "Metrics_New go prc snk replica =
     do { reg \<leftarrow> MustRegister go (own_descs snk); reg \<leftarrow> MustRegister prc reg; Some (reg, metrics0) }"
  by (simp add: Metrics_New_def counter_def gauge_def NewHistogram_def MustRegister_one send_buckets_def
      own_descs_def own_names_def Let_def)

lemma Metrics_New_defined:
  assumes "foreign go" and "foreign prc" and "fqName ` set go \<inter> fqName ` set prc = {}"
  shows "Metrics_New go prc snk replica = Some (own_descs snk @ go @ prc, metrics0)"
proof -
  have "MustRegister go (own_descs snk) = Some (own_descs snk @ go)"
    by (rule MustRegister_fresh) (metis own_descs_name foreign_fresh [OF assms(1)])
  moreover have "MustRegister prc (own_descs snk @ go) = Some ((own_descs snk @ go) @ prc)"
    by (rule MustRegister_fresh) (use own_descs_name foreign_fresh [OF assms(2)] assms(3) in fastforce)
  ultimately show ?thesis
    by (simp add: Metrics_New_own)
qed

text \<open>
  \<open>metrics.New\<close> does not panic, as long as the standard collectors keep out of the \<open>spangen_\<close> names and
  of each other's: all ten collectors are registered under different names, start at zero and carry the
  sink as their only constant label; the replica index is not used.
\<close>

theorem Metrics_New_returns:
  assumes "foreign go" and "foreign prc" and "fqName ` set go \<inter> fqName ` set prc = {}"
  shows "\<exists>reg. Metrics_New go prc snk replica = Some (reg, metrics0) \<and> map fqName (take 10 reg) = own_names
     \<and> drop 10 reg = go @ prc \<and> distinct own_names \<and> (\<forall>d \<in> set (take 10 reg). constLabels d = [(''sink'', snk)])
     \<and> Metrics_New go prc snk replica' = Some (reg, metrics0)"
proof -
  have "distinct own_names"
    by (simp add: own_names_def)
  then show ?thesis
    using own_descs_facts [where snk = snk] by (simp add: Metrics_New_defined [OF assms])
qed

lemma Metrics_New_returns_witness:
  "\<exists>reg. Metrics_New [\<lparr>fqName = ''go_goroutines'', helpText = ''Number of goroutines.'', constLabels = []\<rparr>]
       [\<lparr>fqName = ''process_cpu_seconds_total'', helpText = ''CPU time.'', constLabels = []\<rparr>] ''otlp'' 3 = Some (reg, metrics0)
     \<and> length (drop 10 reg) = 2"
proof -
  let ?go = "[\<lparr>fqName = ''go_goroutines'', helpText = ''Number of goroutines.'', constLabels = []\<rparr>]"
  let ?prc = "[\<lparr>fqName = ''process_cpu_seconds_total'', helpText = ''CPU time.'', constLabels = []\<rparr>]"
  have "foreign ?go" "foreign ?prc" "fqName ` set ?go \<inter> fqName ` set ?prc = {}"
    by (simp_all add: foreign_def)
  from Metrics_New_returns [OF this, of "''otlp''" 3 4]
  obtain reg where "Metrics_New ?go ?prc ''otlp'' 3 = Some (reg, metrics0)" "drop 10 reg = ?go @ ?prc"
    by blast
  then show ?thesis
    by (intro exI [of _ reg]) (simp del: length_drop)
qed

end
