(* ===== verification/Startup.thy ===== *)
theory Startup
  imports ChProps OtlpProps Registry EngineProps ConfigParseProps
begin

text \<open>
  \<open>cmd/spangen/main.go\<close>: \<open>config.Parse\<close>, the metrics, the choice of the sink and the engine; and the
  interface value \<open>snk\<close> with its dynamic dispatch.
\<close>

section \<open>The sink in use\<close>

datatype sink = ClickHouseSink chSink | OTLPSink otlpSink

fun sink_Name :: "sink \<Rightarrow> string" where
  "sink_Name (ClickHouseSink s) = ''clickhouse''"
| "sink_Name (OTLPSink s) = ''otlp''"

fun sink_Send :: "'w drivers \<Rightarrow> 'w grpc \<Rightarrow> readers \<Rightarrow> ctx \<Rightarrow> Traces \<Rightarrow> sink \<Rightarrow> 'w \<Rightarrow> (error \<times> sink \<times> 'w) option" where
  "sink_Send D G R cx td (ClickHouseSink s) w =
     map_option (\<lambda>(r, s1, w1). (r, ClickHouseSink s1, w1)) (ch_Send D R cx td s w)"
| "sink_Send D G R cx td (OTLPSink s) w =
     map_option (\<lambda>(r, s1, w1). (r, OTLPSink s1, w1)) (otlp_Send G cx td s w)"

fun sink_Close :: "'w drivers \<Rightarrow> 'w grpc \<Rightarrow> sink \<Rightarrow> 'w \<Rightarrow> error \<times> 'w" where
  "sink_Close D G (ClickHouseSink s) w = ch_Close D s w"
| "sink_Close D G (OTLPSink s) w = otlp_Close G s w"

text \<open>The \<open>switch\<close> on \<open>cfg.Sink\<close>: an error, or a sink, which stays nil for any other name.\<close>

definition open_sink :: "'w drivers \<Rightarrow> 'w grpc \<Rightarrow> Config \<Rightarrow> 'w \<Rightarrow> ((string + sink option) \<times> 'w) option" where
  "open_sink D G c w =
     (if Sink c = ''clickhouse'' then
        map_option (\<lambda>(r, w1). (map_sum id (\<lambda>s. Some (ClickHouseSink s)) r, w1)) (NewClickHouse D c (ReplicaIndex c) w)
      else if Sink c = ''otlp'' then
        (case NewOTLP G c w of (r, w1) \<Rightarrow> Some (map_sum id (\<lambda>s. Some (OTLPSink s)) r, w1))
      else Some (Inr None, w))"

section \<open>\<open>main\<close>\<close>

text \<open>
  How the start ends: the exit of \<open>flag.Parse\<close>, \<open>log.Fatalf\<close> for the configuration or the sink, or the engine about to
  run. None is a panic.
\<close>

datatype start = Exited int | ConfigFailed config_error | SinkFailed string | Started "sink option" registry Engine

definition main_start :: "desc list \<Rightarrow> desc list \<Rightarrow> 'w drivers \<Rightarrow> 'w grpc \<Rightarrow> os_env \<Rightarrow> string list \<Rightarrow> 'w \<Rightarrow> (start \<times> 'w) option" where
  "main_start go prc D G E args w = do {
     cfg \<leftarrow> Parse E args;
     case cfg of
       Exits n \<Rightarrow> Some (Exited n, w)
     | Refused err \<Rightarrow> Some (ConfigFailed err, w)
     | Parsed c \<Rightarrow> do {
         (reg, m) \<leftarrow> Metrics_New go prc (Sink c) (ReplicaIndex c);
         (r, w1) \<leftarrow> open_sink D G c w;
         case r of
           Inl err \<Rightarrow> Some (SinkFailed err, w1)
         | Inr snk \<Rightarrow> do { e \<leftarrow> New c; Some (Started snk reg e, w1) }
       }
   }"

text \<open>The deferred \<open>snk.Close()\<close>, whose error is logged; on a nil interface it panics.\<close>

definition main_end :: "'w drivers \<Rightarrow> 'w grpc \<Rightarrow> sink option \<Rightarrow> 'w \<Rightarrow> (error \<times> 'w) option" where
  "main_end D G snk w = map_option (\<lambda>s. sink_Close D G s w) snk"

lemma open_sink_kind:
  assumes "connections D live" and "validate c = None"
  shows "\<exists>r w1. open_sink D G c w = Some (r, w1) \<and>
     (case r of Inl e \<Rightarrow> True | Inr snk \<Rightarrow> \<exists>s. snk = Some s \<and> sink_Name s = Sink c)"
proof (cases "Sink c = ''clickhouse''")
  case True
  then have "Endpoints (CH c) \<noteq> []"
    using assms(2) by (auto simp: validate_iff valid_config_def valid_clickhouse_def)
  then obtain r w1 where "NewClickHouse D c (ReplicaIndex c) w = Some (r, w1)"
    using connections.NewClickHouse_outcome [OF assms(1)] by blast
  with True show ?thesis
    by (cases r) (auto simp: open_sink_def)
next
  case False
  then have "Sink c = ''otlp''"
    using assms(2) by (auto simp: validate_iff valid_config_def)
  then show ?thesis
    by (cases "NewOTLP G c w"; cases "fst (NewOTLP G c w)") (auto simp: open_sink_def)
qed




end
