(* ===== verification/ChJson.thy ===== *)
theory ChJson
  imports ChRows
begin

text \<open>
  The JSON text of an attribute map, read back by a small decoder: the columns of the \<open>json\<close> schema carry
  the attributes without loss, quotes, control bytes and HTML characters included.
\<close>

section \<open>A decoder\<close>

definition unhex :: "char \<Rightarrow> nat option" where
  "unhex c = (if byte_in 48 57 c \<or> byte_in 97 102 c then Some (hex_val c) else None)"

text \<open>The text behind \<open>\u\<close>: a byte below 128 or one of the two line separators.\<close>

definition unicode :: "char \<Rightarrow> char \<Rightarrow> char \<Rightarrow> char \<Rightarrow> string option" where
  "unicode a b c d =
     (if [a, b] = ''00'' then (case (unhex c, unhex d) of
          (Some x, Some y) \<Rightarrow> if x < 8 then Some [char_of (16 * x + y)] else None
        | _ \<Rightarrow> None)
      else if [a, b, c, d] = ''2028'' then Some [CHR 0xE2, CHR 0x80, CHR 0xA8]
      else if [a, b, c, d] = ''2029'' then Some [CHR 0xE2, CHR 0x80, CHR 0xA9]
      else None)"

definition escape :: "char \<Rightarrow> char option" where
  "escape e = map_of [(CHR 0x5C, CHR 0x5C), (CHR 0x22, CHR 0x22), (CHR ''b'', CHR 0x08), (CHR ''f'', CHR 0x0C),
     (CHR ''n'', CHR 0x0A), (CHR ''r'', CHR 0x0D), (CHR ''t'', CHR 0x09)] e"

definition put :: "string \<Rightarrow> (string \<times> string) option \<Rightarrow> (string \<times> string) option" where
  "put p r = map_option (\<lambda>(s, t). (p @ s, t)) r"

text \<open>What stands before the closing quote, and the rest.\<close>

fun unquote :: "string \<Rightarrow> (string \<times> string) option" where
  "unquote [] = None"
| "unquote (c # s) =
     (if c = CHR 0x22 then Some ([], s)
      else if c = CHR 0x5C then (case s of
          [] \<Rightarrow> None
        | e # s1 \<Rightarrow>
            if e = CHR ''u'' then (case s1 of
                w # x # y # z # s2 \<Rightarrow> (case unicode w x y z of Some p \<Rightarrow> put p (unquote s2) | None \<Rightarrow> None)
              | _ \<Rightarrow> None)
            else (case escape e of Some p \<Rightarrow> put [p] (unquote s1) | None \<Rightarrow> None))
      else put [c] (unquote s))"

lemma unquote_shorter: "unquote s = Some (p, t) \<Longrightarrow> length t < length s"
  by (induction s arbitrary: p t rule: unquote.induct)
    (force simp: put_def split: if_splits list.splits option.splits)+

definition unstring :: "string \<Rightarrow> (string \<times> string) option" where
  "unstring s = (case s of c # s' \<Rightarrow> if c = CHR 0x22 then unquote s' else None | [] \<Rightarrow> None)"

lemma unstring_shorter: "unstring s = Some (p, t) \<Longrightarrow> length t < length s"
  by (auto simp: unstring_def dest!: unquote_shorter split: list.splits if_splits)

definition unmember :: "string \<Rightarrow> ((string \<times> string) \<times> string) option" where
  "unmember s =
     (case unstring s of
        Some (k, c # s1) \<Rightarrow> if c = CHR '':'' then map_option (\<lambda>(v, t). ((k, v), t)) (unstring s1) else None
      | _ \<Rightarrow> None)"

lemma unmember_shorter: "unmember s = Some (kv, t) \<Longrightarrow> length t < length s"
  by (force simp: unmember_def dest!: unstring_shorter split: option.splits list.splits if_splits)

function unmembers :: "string \<Rightarrow> amap option" where
  "unmembers s =
     (case unmember s of
        Some (kv, t) \<Rightarrow>
          if t = ''}'' then Some [kv]
          else if t \<noteq> [] \<and> hd t = CHR '','' then map_option ((#) kv) (unmembers (tl t))
          else None
      | None \<Rightarrow> None)"
  by pat_completeness auto
termination
  by (relation "measure length") (auto dest!: unmember_shorter)

declare unmembers.simps [simp del]

definition unobject :: "string \<Rightarrow> amap option" where
  "unobject s = (if s = ''{}'' then Some [] else if s \<noteq> [] \<and> hd s = CHR ''{'' then unmembers (tl s) else None)"

section \<open>Reading back\<close>

text \<open>Well-formed UTF-8.\<close>

function utf8 :: "string \<Rightarrow> bool" where
  "utf8 s = (if s = [] then True else if rune_size s = 0 then False else utf8 (drop (rune_size s) s))"
  by pat_completeness auto
termination
  by (relation "measure length") (auto simp del: rune_size.simps)

declare utf8.simps [simp del]

lemma unquote_plain: "c \<noteq> CHR 0x22 \<Longrightarrow> c \<noteq> CHR 0x5C \<Longrightarrow> unquote (c # s) = put [c] (unquote s)"
  by simp

lemma put_Some [simp]: "put p (Some (s, t)) = Some (p @ s, t)"
  by (simp add: put_def)

lemma unhex_hex_digit: "d < 16 \<Longrightarrow> unhex (hex_digit d) = Some d"
  using hex_val_hex_digit [of d] by (simp add: unhex_def byte_in_def) (simp add: hex_digit_def)

lemma unquote_byte:
  assumes "byte_in 0 127 c" and "unquote s = Some (p, t)"
  shows "unquote (json_byte c @ s) = Some (c # p, t)"
proof -
  have small: "(of_char c :: nat) div 16 < 8" "(of_char c :: nat) mod 16 < 16"
    using assms(1) by (auto simp: byte_in_def)
  have "char_of (16 * ((of_char c :: nat) div 16) + of_char c mod 16) = c"
    by simp
  then have "unicode (CHR ''0'') (CHR ''0'') (hex_digit (of_char c div 16)) (hex_digit (of_char c mod 16)) = Some [c]"
    using small by (simp add: unicode_def unhex_hex_digit)
  then show ?thesis
    using assms(2) by (auto simp: json_byte_def escape_def)
qed

text \<open>The bytes of a longer sequence are above 127, and are copied.\<close>

lemma unquote_high:
  assumes "\<And>c. c \<in> set r \<Longrightarrow> \<not> byte_in 0 127 c" and "unquote s = Some (p, t)"
  shows "unquote (r @ s) = Some (r @ p, t)"
  using assms(1)
proof (induction r)
  case (Cons c r)
  have "\<not> byte_in 0 127 c"
    by (rule Cons.prems) simp
  then have "c \<noteq> CHR 0x22" "c \<noteq> CHR 0x5C"
    by (auto simp: byte_in_def)
  with Cons show ?case
    by (simp add: unquote_plain)
qed (simp add: assms(2))

lemma rune_bytes:
  assumes "\<not> byte_in 0 127 a" and "0 < rune_size (a # s)" and "c \<in> set (take (rune_size (a # s)) (a # s))"
  shows "\<not> byte_in 0 127 c"
  using assms by (auto simp: byte_in_def split: if_splits list.splits)

lemma utf8_byte: "byte_in 0 127 a \<Longrightarrow> utf8 (a # s) = utf8 s"
  by (subst utf8.simps) simp

lemma utf8_rune: "\<not> byte_in 0 127 a \<Longrightarrow> utf8 (a # s) \<longleftrightarrow>
    0 < rune_size (a # s) \<and> utf8 (drop (rune_size (a # s)) (a # s))"
  by (subst utf8.simps) (simp del: rune_size.simps drop.simps)

lemma json_chars_rune:
  assumes "\<not> byte_in 0 127 a" and "0 < rune_size (a # s)"
  shows "json_chars (a # s) =
     (let r = take (rune_size (a # s)) (a # s)
      in (if r = [CHR 0xE2, CHR 0x80, CHR 0xA8] then CHR 0x5C # ''u2028''
          else if r = [CHR 0xE2, CHR 0x80, CHR 0xA9] then CHR 0x5C # ''u2029'' else r))
     @ json_chars (drop (rune_size (a # s)) (a # s))"
  using assms by (subst json_chars.simps) (simp add: Let_def del: rune_size.simps json_chars.simps take.simps drop.simps)

lemma unquote_rune:
  assumes "\<And>c. c \<in> set r \<Longrightarrow> \<not> byte_in 0 127 c" and "unquote s = Some (p, t)"
  shows "unquote ((if r = [CHR 0xE2, CHR 0x80, CHR 0xA8] then CHR 0x5C # ''u2028''
      else if r = [CHR 0xE2, CHR 0x80, CHR 0xA9] then CHR 0x5C # ''u2029'' else r) @ s) = Some (r @ p, t)"
  using unquote_high [OF assms] assms(2) by (simp add: unicode_def)

lemma unquote_json_chars:
  "utf8 s \<Longrightarrow> unquote (json_chars s @ CHR 0x22 # t) = Some (s, t)"
proof (induction s rule: json_chars.induct)
  case (2 a s)
  show ?case
  proof (cases "byte_in 0 127 a")
    case True
    then have "utf8 s"
      using "2.prems" by (simp only: utf8_byte)
    then have "unquote (json_chars s @ CHR 0x22 # t) = Some (s, t)"
      by (rule 2(1) [OF True])
    from unquote_byte [OF True this] True show ?thesis
      by simp
  next
    case False
    let ?n = "rune_size (a # s)"
    have n: "0 < ?n" and rest: "utf8 (drop ?n (a # s))"
      using "2.prems" utf8_rune [OF False] by blast+
    have IH: "unquote (json_chars (drop ?n (a # s)) @ CHR 0x22 # t) = Some (drop ?n (a # s), t)"
      by (rule 2(3) [OF False refl refl]) (use n rest in simp_all)
    show ?thesis
      unfolding json_chars_rune [OF False n] Let_def append_assoc
      by (subst unquote_rune [OF rune_bytes [OF False n] IH]) (assumption, simp only: append_take_drop_id)
  qed
qed simp


lemma unstring_json_string: "utf8 s \<Longrightarrow> unstring (json_string s @ t) = Some (s, t)"
  by (simp add: unstring_def json_string_def unquote_json_chars)

lemma unmember_json_member:
  "utf8 (fst kv) \<Longrightarrow> utf8 (snd kv) \<Longrightarrow> unmember (json_member kv @ t) = Some (kv, t)"
  by (simp add: unmember_def json_member_def unstring_json_string)

lemma unmembers_join:
  "kvs \<noteq> [] \<Longrightarrow> \<forall>kv \<in> set kvs. utf8 (fst kv) \<and> utf8 (snd kv) \<Longrightarrow>
     unmembers (join_byte (CHR '','') (map json_member kvs) @ ''}'') = Some kvs"
proof (induction kvs)
  case (Cons kv kvs)
  then show ?case
    by (cases kvs) (simp_all add: unmembers.simps [of "json_member kv @ u" for u] unmember_json_member)
qed simp

text \<open>
  C35. The JSON columns lose nothing: the text that \<open>jsonAttr\<close> writes for a map of well-formed UTF-8
  strings, read back as a JSON object, is the map in the order of its keys.
\<close>

theorem jsonAttr_roundtrip:
  assumes "\<And>k v. (k, v) \<in> set m \<Longrightarrow> utf8 k \<and> utf8 v"
  shows "unobject (jsonAttr m) = Some (sort_key fst m)"
proof (cases "m = []")
  case False
  then have "sort_key fst m \<noteq> []"
    by (metis length_0_conv length_sort)
  moreover have "\<forall>kv \<in> set (sort_key fst m). utf8 (fst kv) \<and> utf8 (snd kv)"
    using assms by auto
  ultimately have "unmembers (join_byte (CHR '','') (map json_member (sort_key fst m)) @ ''}'') = Some (sort_key fst m)"
    by (rule unmembers_join)
  moreover have "jsonAttr m \<noteq> ''{}''"
    using False \<open>sort_key fst m \<noteq> []\<close>
    by (cases "sort_key fst m"; cases "tl (sort_key fst m)") (auto simp: jsonAttr_def json_member_def json_string_def)
  ultimately show ?thesis
    using False by (simp add: unobject_def jsonAttr_def)
qed (simp add: jsonAttr_def unobject_def)

lemma jsonAttr_roundtrip_witness:
  "unobject (jsonAttr [(''k'', [CHR 0x22, CHR 0x0A]), (''a<b'', [CHR 0xE2, CHR 0x80, CHR 0xA8])])
     = Some [(''a<b'', [CHR 0xE2, CHR 0x80, CHR 0xA8]), (''k'', [CHR 0x22, CHR 0x0A])]"
proof -
  have "utf8 ''k''" "utf8 [CHR 0x22, CHR 0x0A]" "utf8 ''a<b''" "utf8 [CHR 0xE2, CHR 0x80, CHR 0xA8]"
    by (simp_all add: utf8.simps byte_in_def)
  then show ?thesis
    by (subst jsonAttr_roundtrip) auto
qed

end
