(* ===== verification/Delivery.thy ===== *)
theory Delivery
  imports Startup ChJson
begin

text \<open>
  What the engine counts as sent, in terms of the calls of \<open>Send\<close> that a run records; calls on a server in memory; and
  the rows of a generated batch.
\<close>

section \<open>What the engine counts as sent\<close>

lemma run_sent:
  assumes "runnable X c" and "running X gmp c (e, ws)" and "quiet ws"
  shows "delivered (sends e) = SpansSent (met e)" and "failures (sends e) = SendErrors (met e)"
  using metrics_agree.holds [OF assms(2)] sends_agree.holds [OF assms(2)] assms
  by (auto simp: metrics_agree_def sends_agree_def Let_def quiet_total)

text \<open>During a run the metric may lag behind the calls, never the other way round.\<close>

lemma sent_le_delivered:
  assumes "runnable X c" and "running X gmp c (e, ws)"
  shows "SpansSent (met e) \<le> delivered (sends e)"
proof -
  have "batch e = EffectiveBatchSize c"
    using configured.holds [OF assms(2)] by (auto simp: configured_def)
  then have "\<forall>w \<in> set ws. worker_ok (xlib X) (EffectiveBatchSize c) w"
    using workers_ok.holds [OF assms(2)] assms(1) by (simp add: workers_ok_def)
  then have "0 \<le> due_delivered (w_pc w)" if "w \<in> set ws" for w
    using that by (cases "w_pc w"; fastforce simp: worker_ok_def)
  then have "0 \<le> total_of due_delivered ws"
    by (rule total_nonneg)
  moreover have "sends_agree (e, ws)"
    using sends_agree.holds [OF assms(2)] assms(1) by blast
  ultimately show ?thesis
    by (simp add: sends_agree_def)
qed

lemma no_failures: "failures xs = 0 \<Longrightarrow> \<forall>x \<in> set xs. snd x"
  by (auto simp: failures_def filter_empty_conv)

section \<open>Servers in memory that are up\<close>

lemma mem_append_up:
  "m_down w = [] \<Longrightarrow> \<exists>w'. append_rows (batch_Append mem_drivers) b rs w = (None, w') \<and> m_down w' = []"
proof (induction rs arbitrary: w)
  case (Cons r rs)
  have "\<exists>w1. batch_Append mem_drivers b r w = (None, w1) \<and> m_down w1 = []"
    using Cons.prems by (cases b) (auto simp: mem_defs split: option.splits prod.splits)
  with Cons.IH show ?case
    by force
qed simp

lemma mem_Send_up:
  assumes "conns s \<noteq> []" and "m_down w = []"
  shows "\<exists>s' w'. ch_Send mem_drivers R cx td s w = Some (None, s', w') \<and> conns s' = conns s \<and> m_down w' = []"
proof -
  obtain c s1 where p: "ch_pick s = Some (c, s1)"
    using assms(1) by (cases "length (conns s) = 1") (simp_all add: ch_pick_def Let_def)
  have "\<exists>b w1. newBatch mem_drivers c (WithTimeout cx (sendTO s)) (insertSQL s1) w = (Inr b, w1) \<and> m_down w1 = []"
    using assms(2) by (cases c) (auto simp: mem_defs)
  then obtain b w1 where n: "newBatch mem_drivers c (WithTimeout cx (sendTO s)) (insertSQL s1) w = (Inr b, w1)" "m_down w1 = []"
    by blast
  obtain w2 where a: "append_resources mem_drivers R s1 b td w1 = (None, w2)" "m_down w2 = []"
    using mem_append_up [OF n(2)] by (auto simp: append_resources_rows)
  have "\<exists>w3. batch_Send mem_drivers b w2 = (None, w3) \<and> m_down w3 = []"
    using a(2) by (cases b) (auto simp: mem_defs m_commit_def split: option.splits prod.splits)
  with p n a ch_pick_fields [OF p] show ?thesis
    by (auto simp: ch_Send_def Let_def)
qed

lemma coll_Send_up:
  assumes "clients s \<noteq> []" and "c_down w = []" and "c_strict w = []"
  shows "\<exists>s' w'. otlp_Send mem_grpc cx td s w = Some (None, s', w') \<and> clients s' = clients s \<and> c_down w' = [] \<and> c_strict w' = []"
proof -
  obtain cl s1 where "otlp_pick s = Some (cl, s1)" "clients s1 = clients s"
    using assms(1) by (cases "1 < length (clients s)") (simp_all add: otlp_pick_def slice_at_def Let_def)
  with assms(2,3) show ?thesis
    by (simp add: otlp_Send_def mem_grpc_def c_export_def c_tick_def Let_def)
qed

lemma sample_sink_up: "conns sample_sink \<noteq> []"
  by (simp add: sample_sink_def)

lemma mem0_up: "m_down (mem0 []) = []"
  by (simp add: mem0_def)

section \<open>Rows of a batch\<close>

text \<open>The id columns stand at the same places in both schemas.\<close>

lemma appendSpan_ids:
  "appendSpan R json sp resAttrs scopeAttrs svc sname sver ! 1 = CStr (traceHex R (traceID sp))"
  "appendSpan R json sp resAttrs scopeAttrs svc sname sver ! 2 = CStr (spanHex R (spanID sp))"
  "appendSpan R json sp resAttrs scopeAttrs svc sname sver ! 3 = CStr (spanHex R (parentSpanID sp))"
  by (simp_all add: appendSpan_def appendSpanJSON_def appendSpanMap_def events_def links_def eventsJSON_def linksJSON_def)

lemma rows_of_ids:
  "map (\<lambda>r. (r ! 1, r ! 2, r ! 3)) (rows_of R json td)
     = map (\<lambda>sp. (CStr (traceHex R (traceID sp)), CStr (spanHex R (spanID sp)), CStr (spanHex R (parentSpanID sp)))) (all_spans td)"
  by (simp add: rows_of_def resource_rows_def [abs_def] scope_rows_def [abs_def] all_spans_def map_concat comp_def appendSpan_ids
      appendSpan_ids(1) [simplified])


lemma row_of_span:
  assumes "r \<in> set (rows_of R json td)"
  shows "\<exists>sp \<in> set (all_spans td). r ! 1 = CStr (traceHex R (traceID sp)) \<and> r ! 2 = CStr (spanHex R (spanID sp))
     \<and> r ! 3 = CStr (spanHex R (parentSpanID sp))"
proof -
  have "(r ! 1, r ! 2, r ! 3) \<in> set (map (\<lambda>r. (r ! 1, r ! 2, r ! 3)) (rows_of R json td))"
    using assms by auto
  then show ?thesis
    unfolding rows_of_ids by auto
qed

lemma span_has_row:
  assumes "sp \<in> set (all_spans td)"
  shows "\<exists>r \<in> set (rows_of R json td). r ! 1 = CStr (traceHex R (traceID sp)) \<and> r ! 2 = CStr (spanHex R (spanID sp))
     \<and> r ! 3 = CStr (spanHex R (parentSpanID sp))"
proof -
  have "(CStr (traceHex R (traceID sp)), CStr (spanHex R (spanID sp)), CStr (spanHex R (parentSpanID sp)))
      \<in> set (map (\<lambda>r. (r ! 1, r ! 2, r ! 3)) (rows_of R json td))"
    unfolding rows_of_ids using assms by auto
  then show ?thesis
    by force
qed


lemma batch_parent:
  assumes "gen_ok L g" and "FillBatch L g [] target = Some (n, g', td)" and "sp \<in> set (all_spans td)"
  shows "parentSpanID sp = zeroSpanID \<or> (\<exists>p \<in> set (all_spans td). traceID sp = traceID p \<and> parentSpanID sp = spanID p)"
  using batch_links [OF assms] by blast

end
