(* ===== verification/Interleave.thy ===== *)
theory Interleave
  imports Sink
begin

text \<open>
  Calls of \<open>Send\<close> that overlap in time. Every worker of the engine calls \<open>Send\<close> on the one sink, so the calls share
  its state and the world behind it. A call is a batch and a program counter; the steps of different calls
  interleave freely. The contract \<open>overlapping_calls\<close> says what a sink has to show of one step for its calls not to
  disturb each other; both sinks provide it.
\<close>

section \<open>Calls in progress\<close>

text \<open>Some calls in progress: the sink, the world, and each call's batch and program counter.\<close>

type_synonym ('s, 'w, 'p) overlap = "'s \<times> 'w \<times> (Traces \<times> 'p) list"

text \<open>\<open>stp\<close> is the next step of a call; \<^term>\<open>None\<close>: it has returned, or it panics.\<close>

type_synonym ('s, 'w, 'p) stepper = "Traces \<Rightarrow> 'p \<Rightarrow> 's \<Rightarrow> 'w \<Rightarrow> ('p \<times> 's \<times> 'w) option"

inductive interleave :: "('s, 'w, 'p) stepper \<Rightarrow> ('s, 'w, 'p) overlap \<Rightarrow> ('s, 'w, 'p) overlap \<Rightarrow> bool" for stp where
  call: "i < length cs \<Longrightarrow> cs ! i = (td, pc) \<Longrightarrow> stp td pc s w = Some (pc', s', w') \<Longrightarrow>
    interleave stp (s, w, cs) (s', w', cs[i := (td, pc')])"

abbreviation interleaved :: "('s, 'w, 'p) stepper \<Rightarrow> ('s, 'w, 'p) overlap \<Rightarrow> ('s, 'w, 'p) overlap \<Rightarrow> bool" where
  "interleaved stp \<equiv> (interleave stp)\<^sup>*\<^sup>*"

definition calls_of :: "'p \<Rightarrow> Traces list \<Rightarrow> (Traces \<times> 'p) list" where
  "calls_of p tds = map (\<lambda>td. (td, p)) tds"

text \<open>A schedule names the call that takes the next step.\<close>

fun run_schedule :: "('s, 'w, 'p) stepper \<Rightarrow> nat list \<Rightarrow> ('s, 'w, 'p) overlap \<Rightarrow> ('s, 'w, 'p) overlap option" where
  "run_schedule stp [] x = Some x"
| "run_schedule stp (i # is) (s, w, cs) =
     (if i < length cs then
        (case cs ! i of (td, pc) \<Rightarrow>
           (case stp td pc s w of
              None \<Rightarrow> None
            | Some (pc', s', w') \<Rightarrow> run_schedule stp is (s', w', cs[i := (td, pc')])))
      else None)"

lemma run_schedule_steps: "run_schedule stp is x = Some y \<Longrightarrow> interleaved stp x y"
proof (induction "is" arbitrary: x)
  case (Cons i "is")
  obtain s w cs where x: "x = (s, w, cs)"
    using prod_cases3 by blast
  obtain td pc where c: "cs ! i = (td, pc)"
    by fastforce
  from Cons.prems x c obtain pc' s' w' where r: "i < length cs" "stp td pc s w = Some (pc', s', w')"
    "run_schedule stp is (s', w', cs[i := (td, pc')]) = Some y"
    by (auto split: if_splits option.splits)
  have "interleave stp x (s', w', cs[i := (td, pc')])"
    unfolding x using r(1) c r(2) by (rule interleave.call)
  then show ?case
    using Cons.IH [OF r(3)] by (rule converse_rtranclp_into_rtranclp)
qed simp

lemma alone: "stp td pc s w = Some (pc', s', w') \<Longrightarrow> interleave stp (s, w, [(td, pc)]) (s', w', [(td, pc')])"
  using interleave.call [of 0 "[(td, pc)]"] by fastforce

lemma alone_cases:
  assumes "interleave stp y (s', w', [(td, p')])"
  obtains s w p where "y = (s, w, [(td, p)])" and "stp td p s w = Some (p', s', w')"
  using assms
proof cases
  case (call i cs td1 pc s w pc')
  have "length cs = 1"
    using call(2) by (metis length_list_update length_Cons list.size(3) One_nat_def)
  then obtain x where "cs = [x]"
    by (auto simp: length_Suc_conv)
  with call that show thesis
    by simp
qed

text \<open>The batches of the calls stay the same, and so does what no step of the sink changes.\<close>

lemma interleaved_same:
  assumes "interleaved stp (s, w, cs) (s', w', cs')"
    and "\<And>td pc s w pc' s' w'. stp td pc s w = Some (pc', s', w') \<Longrightarrow> f s' w' = f s w"
  shows "f s' w' = f s w \<and> map fst cs' = map fst cs"
  using assms(1)
proof (induction rule: rtranclp_induct [where r = "interleave stp", split_format (complete), consumes 1, case_names base step])
  case (step s1 w1 cs1 s2 w2 cs2)
  from step(2) show ?case
  proof cases
    case (call i td pc pc')
    have "map fst (cs1[i := (td, pc')]) = map fst cs1"
      using call(2,3) by (simp add: map_update list_update_same_conv)
    with call(1) assms(2) [OF call(4)] step.IH show ?thesis
      by simp
  qed
qed simp

lemma sum_list_map_exchange:
  fixes f :: "'a \<Rightarrow> 'b::comm_monoid_add"
  shows "i < length xs \<Longrightarrow> sum_list (map f (xs[i := x])) + f (xs ! i) = sum_list (map f xs) + f x"
proof (induction xs arbitrary: i)
  case (Cons y ys)
  then show ?case
    by (cases i) (simp_all add: ac_simps)
qed simp

section \<open>The contract of a step\<close>

text \<open>
  What a call has contributed: nothing while it is in progress, its items if it returned nil, some of them if
  it failed.
\<close>

definition contributes :: "'a multiset \<Rightarrow> error option \<Rightarrow> 'a multiset \<Rightarrow> bool" where
  "contributes its r t \<longleftrightarrow> (case r of
     None \<Rightarrow> t = {#}
   | Some None \<Rightarrow> t = its
   | Some (Some e) \<Rightarrow> set_mset t \<subseteq> set_mset its)"

text \<open>
  \<open>result\<close>: how a call has ended; \<open>ok\<close>: what holds of a call in progress; \<open>apart\<close>: two calls use different
  objects; \<open>items\<close>: what a batch consists of.
\<close>

locale overlapping_calls =
  fixes stp :: "('s, 'w, 'p) stepper" and init :: 'p and result :: "'p \<Rightarrow> error option"
    and ok :: "'s \<Rightarrow> 'w \<Rightarrow> Traces \<times> 'p \<Rightarrow> bool" and apart :: "'p \<Rightarrow> 'p \<Rightarrow> bool"
    and received :: "'w \<Rightarrow> 'a multiset" and items :: "'s \<Rightarrow> Traces \<Rightarrow> 'a multiset"
  assumes init: "result init = None" "ok s w (td, init)" "apart init q"
    and apart_sym: "apart p q \<Longrightarrow> apart q p"
    and stop: "stp td pc s w = Some (pc', s', w') \<Longrightarrow> result pc = None"
    and same: "stp td pc s w = Some (pc', s', w') \<Longrightarrow> items s' = items s \<and> ok s' = ok s"
    and own: "stp td pc s w = Some (pc', s', w') \<Longrightarrow> ok s w (td, pc) \<Longrightarrow>
      ok s w' (td, pc') \<and> (\<exists>t. received w' = received w + t \<and> contributes (items s td) (result pc') t)"
    and other: "stp td pc s w = Some (pc', s', w') \<Longrightarrow> ok s w (td', p) \<Longrightarrow> apart pc p \<Longrightarrow> ok s w' (td', p) \<and> apart pc' p"
    and items_size: "size (items s td) = total_spans td"
begin

text \<open>The invariant: what was received is the base \<open>B\<close> and what the calls in progress have contributed.\<close>

definition overlap_inv :: "'s \<Rightarrow> 'a multiset \<Rightarrow> ('s, 'w, 'p) overlap \<Rightarrow> bool" where
  "overlap_inv s0 B x \<longleftrightarrow> (case x of (s, w, cs) \<Rightarrow>
     items s = items s0 \<and> ok s = ok s0
     \<and> (\<forall>i < length cs. ok s0 w (cs ! i))
     \<and> (\<forall>i < length cs. \<forall>j < length cs. i \<noteq> j \<longrightarrow> apart (snd (cs ! i)) (snd (cs ! j)))
     \<and> (\<exists>ex. received w = B + (\<Sum>i < length cs. ex i)
          \<and> (\<forall>i < length cs. contributes (items s0 (fst (cs ! i))) (result (snd (cs ! i))) (ex i))))"

lemma overlap_fresh:
  assumes "\<And>x. x \<in> set cs \<Longrightarrow> snd x = init"
  shows "overlap_inv s (received w) (s, w, cs)"
proof -
  have "cs ! i = (fst (cs ! i), init)" "snd (cs ! i) = init" if "i < length cs" for i
    using assms [OF nth_mem [OF that]] by (simp_all add: prod_eq_iff)
  then have "ok s w (cs ! i)" "snd (cs ! i) = init" if "i < length cs" for i
    using init(2) [of s w "fst (cs ! i)"] that by simp_all
  then show ?thesis
    using init(1,3) by (auto simp: overlap_inv_def contributes_def intro!: exI [of _ "\<lambda>i. {#}"])
qed

lemma contributed_one:
  fixes n :: nat
  assumes "\<forall>i < n. contributes (its i) (r i) (ex i)" and "j < n" and "r j = None"
  shows "(\<Sum>i < n. (ex(j := t)) i) = (\<Sum>i < n. ex i) + t"
proof -
  have "ex j = {#}"
    using assms by (auto simp: contributes_def)
  have "(\<Sum>i < n. (ex(j := t)) i) = t + (\<Sum>i \<in> {..<n} - {j}. (ex(j := t)) i)"
    using assms(2) by (subst sum.remove [of _ j]) auto
  also have "\<dots> = t + (\<Sum>i \<in> {..<n} - {j}. ex i)"
    by (intro arg_cong2 [where f = plus] sum.cong) auto
  also have "\<dots> = t + (\<Sum>i < n. ex i)"
    using assms(2) \<open>ex j = {#}\<close> by (subst sum.remove [of "{..<n}" j]) auto
  finally show ?thesis
    by (simp add: add.commute)
qed

lemma overlap_step:
  assumes "interleave stp x y" and "overlap_inv s0 B x"
  shows "overlap_inv s0 B y"
  using assms(1)
proof cases
  case (call j cs td pc s w pc' s' w')
  obtain ex where eq: "items s = items s0" "ok s = ok s0"
    and oks: "\<And>i. i < length cs \<Longrightarrow> ok s0 w (cs ! i)"
    and ap: "\<And>i k. i < length cs \<Longrightarrow> k < length cs \<Longrightarrow> i \<noteq> k \<Longrightarrow> apart (snd (cs ! i)) (snd (cs ! k))"
    and ex: "received w = B + (\<Sum>i < length cs. ex i)"
      "\<forall>i < length cs. contributes (items s0 (fst (cs ! i))) (result (snd (cs ! i))) (ex i)"
    using assms(2) call(1) by (auto simp: overlap_inv_def)
  obtain t where t: "received w' = received w + t" "contributes (items s0 td) (result pc') t" "ok s0 w' (td, pc')"
    using own [OF call(5)] oks [OF call(3)] by (auto simp: call(4) eq)
  have others: "ok s0 w' (cs ! i) \<and> apart pc' (snd (cs ! i))" if "i < length cs" "i \<noteq> j" for i
    using other [OF call(5), of "fst (cs ! i)" "snd (cs ! i)"] oks [OF that(1)] ap [OF call(3) that(1)] that(2)
    by (simp add: eq call(4))
  have "result (snd (cs ! j)) = None"
    using stop [OF call(5)] call(4) by simp
  from contributed_one [OF ex(2) call(3) this, of t]
  have "received w' = B + (\<Sum>i < length cs. (ex(j := t)) i)"
    by (simp add: t(1) ex(1) add.assoc)
  moreover have "items s' = items s0" "ok s' = ok s0"
    using same [OF call(5)] eq by simp_all
  ultimately show ?thesis
    using call(3,4) t others oks ap ex(2) apart_sym
    by (auto simp: overlap_inv_def call(2) nth_list_update intro!: exI [of _ "ex(j := t)"])
qed

text \<open>A call that has not begun may take another batch.\<close>

lemma overlap_renew:
  assumes "overlap_inv s0 B (s, w, cs)" and "length cs' = length cs"
    and "\<And>i. i < length cs \<Longrightarrow> cs' ! i = cs ! i \<or> snd (cs ! i) = init \<and> snd (cs' ! i) = init"
  shows "overlap_inv s0 B (s, w, cs')"
proof -
  have same: "snd (cs' ! i) = snd (cs ! i)" if "i < length cs" for i
    using assms(3) [OF that] by auto
  obtain ex where ex: "received w = B + (\<Sum>i < length cs. ex i)"
      "\<forall>i < length cs. contributes (items s0 (fst (cs ! i))) (result (snd (cs ! i))) (ex i)"
    using assms(1) by (auto simp: overlap_inv_def)
  have "contributes (items s0 (fst (cs' ! i))) (result (snd (cs' ! i))) (ex i)" if i: "i < length cs" for i
    using assms(3) [OF i]
  proof
    assume "snd (cs ! i) = init \<and> snd (cs' ! i) = init"
    with ex(2) i init(1) show ?thesis
      by (auto simp: contributes_def)
  qed (use ex(2) i in simp)
  moreover have "ok s0 w (cs' ! i)" if i: "i < length cs" for i
    using assms(1,3) i init(2) [of s0 w "fst (cs' ! i)"] by (auto simp: overlap_inv_def) (metis prod.collapse)
  ultimately show ?thesis
    using assms(1) ex(1) same by (auto simp: overlap_inv_def assms(2))
qed

text \<open>A call that has ended makes room for the next one; its contribution joins the base.\<close>

lemma overlap_return:
  assumes "overlap_inv s0 B (s, w, cs)" and "i < length cs" and "result (snd (cs ! i)) = Some r"
  shows "\<exists>t. contributes (items s0 (fst (cs ! i))) (Some r) t \<and> overlap_inv s0 (B + t) (s, w, cs[i := (td, init)])"
proof -
  obtain ex where ex: "received w = B + (\<Sum>i < length cs. ex i)"
      "\<forall>i < length cs. contributes (items s0 (fst (cs ! i))) (result (snd (cs ! i))) (ex i)"
    using assms(1) by (auto simp: overlap_inv_def)
  have "(\<Sum>j < length cs. ex j) = ex i + (\<Sum>j \<in> {..<length cs} - {i}. ex j)"
    using assms(2) by (subst sum.remove [of _ i]) auto
  also have "(\<Sum>j \<in> {..<length cs} - {i}. ex j) = (\<Sum>j \<in> {..<length cs} - {i}. (ex(i := {#})) j)"
    by (intro sum.cong) auto
  also have "\<dots> = (\<Sum>j < length cs. (ex(i := {#})) j)"
    using assms(2) by (subst sum.remove [of "{..<length cs}" i]) auto
  finally have "received w = B + ex i + (\<Sum>j < length cs. (ex(i := {#})) j)"
    using ex(1) by (simp add: add.assoc)
  moreover have "contributes (items s0 td) None {#}"
    by (simp add: contributes_def)
  moreover have "contributes (items s0 (fst (cs ! i))) (Some r) (ex i)"
    using ex(2) assms(2,3) by metis
  ultimately show ?thesis
    using assms(1,2) ex(2) init apart_sym
    by (intro exI [of _ "ex i"])
      (auto simp: overlap_inv_def nth_list_update intro!: exI [of _ "ex(i := {#})"])
qed

lemma overlap_end: "overlap_inv s0 B (s, w, cs) \<Longrightarrow> (\<And>x. x \<in> set cs \<Longrightarrow> result (snd x) = None) \<Longrightarrow> received w = B"
  by (auto simp: overlap_inv_def contributes_def)

lemma overlap_base: "overlap_inv s0 B (s, w, cs) \<Longrightarrow> B \<subseteq># received w"
  by (auto simp: overlap_inv_def)

lemma overlap_holds: "interleaved stp (s, w, calls_of init tds) x \<Longrightarrow> overlap_inv s (received w) x"
  by (induction rule: rtranclp_induct) (auto simp: calls_of_def intro: overlap_fresh overlap_step)

lemma overlap_received:
  assumes "interleaved stp (s, w, calls_of init tds) (s', w', cs)"
  shows "\<exists>ex. received w' = received w + (\<Sum>i < length tds. ex i)
     \<and> (\<forall>i < length tds. contributes (items s (tds ! i)) (result (snd (cs ! i))) (ex i))"
proof -
  have "map fst cs = tds"
    using interleaved_same [OF assms, where f = "\<lambda>s w. ()"] by (simp add: calls_of_def comp_def)
  then have "length cs = length tds" "\<And>i. i < length tds \<Longrightarrow> fst (cs ! i) = tds ! i"
    by (metis length_map, metis length_map nth_map)
  moreover obtain ex where "received w' = received w + (\<Sum>i < length cs. ex i)"
    "\<forall>i < length cs. contributes (items s (fst (cs ! i))) (result (snd (cs ! i))) (ex i)"
    using overlap_holds [OF assms] by (auto simp: overlap_inv_def)
  ultimately show ?thesis
    by (intro exI [of _ ex]) auto
qed

end

section \<open>Rotation under any interleaving\<close>

lemma picks_snoc:
  "picks pk n s = Some (cs, s1) \<Longrightarrow> pk s1 = Some (c, s2) \<Longrightarrow> picks pk (Suc n) s = Some (cs @ [c], s2)"
proof (induction n arbitrary: s cs)
  case (Suc n)
  then obtain c0 s0 cs0 where "pk s = Some (c0, s0)" "picks pk n s0 = Some (cs0, s1)" "cs = c0 # cs0"
    by (auto split: option.splits)
  with Suc show ?case
    by simp
qed simp

text \<open>
  A sink whose calls pick their target in one step and leave the rotation alone in all others;
  \<open>target_of\<close> is the target of a call, once it has one.
\<close>

locale overlapping_picks = round_robin pk targets cursor
  for pk :: "'s \<Rightarrow> ('c \<times> 's) option" and targets :: "'s \<Rightarrow> 'c list" and cursor :: "'s \<Rightarrow> u64" +
  fixes stp :: "('s, 'w, 'p) stepper" and init :: 'p and target_of :: "'p \<Rightarrow> 'c option"
  assumes init_target: "target_of init = None"
    and picking: "stp td pc s w = Some (pc', s', w') \<Longrightarrow>
      (\<exists>c. target_of pc = None \<and> target_of pc' = Some c \<and> pk s = Some (c, s')) \<or> target_of pc' = target_of pc \<and> s' = s"
begin

definition taken :: "(Traces \<times> 'p) list \<Rightarrow> 'c multiset" where
  "taken cs = sum_list (map (\<lambda>x. case target_of (snd x) of Some c \<Rightarrow> {#c#} | None \<Rightarrow> {#}) cs)"

definition rotation_inv :: "'s \<Rightarrow> ('s, 'w, 'p) overlap \<Rightarrow> bool" where
  "rotation_inv s0 x \<longleftrightarrow> (case x of (s, w, cs) \<Rightarrow> \<exists>ps. picks pk (length ps) s0 = Some (ps, s) \<and> mset ps = taken cs)"

lemma rotation_step:
  assumes "interleave stp x y" and "rotation_inv s0 x"
  shows "rotation_inv s0 y"
  using assms(1)
proof cases
  case (call i cs td pc s w pc' s' w')
  obtain ps where ps: "picks pk (length ps) s0 = Some (ps, s)" "mset ps = taken cs"
    using assms(2) call(1) by (auto simp: rotation_inv_def)
  let ?f = "\<lambda>x :: Traces \<times> 'p. case target_of (snd x) of Some c \<Rightarrow> {#c#} | None \<Rightarrow> {#}"
  note exchange = sum_list_map_exchange [OF call(3), of ?f "(td, pc')"]
  from picking [OF call(5)] show ?thesis
  proof (elim disjE exE conjE)
    fix c
    assume c: "target_of pc = None" "target_of pc' = Some c" "pk s = Some (c, s')"
    have "taken (cs[i := (td, pc')]) = add_mset c (taken cs)"
      using exchange c(1,2) call(4) by (simp add: taken_def)
    with picks_snoc [OF ps(1) c(3)] ps(2) show ?thesis
      unfolding rotation_inv_def call(2) by (intro case_prodI exI [of _ "ps @ [c]"]) simp
  next
    assume same: "target_of pc' = target_of pc" "s' = s"
    then have "taken (cs[i := (td, pc')]) = taken cs"
      using exchange call(4) by (simp add: taken_def)
    with ps same(2) show ?thesis
      by (auto simp: rotation_inv_def call(2))
  qed
qed

lemma rotation_start: "rotation_inv s (s, w, calls_of init tds)"
  by (auto simp: rotation_inv_def taken_def calls_of_def comp_def init_target sum_list_replicate intro!: exI [of _ "[]"])

lemma rotation_holds: "interleaved stp (s, w, calls_of init tds) x \<Longrightarrow> rotation_inv s x"
  by (induction rule: rtranclp_induct) (simp_all add: rotation_start rotation_step)

text \<open>As many calls as there are targets, all of which have one, use every target once.\<close>

lemma overlapping_fair:
  assumes "targets s \<noteq> []" and "unat (cursor s) + length (targets s) < 2 ^ 64"
    and "interleaved stp (s, w, calls_of init tds) (s', w', cs)" and "length tds = length (targets s)"
    and "list_all (\<lambda>x. target_of (snd x) \<noteq> None) cs"
  shows "mset (map (target_of \<circ> snd) cs) = mset (map Some (targets s))"
proof -
  obtain ps where ps: "picks pk (length ps) s = Some (ps, s')" "mset ps = taken cs"
    using rotation_holds [OF assms(3)] by (auto simp: rotation_inv_def)
  have taken: "image_mset Some (taken xs) = mset (map (target_of \<circ> snd) xs)"
    if "list_all (\<lambda>x. target_of (snd x) \<noteq> None) xs" for xs
    using that by (induction xs) (auto simp: taken_def)
  have "length cs = length (targets s)"
    using interleaved_same [OF assms(3), where f = "\<lambda>s w. ()"] assms(4) by (metis calls_of_def length_map)
  with taken [OF assms(5)] have "size (taken cs) = length (targets s)"
    by (metis length_map size_image_mset size_mset)
  with ps(2) have "length ps = length (targets s)"
    by (metis size_mset)
  with ps(1) fair [OF assms(1,2)] have "mset ps = mset (targets s)"
    by auto
  then show ?thesis
    using taken [OF assms(5)] ps(2) by (metis mset_map)
qed

end

end
