(* ===== verification/ChConcurrent.thy ===== *)
theory ChConcurrent
  imports ChLaws Interleave
begin

text \<open>
  Calls of \<open>chSink.Send\<close> that overlap in time: they share the counter, the connections and the server. A step is
  one call of \<open>pick\<close>, \<open>chConn\<close> or \<open>chBatch\<close>.
\<close>

section \<open>One call, step by step\<close>

datatype send_pc =
    PStart
  | PPicked chConn
  | PFill chConn chBatch "cell list list"
  | PAbort chConn chBatch string
  | PDone chConn error

text \<open>
  The next step of a call with the batch \<open>td\<close>; \<open>PFill\<close> holds the rows that are still to be appended. \<^term>\<open>None\<close>: the
  call has returned, or \<open>pick\<close> panics.
\<close>

fun call_step :: "'w drivers \<Rightarrow> readers \<Rightarrow> ctx \<Rightarrow> Traces \<Rightarrow> send_pc \<Rightarrow> chSink \<Rightarrow> 'w \<Rightarrow> (send_pc \<times> chSink \<times> 'w) option" where
  "call_step D R cx td PStart s w = map_option (\<lambda>(c, s1). (PPicked c, s1, w)) (ch_pick s)"
| "call_step D R cx td (PPicked c) s w =
     Some (case newBatch D c (WithTimeout cx (sendTO s)) (insertSQL s) w of
       (Inl err, w1) \<Rightarrow> (PDone c (Some (''prepare batch: '' @ err)), s, w1)
     | (Inr b, w1) \<Rightarrow> (PFill c b (rows_of R (jsonAttrs s) td), s, w1))"
| "call_step D R cx td (PFill c b (r # rs)) s w =
     Some (case batch_Append D b r w of
       (Some err, w1) \<Rightarrow> (PAbort c b err, s, w1)
     | (None, w1) \<Rightarrow> (PFill c b rs, s, w1))"
| "call_step D R cx td (PFill c b []) s w =
     Some (case batch_Send D b w of
       (Some err, w1) \<Rightarrow> (PDone c (Some (''send batch: '' @ err)), s, w1)
     | (None, w1) \<Rightarrow> (PDone c None, s, w1))"
| "call_step D R cx td (PAbort c b err) s w = Some (PDone c (Some (''append: '' @ err)), s, snd (batch_Abort D b w))"
| "call_step D R cx td (PDone c r) s w = None"

abbreviation overlapping :: "'w drivers \<Rightarrow> readers \<Rightarrow> ctx \<Rightarrow> (chSink, 'w, send_pc) overlap \<Rightarrow> (chSink, 'w, send_pc) overlap \<Rightarrow> bool" where
  "overlapping D R cx \<equiv> interleaved (call_step D R cx)"

section \<open>A call that runs alone is \<open>Send\<close>\<close>

lemma alone_fill:
  "append_rows (batch_Append D) b rs w = (r, w1) \<Longrightarrow>
     overlapping D R cx (s, w, [(td, PFill c b rs)])
       (s, w1, [(td, case r of Some err \<Rightarrow> PAbort c b err | None \<Rightarrow> PFill c b [])])"
proof (induction rs arbitrary: w)
  case (Cons row rs)
  obtain x w0 where x: "batch_Append D b row w = (x, w0)"
    by fastforce
  have "interleave (call_step D R cx) (s, w, [(td, PFill c b (row # rs))])
      (s, w0, [(td, case x of Some err \<Rightarrow> PAbort c b err | None \<Rightarrow> PFill c b rs)])"
    by (rule alone) (simp add: x split: option.split)
  with Cons x show ?case
    by (cases x) (auto intro: converse_rtranclp_into_rtranclp)
qed simp

lemma Send_alone:
  assumes "ch_Send D R cx td s w = Some (r, s', w')"
  shows "\<exists>c. overlapping D R cx (s, w, [(td, PStart)]) (s', w', [(td, PDone c r)])"
proof -
  obtain c s1 where p: "ch_pick s = Some (c, s1)"
    using assms by (auto simp: ch_Send_def Let_def split: option.splits)
  have f: "insertSQL s1 = insertSQL s" "jsonAttrs s1 = jsonAttrs s" "sendTO s1 = sendTO s"
    using ch_pick_fields [OF p] by simp_all
  obtain nb w1 where n: "newBatch D c (WithTimeout cx (sendTO s)) (insertSQL s1) w = (nb, w1)"
    by fastforce
  have 1: "interleave (call_step D R cx) (s, w, [(td, PStart)]) (s1, w, [(td, PPicked c)])"
    by (rule alone) (simp add: p)
  have 2: "interleave (call_step D R cx) (s1, w, [(td, PPicked c)]) (s1, w1, [(td, case nb of
      Inl err \<Rightarrow> PDone c (Some (''prepare batch: '' @ err)) | Inr b \<Rightarrow> PFill c b (rows_of R (jsonAttrs s1) td))])"
    by (rule alone) (use n f in \<open>simp split: sum.split\<close>)
  show ?thesis
  proof (cases nb)
    case (Inl err)
    with assms p n 1 2 show ?thesis
      by (auto simp: ch_Send_def Let_def intro!: exI [of _ c])
  next
    case (Inr b)
    obtain x w2 where a: "append_rows (batch_Append D) b (rows_of R (jsonAttrs s1) td) w1 = (x, w2)"
      by fastforce
    note 3 = alone_fill [OF a, of R cx s1 td c]
    have "interleave (call_step D R cx) (s1, w2, [(td, case x of Some err \<Rightarrow> PAbort c b err | None \<Rightarrow> PFill c b [])]) (s', w', [(td, PDone c r)])"
      by (rule alone) (use assms p n Inr a in \<open>auto simp: ch_Send_def append_resources_rows Let_def split: option.splits prod.splits\<close>)
    with 1 2 3 Inr have "overlapping D R cx (s, w, [(td, PStart)]) (s', w', [(td, PDone c r)])"
      by (auto intro: converse_rtranclp_into_rtranclp rtranclp.rtrancl_into_rtrancl)
    then show ?thesis ..
  qed
qed

section \<open>Isolation\<close>

text \<open>The objects of a batch in the client libraries.\<close>

fun objects :: "chBatch \<Rightarrow> handle set" where
  "objects (nativeBatch b) = {b}"
| "objects (httpBatch cx tx st) = {tx, st}"

text \<open>
  Batches do not disturb each other: a call on one object leaves the open batches without that object as they
  are, new objects are not part of an open batch, and a batch stays open when an \<open>Append\<close> on it fails.
\<close>

locale isolated = both_drivers D tab npend tpend for D :: "'w drivers" and tab npend tpend +
  assumes prepare_frame: "PrepareBatch D c cx q w = (r, w') \<Longrightarrow> pend w b = Some x \<Longrightarrow>
      pend w' b = Some x \<and> (\<forall>h. r = Inr h \<longrightarrow> h \<notin> objects b)"
    and nappend_frame: "batchAppend D h row w = (er, w') \<Longrightarrow> pend w b = Some x \<Longrightarrow> h \<notin> objects b \<Longrightarrow> pend w' b = Some x"
    and nappend_open: "batchAppend D h row w = (Some e, w') \<Longrightarrow> npend w h \<noteq> None \<Longrightarrow> npend w' h \<noteq> None"
    and nsend_frame: "batchSend D h w = (er, w') \<Longrightarrow> pend w b = Some x \<Longrightarrow> h \<notin> objects b \<Longrightarrow> pend w' b = Some x"
    and nabort_frame: "pend w b = Some x \<Longrightarrow> h \<notin> objects b \<Longrightarrow> pend (snd (batchAbort D h w)) b = Some x"
    and begin_frame: "BeginTx D db cx w = (r, w') \<Longrightarrow> pend w b = Some x \<Longrightarrow>
      pend w' b = Some x \<and> (\<forall>h. r = Inr h \<longrightarrow> h \<notin> objects b)"
    and stmt_frame: "PrepareContext D tx cx q w = (r, w') \<Longrightarrow> pend w b = Some x \<Longrightarrow> tx \<notin> objects b \<Longrightarrow>
      pend w' b = Some x \<and> (\<forall>h. r = Inr h \<longrightarrow> h \<notin> objects b)"
    and exec_frame: "ExecContext D st cx row w = (er, w') \<Longrightarrow> pend w b = Some x \<Longrightarrow> st \<notin> objects b \<Longrightarrow> pend w' b = Some x"
    and exec_open: "ExecContext D st cx row w = (Some e, w') \<Longrightarrow> tpend w tx st \<noteq> None \<Longrightarrow> tpend w' tx st \<noteq> None"
    and commit_frame: "Commit D tx w = (er, w') \<Longrightarrow> pend w b = Some x \<Longrightarrow> tx \<notin> objects b \<Longrightarrow> pend w' b = Some x"
    and rollback_frame: "pend w b = Some x \<Longrightarrow> tx \<notin> objects b \<Longrightarrow> pend (snd (Rollback D tx w)) b = Some x"
    and stmtClose_frame: "pend w b = Some x \<Longrightarrow> st \<notin> objects b \<Longrightarrow> pend (snd (stmtClose D st w)) b = Some x"
begin

text \<open>The same for the interface of the sink.\<close>

lemma newBatch_frame:
  "newBatch D c cx q w = (r, w') \<Longrightarrow> pend w b = Some x \<Longrightarrow>
     pend w' b = Some x \<and> (\<forall>b'. r = Inr b' \<longrightarrow> objects b' \<inter> objects b = {})"
  by (cases c)
    (auto split: prod.splits sum.splits simp: rollback_frame dest!: prepare_frame stmt_frame begin_frame)

lemma Append_frame:
  "batch_Append D b' row w = (r, w') \<Longrightarrow> pend w b = Some x \<Longrightarrow> objects b' \<inter> objects b = {} \<Longrightarrow> pend w' b = Some x"
  by (cases b') (auto dest: nappend_frame exec_frame)

lemma Append_open: "batch_Append D b row w = (Some e, w') \<Longrightarrow> pend w b \<noteq> None \<Longrightarrow> pend w' b \<noteq> None"
  using nappend_open exec_open by (cases b) fastforce+

lemma Send_frame:
  "batch_Send D b' w = (r, w') \<Longrightarrow> pend w b = Some x \<Longrightarrow> objects b' \<inter> objects b = {} \<Longrightarrow> pend w' b = Some x"
  by (cases b') (auto split: prod.splits simp: stmtClose_frame dest: nsend_frame commit_frame)

lemma Abort_frame:
  "pend w b = Some x \<Longrightarrow> objects b' \<inter> objects b = {} \<Longrightarrow> pend (snd (batch_Abort D b' w)) b = Some x"
  by (cases b') (auto split: prod.splits simp: nabort_frame stmtClose_frame rollback_frame case_prod_beta)

end

section \<open>Overlapping calls\<close>

fun open_batches :: "send_pc \<Rightarrow> chBatch set" where
  "open_batches (PFill c b rs) = {b}"
| "open_batches (PAbort c b err) = {b}"
| "open_batches _ = {}"

definition apart :: "send_pc \<Rightarrow> send_pc \<Rightarrow> bool" where
  "apart p p' \<longleftrightarrow> (\<forall>b \<in> open_batches p. \<forall>b' \<in> open_batches p'. objects b \<inter> objects b' = {})"

lemma length_batch_rows: "length (batch_rows R s td) = total_spans td"
  by (simp add: batch_rows_def length_rows_of)

lemma apart_start: "apart PStart p"
  by (simp add: apart_def)

lemma apart_sym: "apart p q \<Longrightarrow> apart q p"
  by (auto simp: apart_def)

fun ch_result :: "send_pc \<Rightarrow> error option" where
  "ch_result (PDone c r) = Some r"
| "ch_result _ = None"

lemma call_sink:
  "call_step D R cx td pc s w = Some (pc', s', w') \<Longrightarrow> insertSQL s' = insertSQL s \<and> jsonAttrs s' = jsonAttrs s \<and> conns s' = conns s"
  by (cases "(D, R, cx, td, pc, s, w)" rule: call_step.cases)
    (auto dest: ch_pick_fields split: prod.splits sum.splits option.splits)

context isolated
begin

text \<open>The rows that an open batch holds and those still to be appended are the rows of the call.\<close>

definition call_ok :: "readers \<Rightarrow> chSink \<Rightarrow> 'w \<Rightarrow> Traces \<times> send_pc \<Rightarrow> bool" where
  "call_ok R s w x \<longleftrightarrow> (case x of (td, pc) \<Rightarrow> (case pc of
     PFill c b rs \<Rightarrow> \<exists>rs0. rs0 @ rs = rows_of R (jsonAttrs s) td \<and> pend w b = Some (insertSQL s, rs0)
   | PAbort c b e \<Rightarrow> pend w b \<noteq> None
   | _ \<Rightarrow> True))"

lemma call_ok_start: "call_ok R s w (td, PStart)"
  by (simp add: call_ok_def)

lemma call_own:
  assumes "call_step D R cx td pc s w = Some (pc', s', w')" and "call_ok R s w (td, pc)"
  shows "call_ok R s w' (td, pc')
    \<and> (\<exists>t. mset (tab w') = mset (tab w) + t \<and> contributes (mset (batch_rows R s td)) (ch_result pc') t)"
proof (cases pc)
  case PStart
  with assms show ?thesis
    by (auto simp: call_ok_def contributes_def)
next
  case (PPicked c)
  with assms newBatch_ok [of c "WithTimeout cx (sendTO s)" "insertSQL s" w] newBatch_error [of c "WithTimeout cx (sendTO s)" "insertSQL s" w]
  show ?thesis
    by (auto simp: call_ok_def contributes_def split: prod.splits sum.splits)
next
  case (PFill c b rs)
  then obtain rs0 where rs0: "rs0 @ rs = rows_of R (jsonAttrs s) td" "pend w b = Some (insertSQL s, rs0)"
    using assms(2) by (auto simp: call_ok_def)
  show ?thesis
  proof (cases rs)
    case Nil
    with rs0 PFill assms(1) Send_ok [OF rs0(2)] Send_error [OF rs0(2)] show ?thesis
      by (fastforce simp: call_ok_def contributes_def batch_rows_def split: prod.splits option.splits)
  next
    case (Cons r rs')
    with rs0 PFill assms(1) Append_ok [OF rs0(2), of r] Append_error [of b r w] Append_open [of b r w] show ?thesis
      by (auto simp: call_ok_def contributes_def split: prod.splits option.splits)
  qed
next
  case (PAbort c b e)
  with assms Abort_tab [of b w] show ?thesis
    by (auto simp: call_ok_def contributes_def)
next
  case (PDone c r)
  with assms show ?thesis
    by simp
qed

lemma call_other:
  assumes "call_step D R cx td pc s w = Some (pc', s', w')" and "call_ok R s w (td', p)" and "apart pc p"
  shows "call_ok R s w' (td', p) \<and> apart pc' p"
proof -
  have frame: "pend w' b = Some x \<and> (\<forall>b' \<in> open_batches pc'. objects b' \<inter> objects b = {})"
    if "b \<in> open_batches p" "pend w b = Some x" for b x
  proof -
    have disj: "objects b' \<inter> objects b = {}" if "b' \<in> open_batches pc" for b'
      using assms(3) that \<open>b \<in> open_batches p\<close> by (auto simp: apart_def)
    show ?thesis
    proof (cases pc)
      case PStart
      with assms(1) that show ?thesis by auto
    next
      case (PPicked c)
      with assms(1) show ?thesis
        by (auto split: prod.splits sum.splits dest!: newBatch_frame [OF _ that(2)])
    next
      case (PFill c b' rs)
      with disj have "objects b' \<inter> objects b = {}" by simp
      with PFill assms(1) Append_frame [OF _ that(2)] Send_frame [OF _ that(2)] show ?thesis
        by (cases rs) (auto split: prod.splits option.splits)
    next
      case (PAbort c b' e)
      with assms(1) disj Abort_frame [OF that(2)] show ?thesis
        by auto
    next
      case (PDone c r)
      with assms(1) show ?thesis by simp
    qed
  qed
  with assms(2) show ?thesis
    by (cases p) (fastforce simp: call_ok_def apart_def disjoint_iff)+
qed

end

section \<open>The steps of a call\<close>

text \<open>A bound on the steps that a call still takes.\<close>

fun steps_left :: "Traces \<times> send_pc \<Rightarrow> nat" where
  "steps_left (td, PStart) = total_spans td + 3"
| "steps_left (td, PPicked c) = total_spans td + 2"
| "steps_left (td, PFill c b rs) = length rs + 1"
| "steps_left (td, PAbort c b e) = 1"
| "steps_left (td, PDone c r) = 0"

lemma call_steps_left: "call_step D R cx td pc s w = Some (pc', s', w') \<Longrightarrow> steps_left (td, pc') < steps_left (td, pc)"
  by (cases "(D, R, cx, td, pc, s, w)" rule: call_step.cases)
    (auto simp: length_rows_of split: prod.splits sum.splits option.splits)

definition returned :: "Traces \<times> send_pc \<Rightarrow> bool" where
  "returned x \<longleftrightarrow> (case snd x of PDone c r \<Rightarrow> True | _ \<Rightarrow> False)"

lemma call_enabled: "conns s \<noteq> [] \<Longrightarrow> \<not> returned (td, pc) \<Longrightarrow> call_step D R cx td pc s w \<noteq> None"
  by (cases "(D, R, cx, td, pc, s, w)" rule: call_step.cases) (auto simp: returned_def ch_pick_def Let_def)

text \<open>The steps of the sink keep the contract.\<close>

sublocale isolated \<subseteq> ch_calls: overlapping_calls "call_step D R cx" PStart ch_result "call_ok R" apart
    "\<lambda>w. mset (tab w)" "\<lambda>s td. mset (batch_rows R s td)" for R cx
proof unfold_locales
  fix td pc s w pc' s' w'
  assume step: "call_step D R cx td pc s w = Some (pc', s', w')"
  show "ch_result pc = None"
    using step by (cases pc) simp_all
  show "(\<lambda>td. mset (batch_rows R s' td)) = (\<lambda>td. mset (batch_rows R s td)) \<and> call_ok R s' = call_ok R s"
    using call_sink [OF step] by (simp add: fun_eq_iff call_ok_def batch_rows_def cong: send_pc.case_cong)
qed (simp_all add: call_ok_start apart_start apart_sym call_own call_other length_batch_rows)

context isolated
begin

lemma ch_calls_axioms: "overlapping_calls (call_step D R cx) PStart ch_result (call_ok R) apart
    (\<lambda>w. mset (tab w)) (\<lambda>s td. mset (batch_rows R s td))"
  by (rule ch_calls.overlapping_calls_axioms)

end

section \<open>Rotation\<close>

text \<open>The connection of a call, once it has one.\<close>

fun conn_of :: "send_pc \<Rightarrow> chConn option" where
  "conn_of PStart = None"
| "conn_of (PPicked c) = Some c"
| "conn_of (PFill c b rs) = Some c"
| "conn_of (PAbort c b e) = Some c"
| "conn_of (PDone c r) = Some c"

lemma call_picks:
  assumes "call_step D R cx td pc s w = Some (pc', s', w')"
  shows "(\<exists>c. pc = PStart \<and> conn_of pc' = Some c \<and> ch_pick s = Some (c, s')) \<or> (conn_of pc' = conn_of pc \<and> s' = s)"
  using assms
  by (cases "(D, R, cx, td, pc, s, w)" rule: call_step.cases) (auto split: prod.splits sum.splits option.splits)

interpretation ch_picks: overlapping_picks ch_pick conns ch_next "call_step D R cx" PStart conn_of for D R cx
  by unfold_locales (simp, use call_picks in fastforce)

section \<open>The server in memory keeps batches apart\<close>

lemma fresh_object_unused:
  "(h, x) \<in> set (m_open w) \<Longrightarrow> h < fresh_object w" "(t, y) \<in> set (m_tx w) \<Longrightarrow> t < fresh_object w"
proof -
  have "h \<le> sum_list (map fst (m_open w))" if "(h, x) \<in> set (m_open w)"
    using that by (intro member_le_sum_list) force+
  then show "(h, x) \<in> set (m_open w) \<Longrightarrow> h < fresh_object w"
    by (simp add: fresh_object_def)
  have "t \<le> sum_list (map fst (m_tx w))" if "(t, y) \<in> set (m_tx w)"
    using that by (intro member_le_sum_list) force+
  then show "(t, y) \<in> set (m_tx w) \<Longrightarrow> t < fresh_object w"
    by (simp add: fresh_object_def)
qed

lemma mem_open_objects: "mem.pend w b = Some x \<Longrightarrow> fresh_object w \<notin> objects b"
  by (cases b) (auto simp: mem_tpend_def dest!: map_of_SomeD fresh_object_unused split: if_splits)

interpretation mem_iso: isolated mem_drivers m_table "\<lambda>w. map_of (m_open w)" mem_tpend
proof unfold_locales
  fix c cx q w r w' b x
  assume "PrepareBatch mem_drivers c cx q w = (r, w')" "mem.pend w b = Some x"
  with mem_open_objects [OF this(2)] show "mem.pend w' b = Some x \<and> (\<forall>h. r = Inr h \<longrightarrow> h \<notin> objects b)"
    by (cases b) (auto simp: mem_defs mem_tpend_def split: if_splits)
next
  fix tx cx q w r w' b x
  assume "PrepareContext mem_drivers tx cx q w = (r, w')" "mem.pend w b = Some x" "tx \<notin> objects b"
  with mem_open_objects [OF this(2)] show "mem.pend w' b = Some x \<and> (\<forall>h. r = Inr h \<longrightarrow> h \<notin> objects b)"
    by (cases b) (auto simp: mem_defs mem_tpend_def split: if_splits)
next
  fix db cx w r w' b x
  assume "BeginTx mem_drivers db cx w = (r, w')" "mem.pend w b = Some x"
  with mem_open_objects [OF this(2)] show "mem.pend w' b = Some x \<and> (\<forall>h. r = Inr h \<longrightarrow> h \<notin> objects b)"
    by (cases b) (auto simp: mem_defs mem_tpend_def split: if_splits)
next
  fix h row w er w' b x
  assume "batchAppend mem_drivers h row w = (er, w')" "mem.pend w b = Some x" "h \<notin> objects b"
  then show "mem.pend w' b = Some x"
    by (cases b) (auto simp: mem_defs mem_tpend_def split: if_splits option.splits)
next
  fix st cx row w er w' b x
  assume "ExecContext mem_drivers st cx row w = (er, w')" "mem.pend w b = Some x" "st \<notin> objects b"
  then show "mem.pend w' b = Some x"
    by (cases b) (auto simp: mem_defs mem_tpend_def split: if_splits option.splits)
next
  fix h w er w' b x
  assume "batchSend mem_drivers h w = (er, w')" "mem.pend w b = Some x" "h \<notin> objects b"
  then show "mem.pend w' b = Some x"
    by (cases b) (auto simp: mem_defs mem_tpend_def split: if_splits option.splits)
next
  fix tx w er w' b x
  assume "Commit mem_drivers tx w = (er, w')" "mem.pend w b = Some x" "tx \<notin> objects b"
  then show "mem.pend w' b = Some x"
    by (cases b) (auto simp: mem_defs mem_tpend_def split: if_splits option.splits)
qed (use mem.pend.simps in \<open>auto simp: mem_defs mem_tpend_def split: if_splits option.splits elim: mem.pend.elims\<close>)

end
