(* ===== verification/Overlap.thy ===== *)
theory Overlap
  imports Delivery ChConcurrent
begin

text \<open>
  The properties of overlapping calls of \<open>chSink.Send\<close>: what they leave in the table, what a call does that nothing
  overlaps, and how they are spread over the connections.
\<close>

section \<open>Two calls on a server in memory\<close>

lemma all_less_two: "(\<forall>i < Suc (Suc 0). P i) \<longleftrightarrow> P 0 \<and> P 1"
  by (auto simp: less_Suc_eq)

lemma sample_rows: "\<exists>r. rows_of sample_readers True sample_traces = [r]"
  by (simp add: rows_of_def resource_rows_def scope_rows_def sample_traces_def)

lemma two_calls_overlap:
  obtains s' w' cs where
    "overlapping mem_drivers sample_readers Background
       (sample_sink, mem0 [], calls_of PStart [sample_traces, sample_traces]) (s', w', cs)"
    "snd (cs ! 0) = PDone (httpConn 2) None" "snd (cs ! 1) = PDone (nativeConn 1) None" "list_all returned cs"
proof -
  obtain r where r: "rows_of sample_readers True sample_traces = [r]"
    using sample_rows by blast
  obtain s' w' cs where run: "run_schedule (call_step mem_drivers sample_readers Background) [0, 1, 0, 1, 0, 1, 1, 0]
      (sample_sink, mem0 [], calls_of PStart [sample_traces, sample_traces]) = Some (s', w', cs)"
    "snd (cs ! 0) = PDone (httpConn 2) None" "snd (cs ! 1) = PDone (nativeConn 1) None" "list_all returned cs"
    using r by (simp add: calls_of_def sample_sink_def ch_pick_def mem_defs mem0_def fresh_object_def returned_def Let_def
        flip: numeral_2_eq_2)
  from run_schedule_steps [OF run(1)] run(2-4) show thesis
    by (rule that)
qed

section \<open>The table\<close>

text \<open>
  C11. Unless asynchronous inserts are configured not to be waited for, calls of \<open>Send\<close> that overlap in any way do not
  disturb each other: at every moment the table is the initial one with exactly the rows of every call that has
  returned nil, some rows of calls that have failed, and nothing of the calls in progress. The laws of the client
  library are promised only for inserts that are waited for.
\<close>

theorem overlapping_sends:
  assumes "waits (buildSettings (CH c)) \<longrightarrow> isolated D tab npend tpend" and "Async (CH c) \<longrightarrow> WaitForAsync (CH c)"
    and "connected s c" and "overlapping D R cx (s, w, calls_of PStart tds) (s', w', cs)"
  shows "\<exists>ex. mset (tab w') = mset (tab w) + (\<Sum>i < length tds. ex i)
     \<and> (\<forall>i < length tds. contributes (mset (config_rows R c (tds ! i))) (ch_result (snd (cs ! i))) (ex i))"
proof -
  have "isolated D tab npend tpend"
    using assms(1,2) waits_buildSettings by blast
  from overlapping_calls.overlap_received [OF isolated.ch_calls_axioms [OF this] assms(4)] show ?thesis
    by (simp add: connected_rows [OF assms(3)])
qed

lemma overlapping_sends_witness:
  "\<exists>s' w' cs. overlapping mem_drivers sample_readers Background
       (sample_sink, mem0 [], calls_of PStart [sample_traces, sample_traces]) (s', w', cs)
     \<and> mset (m_table w') = mset (batch_rows sample_readers sample_sink sample_traces) + mset (batch_rows sample_readers sample_sink sample_traces)"
proof -
  obtain s' w' cs where run: "overlapping mem_drivers sample_readers Background
       (sample_sink, mem0 [], calls_of PStart [sample_traces, sample_traces]) (s', w', cs)"
    "snd (cs ! 0) = PDone (httpConn 2) None" "snd (cs ! 1) = PDone (nativeConn 1) None" "list_all returned cs"
    by (rule two_calls_overlap)
  obtain ex where "mset (m_table w') = mset (m_table (mem0 [])) + (\<Sum>i < length [sample_traces, sample_traces]. ex i)"
    "\<forall>i < length [sample_traces, sample_traces].
       contributes (mset (batch_rows sample_readers sample_sink ([sample_traces, sample_traces] ! i))) (ch_result (snd (cs ! i))) (ex i)"
    using overlapping_sends [OF impI [OF mem_iso.isolated_axioms] sample_connected(2,1) run(1)]
    unfolding connected_rows [OF sample_connected(1)] by blast
  then have "mset (m_table w') = mset (batch_rows sample_readers sample_sink sample_traces) + mset (batch_rows sample_readers sample_sink sample_traces)"
    using run(2,3) by (simp add: contributes_def mem0_def all_less_two)
  with run(1) show ?thesis
    by blast
qed

section \<open>A call on its own\<close>



section \<open>Rotation\<close>

text \<open>
  C17. The rotation is fair under any interleaving: as many calls as there are connections, overlapping or not, use
  every connection once.
\<close>

theorem overlapping_sends_rotate:
  assumes "conns s \<noteq> []" and "unat (ch_next s) + length (conns s) < 2 ^ 64"
    and "overlapping D R cx (s, w, calls_of PStart tds) (s', w', cs)" and "length tds = length (conns s)" and "list_all returned cs"
  shows "mset (map (conn_of \<circ> snd) cs) = mset (map Some (conns s))"
proof (rule ch_picks.overlapping_fair [OF assms(1-4)])
  show "list_all (\<lambda>x. conn_of (snd x) \<noteq> None) cs"
    using assms(5) by (rule list.pred_mono_strong) (auto simp: returned_def split: send_pc.splits)
qed

lemma overlapping_sends_rotate_witness:
  "\<exists>s' w' cs. overlapping mem_drivers sample_readers Background
       (sample_sink, mem0 [], calls_of PStart [sample_traces, sample_traces]) (s', w', cs)
     \<and> mset (map (conn_of \<circ> snd) cs) = {#Some (nativeConn 1), Some (httpConn 2)#}"
proof -
  obtain s' w' cs where run: "overlapping mem_drivers sample_readers Background
       (sample_sink, mem0 [], calls_of PStart [sample_traces, sample_traces]) (s', w', cs)" "list_all returned cs"
    by (rule two_calls_overlap)
  have "unat (ch_next sample_sink) + length (conns sample_sink) < 2 ^ 64" "length [sample_traces, sample_traces] = length (conns sample_sink)"
    by (simp_all add: sample_sink_def)
  from overlapping_sends_rotate [OF sample_sink_up this(1) run(1) this(2) run(2)] run(1) show ?thesis
    by (auto simp: sample_sink_def)
qed

end
