(* ===== verification/System.thy ===== *)
theory System
  imports Delivery Interleave
begin

text \<open>
  The engine and a sink as one system. In \<open>Engine\<close> a call of \<open>Send\<close> is one step with either outcome; here every
  worker that is inside \<open>send\<close> takes its call through the steps of the sink, and the steps of all calls, of the
  workers and of the clock interleave. What the system does is a run of \<open>Engine\<close> (\<open>system_runs\<close>), and what it
  reports as sent has arrived (\<open>system_received\<close>).
\<close>

section \<open>The system\<close>

text \<open>The engine, its workers, the sink, the world behind it, and for every worker where its call of \<open>Send\<close> stands.\<close>

type_synonym ('s, 'w, 'p) system = "Engine \<times> worker list \<times> 's \<times> 'w \<times> 'p list"

fun in_attempt :: "pc \<Rightarrow> bool" where
  "in_attempt (Attempt n k) = True"
| "in_attempt _ = False"

text \<open>
  A step is one of the engine in which no call of \<open>Send\<close> returns, a step of the call of a worker, or the return of a
  call, with its outcome.
\<close>

inductive system_step :: "externals \<Rightarrow> ('s, 'w, 'p) stepper \<Rightarrow> 'p \<Rightarrow> ('p \<Rightarrow> error option) \<Rightarrow>
    ('s, 'w, 'p) system \<Rightarrow> ('s, 'w, 'p) system \<Rightarrow> bool" for X stp init result where
  engine: "step X (e, ws) (e', ws') \<Longrightarrow> sends e' = sends e \<Longrightarrow>
    system_step X stp init result (e, ws, s, w, ps) (e', ws', s, w, ps)"
| call: "\<not> crashed e \<Longrightarrow> i < length ws \<Longrightarrow> in_attempt (w_pc (ws ! i)) \<Longrightarrow>
    stp (w_td (ws ! i)) (ps ! i) s w = Some (p', s', w') \<Longrightarrow>
    system_step X stp init result (e, ws, s, w, ps) (e, ws, s', w', ps[i := p'])"
| return: "\<not> crashed e \<Longrightarrow> i < length ws \<Longrightarrow> in_attempt (w_pc (ws ! i)) \<Longrightarrow> result (ps ! i) = Some r \<Longrightarrow>
    wstep X e (ws ! i) e' v \<Longrightarrow> sends e' = sends e @ [(w_td (ws ! i), r = None)] \<Longrightarrow>
    system_step X stp init result (e, ws, s, w, ps) (e', ws[i := v], s, w, ps[i := init])"

text \<open>\<open>Run\<close> on a sink.\<close>

definition system_start :: "int \<Rightarrow> Engine \<Rightarrow> 's \<Rightarrow> 'w \<Rightarrow> 'p \<Rightarrow> ('s, 'w, 'p) system" where
  "system_start gomaxprocs e s w p = (case Run gomaxprocs e of (e, ws) \<Rightarrow> (e, ws, s, w, map (\<lambda>_. p) ws))"

text \<open>The context of the calls: \<open>context.WithoutCancel\<close> of the run's context, below the one that \<open>main\<close> cancels on a signal.\<close>

definition sendCtx :: ctx where
  "sendCtx = WithoutCancel (WithCancel (WithCancel Background))"

text \<open>The calls in progress, as \<open>Interleave\<close> has them.\<close>

definition progress :: "worker list \<Rightarrow> 'p list \<Rightarrow> (Traces \<times> 'p) list" where
  "progress ws ps = map2 (\<lambda>v p. (w_td v, p)) ws ps"

lemma progress_nth: "length ps = length ws \<Longrightarrow> i < length ws \<Longrightarrow> progress ws ps ! i = (w_td (ws ! i), ps ! i)"
  by (simp add: progress_def)

lemma length_progress: "length ps = length ws \<Longrightarrow> length (progress ws ps) = length ws"
  by (simp add: progress_def)

lemma progress_update:
  "length ps = length ws \<Longrightarrow> (progress ws ps)[i := (w_td v, p)] = progress (ws[i := v]) (ps[i := p])"
  by (simp add: progress_def zip_update map_update)

section \<open>Steps of the engine\<close>

lemma wstep_attempt:
  "wstep X e v e' v' \<Longrightarrow> in_attempt (w_pc v) \<Longrightarrow>
     \<exists>ok n k. w_pc v = Attempt n k \<and> e' = e\<lparr>sends := sends e @ [(w_td v, ok)]\<rparr>
       \<and> v' = v\<lparr>w_pc := Observe n k ok\<rparr>"
  by (erule wstep.cases) auto

lemma wstep_no_attempt: "wstep X e v e' v' \<Longrightarrow> \<not> in_attempt (w_pc v) \<Longrightarrow> sends e' = sends e"
  by (erule wstep.cases) auto

text \<open>In a step in which no call returns, a worker inside a call stays there.\<close>

lemma engine_frame:
  assumes "step X (e, ws) (e', ws')" and "sends e' = sends e"
  shows "length ws' = length ws \<and> (\<forall>i < length ws. in_attempt (w_pc (ws ! i)) \<longrightarrow> ws' ! i = ws ! i)"
  using assms(1)
proof cases
  case (worker i v)
  have "\<not> in_attempt (w_pc (ws ! i))"
    using wstep_attempt [OF worker(4)] assms(2) by auto
  with worker(1) show ?thesis
    by (metis length_list_update nth_list_update_neq)
qed auto

lemma sends_extend: "step X (e, ws) (e', ws') \<Longrightarrow> \<exists>outs. sends e' = sends e @ outs"
proof (erule stepE)
  fix i v
  assume "wstep X e (ws ! i) e' v"
  then show ?thesis
    using wstep_attempt wstep_no_attempt by (cases "in_attempt (w_pc (ws ! i))") fastforce+
qed auto

text \<open>A worker outside \<open>Send\<close> has no call in progress.\<close>

definition calls_idle :: "'p \<Rightarrow> worker list \<Rightarrow> 'p list \<Rightarrow> bool" where
  "calls_idle p ws ps \<longleftrightarrow> length ps = length ws \<and> (\<forall>i < length ws. \<not> in_attempt (w_pc (ws ! i)) \<longrightarrow> ps ! i = p)"

lemma calls_idle_step:
  assumes "system_step X stp init result (e, ws, s, w, ps) (e', ws', s', w', ps')" and "calls_idle init ws ps"
  shows "calls_idle init ws' ps'"
  using assms(1)
proof cases
  case engine
  with engine_frame [OF engine(4,5)] assms(2) show ?thesis
    unfolding calls_idle_def by metis
next
  case (call i p')
  with assms(2) show ?thesis
    unfolding calls_idle_def by (metis length_list_update nth_list_update_neq)
next
  case (return i r v)
  then have "ps' ! j = init" if "j < length ws'" "\<not> in_attempt (w_pc (ws' ! j))" for j
    using assms(2) that by (cases "j = i") (auto simp: calls_idle_def)
  with return assms(2) show ?thesis
    by (simp add: calls_idle_def)
qed

lemma calls_idle_start: "system_start gmp e0 s0 w0 init = (e, ws, s, w, ps) \<Longrightarrow> calls_idle init ws ps"
  by (auto simp: system_start_def calls_idle_def split: prod.splits)

lemma system_idle:
  assumes "(system_step X stp init result)\<^sup>*\<^sup>* (system_start gmp e0 s0 w0 init) (e, ws, s, w, ps)"
  shows "calls_idle init ws ps"
  using assms
proof (induction "(e, ws, s, w, ps)" arbitrary: e ws s w ps rule: rtranclp_induct)
  case (step y)
  then show ?case
    by (metis calls_idle_step prod_cases5)
qed (use calls_idle_start in metis)

text \<open>Every run of the system is one of the engine on its own.\<close>

lemma system_engine:
  assumes "system_step X stp init result (e, ws, s, w, ps) (e', ws', s', w', ps')"
  shows "(e', ws') = (e, ws) \<or> step X (e, ws) (e', ws')"
  using assms by cases (auto intro: step.worker)

lemma system_runs:
  assumes "(system_step X stp init result)\<^sup>*\<^sup>* (system_start gmp e0 s0 w0 init) (e, ws, s, w, ps)"
    and "New c = Some e0"
  shows "running X gmp c (e, ws)"
  using assms(1)
proof (induction "(e, ws, s, w, ps)" arbitrary: e ws s w ps rule: rtranclp_induct)
  case base
  then have "Run gmp e0 = (e, ws)"
    by (auto simp: system_start_def Run_def)
  with assms(2) show ?case
    by (intro reach_init) (auto simp: started_def)
next
  case (step y)
  obtain e1 ws1 s1 w1 ps1 where y: "y = (e1, ws1, s1, w1, ps1)"
    using prod_cases5 by blast
  from step(2) [unfolded y] step(3) [OF y] show ?case
    by (auto dest!: system_engine intro: reach_step)
qed

text \<open>What no step of the sink changes, no step of the system changes.\<close>

lemma system_same:
  assumes "(system_step X stp init result)\<^sup>*\<^sup>* (e, ws, s, w, ps) (e', ws', s', w', ps')"
    and "\<And>td pc s w pc' s' w'. stp td pc s w = Some (pc', s', w') \<Longrightarrow> f s' w' = f s w"
  shows "f s' w' = f s w"
  using assms(1)
proof (induction "(e', ws', s', w', ps')" arbitrary: e' ws' s' w' ps' rule: rtranclp_induct)
  case (step y)
  obtain e1 ws1 s1 w1 ps1 where y: "y = (e1, ws1, s1, w1, ps1)"
    using prod_cases5 by blast
  from step(2) [unfolded y] have "f s' w' = f s1 w1"
    by cases (simp_all add: assms(2))
  with step(3) [OF y] show ?case
    by simp
qed simp

lemma system_start_same:
  assumes "(system_step X stp init result)\<^sup>*\<^sup>* (system_start gmp e0 s0 w0 init) (e, ws, s, w, ps)"
    and "\<And>td pc s w pc' s' w'. stp td pc s w = Some (pc', s', w') \<Longrightarrow> f s' w' = f s w"
  shows "f s w = f s0 w0"
  using assms by (auto simp: system_start_def split: prod.splits dest!: system_same [where f = f])

section \<open>What has arrived\<close>

text \<open>The items of the batches for which \<open>Send\<close> returned nil.\<close>

definition accepted :: "(Traces \<Rightarrow> 'a multiset) \<Rightarrow> (Traces \<times> bool) list \<Rightarrow> 'a multiset" where
  "accepted its outs = (\<Sum>x \<leftarrow> filter snd outs. its (fst x))"

lemma accepted_snoc: "accepted its (outs @ [(td, ok)]) = accepted its outs + (if ok then its td else {#})"
  by (simp add: accepted_def)

lemma accepted_member: "(td, True) \<in> set outs \<Longrightarrow> its td \<subseteq># accepted its outs"
  unfolding accepted_def by (induction outs) (auto intro: subset_mset.add_increasing subset_mset.add_increasing2)

text \<open>Items that belong to batches whose call failed.\<close>

definition leftover :: "(Traces \<Rightarrow> 'a multiset) \<Rightarrow> (Traces \<times> bool) list \<Rightarrow> 'a multiset \<Rightarrow> bool" where
  "leftover its outs ex \<longleftrightarrow> (\<forall>x. x \<in># ex \<longrightarrow> (\<exists>td. (td, False) \<in> set outs \<and> x \<in># its td))"

lemma leftover_none: "\<forall>x \<in> set outs. snd x \<Longrightarrow> leftover its outs ex \<Longrightarrow> ex = {#}"
  unfolding leftover_def by (rule multiset_eqI) (metis count_inI count_empty snd_conv)

context overlapping_calls
begin

lemma accepted_delivered: "int (size (accepted (items s) outs)) = delivered outs"
  by (induction outs) (simp_all add: accepted_def delivered_def items_size)

text \<open>
  The invariant of the system: the base of \<open>overlap_inv\<close> is what was there at the start, the items of the calls that
  returned nil, and some items of failed calls.
\<close>

definition system_inv :: "'s \<Rightarrow> 'w \<Rightarrow> ('s, 'w, 'p) system \<Rightarrow> bool" where
  "system_inv s0 w0 x \<longleftrightarrow> (case x of (e, ws, s, w, ps) \<Rightarrow> calls_idle init ws ps
     \<and> (\<exists>ex. overlap_inv s0 (received w0 + accepted (items s0) (sends e) + ex) (s, w, progress ws ps) \<and> leftover (items s0) (sends e) ex))"

lemma system_inv_start:
  assumes "sends e = []"
  shows "system_inv s w (system_start gmp e s w init)"
proof -
  obtain ws where ws: "system_start gmp e s w init = (e, ws, s, w, map (\<lambda>_. init) ws)"
    by (simp add: system_start_def Run_def)
  have "overlap_inv s (received w) (s, w, progress ws (map (\<lambda>_. init) ws))"
    by (rule overlap_fresh) (auto simp: progress_def set_zip)
  then show ?thesis
    using assms calls_idle_start [OF ws]
    by (auto simp: system_inv_def ws accepted_def leftover_def intro!: exI [of _ "{#}"])
qed

lemma system_inv_return:
  assumes "overlap_inv s0 (received w0 + accepted (items s0) outs + ex) (s, w, progress ws ps)" and "leftover (items s0) outs ex"
    and "length ps = length ws" and "i < length ws" and "result (ps ! i) = Some r"
  shows "\<exists>ex'. overlap_inv s0 (received w0 + accepted (items s0) (outs @ [(w_td (ws ! i), r = None)]) + ex')
      (s, w, progress (ws[i := v]) (ps[i := init])) \<and> leftover (items s0) (outs @ [(w_td (ws ! i), r = None)]) ex'"
proof -
  obtain t where t: "contributes (items s0 (w_td (ws ! i))) (Some r) t"
      "overlap_inv s0 (received w0 + accepted (items s0) outs + ex + t) (s, w, progress (ws[i := v]) (ps[i := init]))"
    using overlap_return [OF assms(1), of i r "w_td v"] assms(3-5)
    by (auto simp: length_progress progress_nth progress_update)
  show ?thesis
  proof (cases r)
    case None
    with t assms(2) show ?thesis
      by (intro exI [of _ ex]) (auto simp: accepted_snoc contributes_def leftover_def ac_simps)
  next
    case (Some err)
    with t assms(2) show ?thesis
      by (intro exI [of _ "ex + t"]) (auto simp: accepted_snoc contributes_def leftover_def ac_simps)
  qed
qed

lemma system_inv_step:
  assumes "system_step X stp init result (e, ws, s, w, ps) (e', ws', s', w', ps')" and "system_inv s0 w0 (e, ws, s, w, ps)"
  shows "system_inv s0 w0 (e', ws', s', w', ps')"
proof -
  have idle: "calls_idle init ws ps" and len: "length ps = length ws"
    using assms(2) by (auto simp: system_inv_def calls_idle_def)
  obtain ex where ex: "overlap_inv s0 (received w0 + accepted (items s0) (sends e) + ex) (s, w, progress ws ps)"
      "leftover (items s0) (sends e) ex"
    using assms(2) by (auto simp: system_inv_def)
  from assms(1) have "\<exists>ex'. overlap_inv s0 (received w0 + accepted (items s0) (sends e') + ex') (s', w', progress ws' ps')
      \<and> leftover (items s0) (sends e') ex'"
  proof cases
    case engine
    note frame = engine_frame [OF engine(4,5)]
    have "overlap_inv s0 (received w0 + accepted (items s0) (sends e) + ex) (s, w, progress ws' ps)"
      using ex(1) by (rule overlap_renew) (use frame len idle in \<open>auto simp: progress_nth length_progress calls_idle_def\<close>)
    with ex(2) engine show ?thesis
      by auto
  next
    case (call i p')
    have "interleave stp (s, w, progress ws ps) (s', w', (progress ws ps)[i := (w_td (ws ! i), p')])"
      by (rule interleave.call [where pc = "ps ! i"]) (simp_all add: progress_nth length_progress len call)
    then have "interleave stp (s, w, progress ws ps) (s', w', progress ws (ps[i := p']))"
      using progress_update [OF len, of i "ws ! i"] by simp
    from overlap_step [OF this ex(1)] ex(2) call show ?thesis
      by auto
  next
    case (return i r v)
    with system_inv_return [OF ex len return(6,8)] show ?thesis
      by simp
  qed
  with calls_idle_step [OF assms(1) idle] show ?thesis
    by (simp add: system_inv_def)
qed

lemma system_holds:
  assumes "(system_step X stp init result)\<^sup>*\<^sup>* (system_start gmp e s w init) x" and "sends e = []"
  shows "system_inv s w x"
  using assms(1)
proof (induction rule: rtranclp_induct)
  case base
  with assms(2) show ?case
    by (rule system_inv_start)
next
  case (step y z)
  then show ?case
    using system_inv_step by (cases y; cases z) blast
qed

text \<open>
  At every moment the backend has what was there at the start and the items of every batch for which \<open>Send\<close> returned
  nil; when the workers have returned, anything else belongs to batches of failed calls.
\<close>

lemma system_received:
  assumes "(system_step X stp init result)\<^sup>*\<^sup>* (system_start gmp e0 s0 w0 init) (e, ws, s, w, ps)" and "sends e0 = []"
  shows "received w0 + accepted (items s0) (sends e) \<subseteq># received w"
    and "quiet ws \<Longrightarrow> \<exists>ex. received w = received w0 + accepted (items s0) (sends e) + ex \<and> leftover (items s0) (sends e) ex"
proof -
  have inv: "system_inv s0 w0 (e, ws, s, w, ps)"
    by (rule system_holds [OF assms])
  then obtain ex where ex: "overlap_inv s0 (received w0 + accepted (items s0) (sends e) + ex) (s, w, progress ws ps)"
      "leftover (items s0) (sends e) ex"
    by (auto simp: system_inv_def)
  show "received w0 + accepted (items s0) (sends e) \<subseteq># received w"
    using overlap_base [OF ex(1)] by (rule subset_mset.order_trans [rotated]) simp
  assume "quiet ws"
  then have "\<not> in_attempt (w_pc (ws ! i))" if "i < length ws" for i
    unfolding quiet_def using nth_mem [OF that] by fastforce
  with inv have "result (snd x) = None" if "x \<in> set (progress ws ps)" for x
    using that init(1) by (auto simp: system_inv_def calls_idle_def progress_def set_zip)
  with overlap_end [OF ex(1)] ex(2) show "\<exists>ex. received w = received w0 + accepted (items s0) (sends e) + ex \<and> leftover (items s0) (sends e) ex"
    by blast
qed

text \<open>The same for the metrics: what they report as sent has arrived, at every moment.\<close>

lemma system_delivers:
  assumes "runnable X c" and "New c = Some e0"
    and "(system_step X stp init result)\<^sup>*\<^sup>* (system_start gmp e0 s0 w0 init) (e, ws, s, w, ps)"
  shows "int (size (received w0)) + SpansSent (met e) \<le> int (size (received w))"
    and "(td, True) \<in> set (sends e) \<Longrightarrow> items s0 td \<subseteq># received w"
    and "quiet ws \<Longrightarrow> SendErrors (met e) = 0 \<Longrightarrow> int (size (received w)) = int (size (received w0)) + SpansSent (met e)"
proof -
  have run: "running X gmp c (e, ws)"
    by (rule system_runs [OF assms(3,2)])
  note r = system_received [OF assms(3) New_fields(6) [OF assms(2)]]
  have "size (received w0) + size (accepted (items s0) (sends e)) \<le> size (received w)"
    using size_mset_mono [OF r(1)] by simp
  then show "int (size (received w0)) + SpansSent (met e) \<le> int (size (received w))"
    using accepted_delivered [of s0 "sends e"] sent_le_delivered [OF assms(1) run] by linarith
  show "items s0 td \<subseteq># received w" if "(td, True) \<in> set (sends e)"
    using subset_mset.order_trans [OF accepted_member [OF that] subset_mset.order_trans [OF _ r(1)]] by simp
  assume q: "quiet ws" "SendErrors (met e) = 0"
  obtain ex where "received w = received w0 + accepted (items s0) (sends e) + ex" "leftover (items s0) (sends e) ex"
    using r(2) [OF q(1)] by blast
  moreover have "\<forall>x \<in> set (sends e). snd x"
    using no_failures run_sent(2) [OF assms(1) run q(1)] q(2) by simp
  ultimately have "received w = received w0 + accepted (items s0) (sends e)"
    using leftover_none by fastforce
  then show "int (size (received w)) = int (size (received w0)) + SpansSent (met e)"
    using accepted_delivered [of s0 "sends e"] run_sent(1) [OF assms(1) run q(1)] by simp
qed

end

section \<open>Every run of the engine is possible\<close>

text \<open>A call of one worker that nothing overlaps.\<close>

lemma system_alone:
  assumes "interleaved stp (s, w, [(td, p)]) (s', w', [(td', p')])" and "\<not> crashed e" and "i < length ws"
    and "in_attempt (w_pc (ws ! i))" and "w_td (ws ! i) = td" and "length ps = length ws" and "ps ! i = p"
  shows "td' = td \<and> (system_step X stp init result)\<^sup>*\<^sup>* (e, ws, s, w, ps) (e, ws, s', w', ps[i := p'])"
  using assms(1)
proof (induction "(s', w', [(td', p')])" arbitrary: s' w' td' p' rule: rtranclp_induct)
  case base
  with assms(7) show ?case
    by auto
next
  case (step y)
  from step(2) obtain s1 w1 p1 where y: "y = (s1, w1, [(td', p1)])" "stp td' p1 s1 w1 = Some (p', s', w')"
    by (rule alone_cases)
  from step(3) [OF y(1)] have td: "td' = td"
      and run: "(system_step X stp init result)\<^sup>*\<^sup>* (e, ws, s, w, ps) (e, ws, s1, w1, ps[i := p1])"
    by simp_all
  have "system_step X stp init result (e, ws, s1, w1, ps[i := p1]) (e, ws, s', w', (ps[i := p1])[i := p'])"
    by (rule system_step.call) (use assms y(2) td in simp_all)
  with run td show ?case
    by (simp add: rtranclp.rtrancl_into_rtrancl)
qed

text \<open>
  If every call of the sink can succeed, every run of the engine without a failed call is one of the system: the single
  step of \<open>Engine\<close> promises nothing that the system cannot do.
\<close>

lemma system_complete:
  assumes "running X gmp c (e, ws)" and "New c = Some e0" and "\<forall>x \<in> set (sends e). snd x" and "up s0 w0"
    and alone: "\<And>td s w. up s w \<Longrightarrow> \<exists>s' w' p. interleaved stp (s, w, [(td, init)]) (s', w', [(td, p)]) \<and> result p = Some None \<and> up s' w'"
  shows "\<exists>s w. (system_step X stp init result)\<^sup>*\<^sup>* (system_start gmp e0 s0 w0 init) (e, ws, s, w, map (\<lambda>_. init) ws) \<and> up s w"
  using assms(1,3)
proof (induction "(e, ws)" arbitrary: e ws)
  case reach_init
  then have "Run gmp e0 = (e, ws)"
    using assms(2) by (simp add: started_def)
  then have "system_start gmp e0 s0 w0 init = (e, ws, s0, w0, map (\<lambda>_. init) ws)"
    by (simp add: system_start_def)
  with assms(4) show ?case
    by auto
next
  case (reach_step x)
  obtain e1 ws1 where x: "x = (e1, ws1)"
    by fastforce
  note st = reach_step(3) [unfolded x]
  obtain outs where outs: "sends e = sends e1 @ outs"
    using sends_extend [OF st] by blast
  then obtain s w where IH: "(system_step X stp init result)\<^sup>*\<^sup>* (system_start gmp e0 s0 w0 init) (e1, ws1, s, w, map (\<lambda>_. init) ws1)" "up s w"
    using reach_step(2) [OF x] reach_step(4) by auto
  have len: "length ws = length ws1"
    using st by cases auto
  have map: "map (\<lambda>_. init) ws = map (\<lambda>_. init) ws1"
    using len by (simp add: map_replicate_const)
  show ?case
  proof (cases "sends e = sends e1")
    case True
    have "system_step X stp init result (e1, ws1, s, w, map (\<lambda>_. init) ws1) (e, ws, s, w, map (\<lambda>_. init) ws)"
      unfolding map using st True by (rule system_step.engine)
    with IH show ?thesis
      by (meson rtranclp.rtrancl_into_rtrancl)
  next
    case False
    with st obtain i v where i: "\<not> crashed e1" "i < length ws1" "wstep X e1 (ws1 ! i) e v" "ws = ws1[i := v]"
      by cases auto
    have at: "in_attempt (w_pc (ws1 ! i))"
      using wstep_no_attempt [OF i(3)] False by blast
    obtain ok where ok: "sends e = sends e1 @ [(w_td (ws1 ! i), ok)]"
      using wstep_attempt [OF i(3) at] by auto
    then have ok: "sends e = sends e1 @ [(w_td (ws1 ! i), True)]"
      using reach_step(4) by simp
    obtain s' w' p where call: "interleaved stp (s, w, [(w_td (ws1 ! i), init)]) (s', w', [(w_td (ws1 ! i), p)])"
        "result p = Some None" "up s' w'"
      using alone [OF IH(2)] by blast
    let ?ps = "map (\<lambda>_. init) ws1"
    have "(system_step X stp init result)\<^sup>*\<^sup>* (e1, ws1, s, w, ?ps) (e1, ws1, s', w', ?ps[i := p])"
      using system_alone [OF call(1) i(1,2) at] i(2) by simp
    moreover have "system_step X stp init result (e1, ws1, s', w', ?ps[i := p]) (e, ws1[i := v], s', w', (?ps[i := p])[i := init])"
      by (rule system_step.return [OF i(1,2) at _ i(3)]) (use call(2) i(2) ok in simp_all)
    moreover have "(?ps[i := p])[i := init] = map (\<lambda>_. init) ws"
      unfolding map using i(2) by (simp add: list_update_same_conv)
    ultimately have "(system_step X stp init result)\<^sup>*\<^sup>* (system_start gmp e0 s0 w0 init) (e, ws, s', w', map (\<lambda>_. init) ws)"
      using IH(1) i(4) by (auto intro: rtranclp_trans rtranclp.rtrancl_into_rtrancl)
    with call(3) show ?thesis
      by blast
  qed
qed

end
