(* ===== verification/OtlpConcurrent.thy ===== *)
theory OtlpConcurrent
  imports OtlpProps Interleave
begin

text \<open>
  Calls of \<open>otlpSink.Send\<close> that overlap in time: they share the counter, the client connections and the collector.
  A call picks a client in one step and exports in the next one.
\<close>

section \<open>One call, step by step\<close>

datatype otlp_pc =
    OStart
  | OPicked GRPCClient
  | ODone GRPCClient error

text \<open>The next step of a call with the batch \<open>td\<close>. \<^term>\<open>None\<close>: the call has returned, or \<open>pick\<close> panics.\<close>

fun otlp_step :: "'w grpc \<Rightarrow> ctx \<Rightarrow> Traces \<Rightarrow> otlp_pc \<Rightarrow> otlpSink \<Rightarrow> 'w \<Rightarrow> (otlp_pc \<times> otlpSink \<times> 'w) option" where
  "otlp_step G cx td OStart s w = map_option (\<lambda>(client, s1). (OPicked client, s1, w)) (otlp_pick s)"
| "otlp_step G cx td (OPicked client) s w =
     (let cx = WithTimeout cx (timeout s);
          cx = (case mdCtx s of Some md \<Rightarrow> WithOutgoing cx md | None \<Rightarrow> cx)
      in Some (case Export G client cx td (callOpts s) w of
           (Inl err, w1) \<Rightarrow> (ODone client (Some (''otlp export: '' @ err)), s, w1)
         | (Inr (rejected, msg), w1) \<Rightarrow>
             if rejected > 0
             then (ODone client (Some (''otlp partial success: '' @ dec rejected @ '' spans rejected: '' @ msg)), s, w1)
             else (ODone client None, s, w1)))"
| "otlp_step G cx td (ODone client r) s w = None"

abbreviation otlp_overlapping :: "'w grpc \<Rightarrow> ctx \<Rightarrow> (otlpSink, 'w, otlp_pc) overlap \<Rightarrow> (otlpSink, 'w, otlp_pc) overlap \<Rightarrow> bool" where
  "otlp_overlapping G cx \<equiv> interleaved (otlp_step G cx)"

lemma otlp_pick_fields:
  "otlp_pick s = Some (client, s1) \<Longrightarrow>
     otlp_conns s1 = otlp_conns s \<and> clients s1 = clients s \<and> timeout s1 = timeout s \<and> mdCtx s1 = mdCtx s \<and> callOpts s1 = callOpts s"
  by (auto simp: otlp_pick_def Let_def split: option.splits if_splits)

lemma otlp_step_cases:
  assumes "otlp_step G cx td pc s w = Some (pc', s', w')"
  obtains client where "pc = OStart" "pc' = OPicked client" "otlp_pick s = Some (client, s')" "w' = w"
  | client cx' x r where "pc = OPicked client" "pc' = ODone client r" "s' = s" "Export G client cx' td (callOpts s) w = (x, w')"
    "r = None \<longleftrightarrow> (\<exists>rejected msg. x = Inr (rejected, msg) \<and> rejected \<le> 0)"
proof (cases pc)
  case OStart
  with assms that(1) show thesis
    by auto
next
  case (OPicked client)
  let ?cx = "case mdCtx s of Some md \<Rightarrow> WithOutgoing (WithTimeout cx (timeout s)) md | None \<Rightarrow> WithTimeout cx (timeout s)"
  obtain x w1 where x: "Export G client ?cx td (callOpts s) w = (x, w1)"
    by fastforce
  with assms OPicked obtain r where "pc' = ODone client r" "s' = s" "w' = w1"
      "r = None \<longleftrightarrow> (\<exists>rejected msg. x = Inr (rejected, msg) \<and> rejected \<le> 0)"
    by (cases x) (auto simp: Let_def split: if_splits prod.splits)
  with x OPicked that(2) show thesis
    by simp
next
  case (ODone client r)
  with assms show thesis
    by simp
qed

section \<open>A call that runs alone is \<open>Send\<close>\<close>

lemma otlp_Send_alone:
  assumes "otlp_Send G cx td s w = Some (r, s', w')"
  shows "\<exists>client. otlp_overlapping G cx (s, w, [(td, OStart)]) (s', w', [(td, ODone client r)])"
proof -
  obtain client s1 where p: "otlp_pick s = Some (client, s1)"
    using assms by (auto simp: otlp_Send_def Let_def split: option.splits)
  have "interleave (otlp_step G cx) (s, w, [(td, OStart)]) (s1, w, [(td, OPicked client)])"
    by (rule alone) (simp add: p)
  moreover have "interleave (otlp_step G cx) (s1, w, [(td, OPicked client)]) (s', w', [(td, ODone client r)])"
    by (rule alone)
      (use assms p otlp_pick_fields [OF p] in \<open>auto simp: otlp_Send_def Let_def split: sum.splits prod.splits if_splits\<close>)
  ultimately show ?thesis
    by (meson converse_rtranclp_into_rtranclp r_into_rtranclp)
qed

section \<open>Calls do not disturb each other\<close>

fun otlp_result :: "otlp_pc \<Rightarrow> error option" where
  "otlp_result (ODone client r) = Some r"
| "otlp_result _ = None"

text \<open>A bound on the steps that a call still takes.\<close>

fun otlp_steps_left :: "Traces \<times> otlp_pc \<Rightarrow> nat" where
  "otlp_steps_left (td, OStart) = 2"
| "otlp_steps_left (td, OPicked client) = 1"
| "otlp_steps_left (td, ODone client r) = 0"

lemma otlp_step_left: "otlp_step G cx td pc s w = Some (pc', s', w') \<Longrightarrow> otlp_steps_left (td, pc') < otlp_steps_left (td, pc)"
  by (erule otlp_step_cases) simp_all

lemma otlp_enabled: "clients s \<noteq> [] \<Longrightarrow> otlp_result p = None \<Longrightarrow> otlp_step G cx td p s w \<noteq> None"
  by (cases p) (auto simp: otlp_pick_def slice_at_def Let_def)

text \<open>What an export adds at the collector: all spans of the batch if \<open>Send\<close> returns nil, some of them otherwise.\<close>

context collector
begin

lemma export_contributes:
  assumes "Export G client cx td co w = (x, w')" and "r = None \<longleftrightarrow> (\<exists>rejected msg. x = Inr (rejected, msg) \<and> rejected \<le> 0)"
  shows "\<exists>t. mset (got w') = mset (got w) + t \<and> contributes (mset (all_spans td)) (Some r) t"
proof -
  obtain acc where acc: "got w' = got w @ acc" "mset acc \<subseteq># mset (all_spans td)" "r = None \<Longrightarrow> length acc = total_spans td"
    using export_error [of client cx td co w _ w'] export_ok [of client cx td co w _ _ w'] assms
    by (cases x) fastforce+
  have "r = None \<Longrightarrow> mset acc = mset (all_spans td)"
    using acc(2,3) by (metis length_all_spans mset_subset_size size_mset subset_mset.le_imp_less_or_eq less_irrefl)
  with acc(1,2) show ?thesis
    by (intro exI [of _ "mset acc"]) (auto simp: contributes_def dest: mset_subset_eqD split: option.split)
qed

end

sublocale collector \<subseteq> otlp_calls: overlapping_calls "otlp_step G cx" OStart otlp_result "\<lambda>s w x. True" "\<lambda>p q. True"
    "\<lambda>w. mset (got w)" "\<lambda>s td. mset (all_spans td)" for cx
proof unfold_locales
  fix td pc s w pc' s' w'
  assume step: "otlp_step G cx td pc s w = Some (pc', s', w')"
  show "otlp_result pc = None"
    by (rule otlp_step_cases [OF step]) simp_all
  show "True \<and> (\<exists>t. mset (got w') = mset (got w) + t \<and> contributes (mset (all_spans td)) (otlp_result pc') t)"
    by (rule otlp_step_cases [OF step]) (use export_contributes in \<open>auto simp: contributes_def\<close>)
qed (simp_all add: length_all_spans)

context collector
begin

lemma otlp_calls_axioms: "overlapping_calls (otlp_step G cx) OStart otlp_result (\<lambda>s w x. True) (\<lambda>p q. True)
    (\<lambda>w. mset (got w)) (\<lambda>s td. mset (all_spans td))"
  by (rule otlp_calls.overlapping_calls_axioms)

end

section \<open>Rotation\<close>

text \<open>The client of a call, once it has one.\<close>

fun client_of :: "otlp_pc \<Rightarrow> GRPCClient option" where
  "client_of OStart = None"
| "client_of (OPicked client) = Some client"
| "client_of (ODone client r) = Some client"

interpretation otlp_picks: overlapping_picks otlp_pick clients otlp_next "otlp_step G cx" OStart client_of for G cx
proof unfold_locales
  fix td pc s w pc' s' w'
  assume "otlp_step G cx td pc s w = Some (pc', s', w')"
  then show "(\<exists>c. client_of pc = None \<and> client_of pc' = Some c \<and> otlp_pick s = Some (c, s')) \<or> client_of pc' = client_of pc \<and> s' = s"
    by (rule otlp_step_cases) simp_all
qed simp

section \<open>Connections during a run\<close>

text \<open>An export neither opens nor closes connections.\<close>

locale collector_held = collector G got live for G :: "'w grpc" and got live +
  assumes export_live: "live (snd (Export G client cx td co w)) = live w"
begin

lemma Export_live: "Export G client cx td co w = (x, w') \<Longrightarrow> live w' = live w"
  using export_live [of client cx td co w] by simp

lemma otlp_step_live: "otlp_step G cx td pc s w = Some (pc', s', w') \<Longrightarrow> live w' = live w \<and> otlp_conns s' = otlp_conns s"
  by (erule otlp_step_cases) (auto simp: otlp_pick_fields dest: Export_live)

end

interpretation mem_coll_held: collector_held mem_grpc c_got "\<lambda>w. set (c_live w)"
  by unfold_locales (auto simp: mem_grpc_def c_export_def c_tick_def Let_def)

end
