(* ===== verification/Shutdown.thy ===== *)
theory Shutdown
  imports System ChConcurrent OtlpConcurrent
begin

text \<open>
  The end of a run on a real sink. After cancellation every step of the system that moves a worker or a call
  lowers the measure \<open>work\<close>, and while a worker has not returned such a step is possible: the calls of \<open>Send\<close> that
  are on their way are finished, no new ones begin, and \<open>wg.Wait\<close> returns.
\<close>

section \<open>The two systems\<close>

abbreviation ch_system :: "'w drivers \<Rightarrow> readers \<Rightarrow> externals \<Rightarrow> (chSink, 'w, send_pc) system \<Rightarrow> (chSink, 'w, send_pc) system \<Rightarrow> bool" where
  "ch_system D R X \<equiv> system_step X (call_step D R sendCtx) PStart ch_result"

abbreviation otlp_system :: "'w grpc \<Rightarrow> externals \<Rightarrow> (otlpSink, 'w, otlp_pc) system \<Rightarrow> (otlpSink, 'w, otlp_pc) system \<Rightarrow> bool" where
  "otlp_system G X \<equiv> system_step X (otlp_step G sendCtx) OStart otlp_result"

section \<open>The work that is left\<close>

text \<open>\<open>left\<close> bounds the steps of a call; a worker before or in its attempt has the steps of that call before it.\<close>

definition worker_work :: "(Traces \<times> 'p \<Rightarrow> nat) \<Rightarrow> 'p \<Rightarrow> worker \<times> 'p \<Rightarrow> nat" where
  "worker_work left p0 x = (case x of (v, p) \<Rightarrow> rank (w_pc v) +
     (case w_pc v of BeginSend n \<Rightarrow> left (w_td v, p0) | Attempt n k \<Rightarrow> left (w_td v, p) | _ \<Rightarrow> 0))"

definition work :: "(Traces \<times> 'p \<Rightarrow> nat) \<Rightarrow> 'p \<Rightarrow> worker list \<Rightarrow> 'p list \<Rightarrow> nat" where
  "work left p0 ws ps = sum_list (map (worker_work left p0) (zip ws ps))"

lemma work_less:
  assumes "length ps = length ws" and "i < length ws" and "worker_work left p0 (v, p) < worker_work left p0 (ws ! i, ps ! i)"
  shows "work left p0 (ws[i := v]) (ps[i := p]) < work left p0 ws ps"
  using sum_list_map_exchange [of i "zip ws ps" "worker_work left p0" "(v, p)"] assms
  by (simp add: work_def zip_update)

lemma wstep_work:
  assumes "wstep X e v e' v'" and "cancelled e" and "\<not> in_attempt (w_pc v)"
  shows "worker_work left p (v', p) < worker_work left p (v, p)"
  using assms by (cases rule: wstep.cases) (auto simp: worker_work_def)

lemma work_le:
  assumes "length ps = length ws" and "\<And>i. i < length ws \<Longrightarrow> left (w_td (ws ! i), ps ! i) \<le> left (w_td (ws ! i), init)"
  shows "work left init ws ps \<le> (\<Sum>v \<leftarrow> ws. 16 + left (w_td v, init))"
proof -
  have "worker_work left init (ws ! i, ps ! i) \<le> 16 + left (w_td (ws ! i), init)" if "i < length ws" for i
    using assms(2) [OF that] rank_le [of "w_pc (ws ! i)"]
    by (cases "w_pc (ws ! i)") (simp_all add: worker_work_def trans_le_add1)
  then show ?thesis
    unfolding work_def by (intro sum_list_mono2) (simp_all add: assms(1))
qed

text \<open>\<open>WaitN\<close> answers once the context is cancelled.\<close>

definition waitN_answers :: "externals \<Rightarrow> bool" where
  "waitN_answers X \<longleftrightarrow> (\<forall>l n. \<exists>ok. xwaitN X l True n ok)"

lemma worker_enabled:
  assumes "waitN_answers X" and "cancelled e" and "\<nexists>n. w_pc v = Returned n"
  shows "\<exists>e' v'. wstep X e v e' v'"
proof (cases "w_pc v")
  case (WaitLimiter n)
  show ?thesis
  proof (cases "limiter_of e")
    case None
    with WaitLimiter show ?thesis
      by (blast intro: wstep.no_limiter)
  next
    case (Some l)
    then obtain ok where "xwaitN X l (cancelled e) n ok"
      using assms(1,2) by (auto simp: waitN_answers_def)
    with WaitLimiter Some show ?thesis
      by (blast intro: wstep.wait)
  qed
qed (use assms(2,3) in \<open>blast intro: wstep.intros\<close>)+

section \<open>Every step is progress\<close>

text \<open>A sink whose calls take a bounded number of steps.\<close>

locale bounded_calls =
  fixes stp :: "('s, 'w, 'p) stepper" and left :: "Traces \<times> 'p \<Rightarrow> nat"
  assumes shorter: "stp td pc s w = Some (pc', s', w') \<Longrightarrow> left (td, pc') < left (td, pc)"
begin

lemma cancelled_step:
  assumes "system_step X stp init result (e, ws, s, w, ps) (e', ws', s', w', ps')" and "calls_idle init ws ps" and "cancelled e"
  shows "cancelled e' \<and> (work left init ws' ps' < work left init ws ps \<or> ws' = ws \<and> s' = s \<and> w' = w \<and> ps' = ps)"
  using assms(1)
proof cases
  case engine
  from engine(4) show ?thesis
  proof cases
    case (worker i v)
    have idle: "\<not> in_attempt (w_pc (ws ! i))"
      using wstep_attempt [OF worker(4)] engine(5) by auto
    then have "ps ! i = init" "length ps = length ws"
      using assms(2) worker(3) by (auto simp: calls_idle_def)
    moreover from this have "ps = ps[i := init]"
      by (metis list_update_id)
    ultimately have "work left init (ws[i := v]) ps < work left init ws ps"
      using work_less [of ps ws i left init v init] wstep_work [OF worker(4) assms(3) idle, of left init] worker(3) by simp
    with worker engine wstep_rank [OF worker(4) assms(3)] show ?thesis
      by simp
  qed (use assms(3) engine in auto)
next
  case (call i p')
  have "worker_work left init (ws ! i, p') < worker_work left init (ws ! i, ps ! i)"
    using shorter [OF call(7)] call(6) by (cases "w_pc (ws ! i)") (simp_all add: worker_work_def)
  with work_less [of ps ws i left init "ws ! i" p'] call assms(2,3) show ?thesis
    by (simp add: calls_idle_def)
next
  case (return i r v)
  have "worker_work left init (v, init) < worker_work left init (ws ! i, ps ! i)"
    using wstep_attempt [OF return(9,7)] by (auto simp: worker_work_def)
  with work_less [of ps ws i left init v init] return assms(2) wstep_rank [OF return(9) assms(3)] show ?thesis
    by (simp add: calls_idle_def)
qed

section \<open>A bound\<close>

text \<open>A call has never more steps left than one that begins.\<close>

lemma calls_bounded:
  assumes "(system_step X stp init result)\<^sup>*\<^sup>* (system_start gmp e0 s0 w0 init) (e, ws, s, w, ps)" and "i < length ws"
  shows "left (w_td (ws ! i), ps ! i) \<le> left (w_td (ws ! i), init)"
  using assms
proof (induction "(e, ws, s, w, ps)" arbitrary: e ws s w ps i rule: rtranclp_induct)
  case base
  then show ?case
    by (auto simp: system_start_def Run_def)
next
  case (step y)
  obtain e1 ws1 s1 w1 ps1 where y: "y = (e1, ws1, s1, w1, ps1)"
    using prod_cases5 by blast
  have idle: "calls_idle init ws ps" "calls_idle init ws1 ps1"
    using system_idle [OF step(1) [unfolded y]] calls_idle_step [OF step(2) [unfolded y]] by simp_all
  note IH = step(3) [OF y]
  from step(2) [unfolded y] show ?case
  proof cases
    case engine
    note frame = engine_frame [OF engine(4,5)]
    show ?thesis
    proof (cases "in_attempt (w_pc (ws1 ! i))")
      case True
      with frame IH [of i] step(4) engine(3) show ?thesis
        by simp
    next
      case False
      with frame idle(2) step(4) engine(3) have "ps ! i = init"
        by (simp add: calls_idle_def)
      then show ?thesis
        by simp
    qed
  next
    case (call j p')
    with IH [of i] step(4) idle(2) less_imp_le [OF shorter [OF call(7)]] show ?thesis
      by (cases "i = j") (auto simp: calls_idle_def intro: order.trans)
  next
    case (return j r v)
    with IH [of i] step(4) idle(2) show ?thesis
      by (cases "i = j") (auto simp: calls_idle_def)
  qed
qed

section \<open>A step is possible\<close>

lemma system_enabled:
  assumes live: "\<forall>td p. result p = None \<longrightarrow> stp td p s w \<noteq> None"
    and "waitN_answers X" and "cancelled e" and "\<not> crashed e" and "\<not> quiet ws" and idle: "calls_idle init ws ps"
  shows "\<exists>e' ws' s' w' ps'. system_step X stp init result (e, ws, s, w, ps) (e', ws', s', w', ps') \<and> work left init ws' ps' < work left init ws ps"
proof -
  obtain i where i: "i < length ws" "\<nexists>n. w_pc (ws ! i) = Returned n"
    using assms(5) by (auto simp: quiet_def in_set_conv_nth)
  have len: "length ps = length ws"
    using idle by (simp add: calls_idle_def)
  note less = work_less [OF len i(1), of left init]
  show ?thesis
  proof (cases "in_attempt (w_pc (ws ! i))")
    case False
    then have init: "ps ! i = init"
      using idle i(1) by (simp add: calls_idle_def)
    obtain e' v where v: "wstep X e (ws ! i) e' v"
      using worker_enabled [OF assms(2,3) i(2)] by blast
    have "system_step X stp init result (e, ws, s, w, ps) (e', ws[i := v], s, w, ps)"
      using step.worker [OF assms(4) i(1) v] wstep_no_attempt [OF v False] by (rule system_step.engine)
    moreover have "work left init (ws[i := v]) (ps[i := init]) < work left init ws ps"
      by (rule less) (use wstep_work [OF v assms(3) False] init in simp)
    moreover have "ps[i := init] = ps"
      using init by (metis list_update_id)
    ultimately show ?thesis
      by metis
  next
    case at: True
    then obtain n k where pc: "w_pc (ws ! i) = Attempt n k"
      by (cases "w_pc (ws ! i)") simp_all
    show ?thesis
    proof (cases "result (ps ! i)")
      case None
      then obtain p' s' w' where c: "stp (w_td (ws ! i)) (ps ! i) s w = Some (p', s', w')"
        using live by (metis not_Some_eq prod_cases3)
      have "work left init (ws[i := ws ! i]) (ps[i := p']) < work left init ws ps"
        by (rule less) (use shorter [OF c] pc in \<open>simp add: worker_work_def\<close>)
      moreover have "system_step X stp init result (e, ws, s, w, ps) (e, ws, s', w', ps[i := p'])"
        using assms(4) i(1) at c by (rule system_step.call)
      ultimately show ?thesis
        by (metis list_update_id)
    next
      case (Some r)
      let ?e = "e\<lparr>sends := sends e @ [(w_td (ws ! i), r = None)]\<rparr>"
        and ?v = "(ws ! i)\<lparr>w_pc := Observe n k (r = None)\<rparr>"
      have "system_step X stp init result (e, ws, s, w, ps) (?e, ws[i := ?v], s, w, ps[i := init])"
        using assms(4) i(1) at Some wstep.attempt [OF pc] by (rule system_step.return) simp
      moreover have "work left init (ws[i := ?v]) (ps[i := init]) < work left init ws ps"
        by (rule less) (simp add: worker_work_def pc)
      ultimately show ?thesis
        by blast
    qed
  qed
qed

text \<open>Until the workers have returned, the system goes on, whatever the sink.\<close>

lemma system_ends:
  assumes live: "\<forall>td p. result p = None \<longrightarrow> stp td p s w \<noteq> None"
    and X: "runnable X c" "waitN_ok X" "waitN_answers X"
    and batch: "(word_of_int (EffectiveBatchSize c * 20) :: u64) \<noteq> 0" "0 \<le> EffectiveBatchSize c"
    and run: "New c = Some e0" "(system_step X stp init result)\<^sup>*\<^sup>* (system_start gmp e0 s0 w0 init) (e, ws, s, w, ps)"
    and "cancelled e"
  shows "work left init ws ps \<le> (\<Sum>v \<leftarrow> ws. 16 + left (w_td v, init))"
    and "\<forall>e' ws' s' w' ps'. system_step X stp init result (e, ws, s, w, ps) (e', ws', s', w', ps') \<longrightarrow>
       cancelled e' \<and> (work left init ws' ps' < work left init ws ps \<or> ws' = ws \<and> s' = s \<and> w' = w \<and> ps' = ps)"
    and "quiet ws \<or> (\<exists>e' ws' s' w' ps'. system_step X stp init result (e, ws, s, w, ps) (e', ws', s', w', ps')
       \<and> work left init ws' ps' < work left init ws ps)"
proof -
  have idle: "calls_idle init ws ps"
    by (rule system_idle [OF run(2)])
  then show "work left init ws ps \<le> (\<Sum>v \<leftarrow> ws. 16 + left (w_td v, init))"
    by (intro work_le calls_bounded [OF run(2)]) (simp_all add: calls_idle_def)
  show "\<forall>e' ws' s' w' ps'. system_step X stp init result (e, ws, s, w, ps) (e', ws', s', w', ps') \<longrightarrow>
       cancelled e' \<and> (work left init ws' ps' < work left init ws ps \<or> ws' = ws \<and> s' = s \<and> w' = w \<and> ps' = ps)"
    using cancelled_step [OF _ idle \<open>cancelled e\<close>] by blast
  have "\<not> crashed e"
    using uncrashed.holds [OF system_runs [OF run(2,1)]] X(1) batch(1) by (simp add: modulus_ok_def)
  then show "quiet ws \<or> (\<exists>e' ws' s' w' ps'. system_step X stp init result (e, ws, s, w, ps) (e', ws', s', w', ps')
       \<and> work left init ws' ps' < work left init ws ps)"
    using system_enabled [OF live X(3) \<open>cancelled e\<close> _ _ idle] by blast
qed

end

interpretation ch_bounded: bounded_calls "call_step D R cx" steps_left for D R cx
  by unfold_locales (rule call_steps_left)

interpretation otlp_bounded: bounded_calls "otlp_step G cx" otlp_steps_left for G cx
  by unfold_locales (rule otlp_step_left)

end
