(* ===== verification/Program.thy ===== *)
theory Program
  imports Shutdown Overlap
begin

text \<open>
  The program from its arguments to its end, on either sink: the start in \<open>main\<close>, the system of the
  engine and the sink, and the deferred \<open>Close\<close>.
\<close>

section \<open>Connections during a run\<close>

text \<open>Batches neither open nor close connections.\<close>

locale connections_held = connections D live for D :: "'w drivers" and live +
  assumes prepare_live: "live (snd (PrepareBatch D h cx q w)) = live w"
    and nappend_live: "live (snd (batchAppend D h row w)) = live w"
    and nsend_live: "live (snd (batchSend D h w)) = live w"
    and nabort_live: "live (snd (batchAbort D h w)) = live w"
    and begin_live: "live (snd (BeginTx D h cx w)) = live w"
    and stmt_live: "live (snd (PrepareContext D h cx q w)) = live w"
    and exec_live: "live (snd (ExecContext D h cx row w)) = live w"
    and commit_live: "live (snd (Commit D h w)) = live w"
    and rollback_live: "live (snd (Rollback D h w)) = live w"
    and stmtClose_live: "live (snd (stmtClose D h w)) = live w"
begin

lemma newBatch_live: "live (snd (newBatch D c cx q w)) = live w"
  by (cases c) (auto simp: case_prod_beta prepare_live begin_live stmt_live rollback_live split: sum.split)

lemma Append_live: "live (snd (batch_Append D b row w)) = live w"
  using nappend_live exec_live by (cases b) simp_all

lemma Send_live: "live (snd (batch_Send D b w)) = live w"
  using nsend_live commit_live stmtClose_live by (cases b) (simp_all add: case_prod_beta)

lemma Abort_live: "live (snd (batch_Abort D b w)) = live w"
  using nabort_live rollback_live stmtClose_live by (cases b) (simp_all add: case_prod_beta)

lemma call_live: "call_step D R cx td pc s w = Some (pc', s', w') \<Longrightarrow> live w' = live w"
  by (cases "(D, R, cx, td, pc, s, w)" rule: call_step.cases)
    (auto simp: case_prod_beta newBatch_live Append_live Send_live Abort_live split: sum.splits option.splits)

lemma system_live:
  assumes "(ch_system D R X)\<^sup>*\<^sup>* (system_start gmp e0 s0 w0 PStart) (e, ws, s, w, ps)"
  shows "live w = live w0 \<and> conns s = conns s0"
proof -
  have "(live w, conns s) = (live w0, conns s0)"
    using assms by (rule system_start_same [where f = "\<lambda>s w. (live w, conns s)"]) (metis call_live call_sink)
  then show ?thesis
    by simp
qed

end

interpretation mem_held: connections_held mem_drivers "\<lambda>w. set (m_live w)"
  by unfold_locales (auto simp: mem_defs split: option.splits)

section \<open>From the arguments to the run\<close>

lemma Parsed_runnable: "Parse E args = Some (Parsed c) \<Longrightarrow> New c = Some e \<Longrightarrow> lib_ok (xlib X) \<Longrightarrow> runnable X c"
  using Parsed_typed [of E args c] New_bound [of c e] by (auto simp: runnable_def typed_config_def typed_gen_def int64_def)

lemma New_defined: "Parse E args = Some (Parsed c) \<Longrightarrow> Services (Gen c) \<le> 2 ^ 41 \<Longrightarrow> \<exists>e. New c = Some e"
  using Parsed_typed [of E args c] New_Some [of c] by (metis validate_iff)

lemma main_started:
  assumes "main_start go prc D G E args w = Some (Started snk reg e, w1)"
  shows "Parse E args = Some (Parsed (cfg e)) \<and> New (cfg e) = Some e \<and> open_sink D G (cfg e) w = Some (Inr snk, w1)"
proof -
  from assms obtain c where "Parse E args = Some (Parsed c)" "New c = Some e" "open_sink D G c w = Some (Inr snk, w1)"
    unfolding main_start_def
    by (auto elim!: bind_eq_SomeE split: parse_result.splits sum.splits prod.splits)
  with New_fields show ?thesis
    by metis
qed

lemma opened_clickhouse:
  assumes "connections D live" and "open_sink D G c w = Some (Inr (Some (ClickHouseSink s)), w1)" and "valid_config c"
  shows "live w1 - set (conns s) = live w \<and> conns s \<noteq> []"
proof -
  have c: "Sink c = ''clickhouse''" "NewClickHouse D c (ReplicaIndex c) w = Some (Inr s, w1)"
    using assms(2) by (auto simp: open_sink_def split: if_splits prod.splits sum.splits) (auto simp: map_sum_def split: sum.splits)
  have "Endpoints (CH c) \<noteq> []"
    using assms(3) c(1) by (auto simp: valid_config_def valid_clickhouse_def)
  from connections.NewClickHouse_outcome [OF assms(1) this, of "ReplicaIndex c" w] c(2)
  have "opens live w w1 (conns s)" "length (conns s) = shards c"
    by (auto simp: outcome_def connected_def)
  moreover have "shards c \<noteq> 0"
    using \<open>Endpoints (CH c) \<noteq> []\<close> by (simp add: shards_def)
  ultimately show ?thesis
    by (auto simp: opens_def)
qed

lemma not_clickhouse: "map_sum id (\<lambda>s. Some (ClickHouseSink s)) r \<noteq> Inr (Some (OTLPSink s'))"
  by (cases r) simp_all

lemma opened_otlp:
  assumes "collector G got live" and "open_sink D G c w = Some (Inr (Some (OTLPSink s)), w1)"
  shows "live w1 - set (otlp_conns s) = live w"
proof -
  have "NewOTLP G c w = (Inr s, w1)"
    using assms(2)
    by (cases "NewOTLP G c w"; cases "fst (NewOTLP G c w)") (auto simp: open_sink_def not_clickhouse split: if_splits)
  from collector.NewOTLP_live [OF assms(1) this] show ?thesis
    by auto
qed

section \<open>A program on a server in memory\<close>

definition rate_flag :: "settings flagvar" where
  "rate_flag = Float64Var (\<lambda>v. on_gen (Rate_update (\<lambda>_. v))) ''rate'' (Finite 100000)"

lemma rate_flag_facts: "rate_flag \<in> set (flag_table (sample_env h))" "flag_name rate_flag = ''rate''"
  by (simp_all add: rate_flag_def flag_table_def envFloat_def sample_env_unset)

lemma small_texts: "parseFloat ''0'' = Some (Finite 0)" "parseInt ''1'' = Some 1"
  by (simp_all add: parseFloat_def parse_special_def no_sign_def has_sign_def digit_in_def digit36_def lower_def is_digit_def
      digit_val_def Let_def to_float64_def parseInt_def parseUint_def)

definition small_config :: Config where
  "small_config = (default_config ''spangen-2'')\<lparr>Gen := (Gen (default_config ''spangen-2''))\<lparr>Rate := Finite 0, Workers := 1\<rparr>\<rparr>"

lemma small_services: "Services (Gen small_config) \<le> 2 ^ 41"
  by (simp add: small_config_def default_config_def)

definition small_args :: "string list" where
  "small_args = [''-rate=0'', ''-workers=1'']"

lemma small_flags:
  "parse_flags (flag_table (sample_env h)) (small_args @ args) c
     = parse_flags (flag_table (sample_env h)) args (on_gen (Workers_update (\<lambda>_. 1)) (on_gen (Rate_update (\<lambda>_. Finite 0)) c))"
proof -
  have "flag_set rate_flag ''0'' = Some (on_gen (Rate_update (\<lambda>_. Finite 0)))" "flag_set workers_flag ''1'' = Some (on_gen (Workers_update (\<lambda>_. 1)))"
    by (simp_all add: rate_flag_def workers_flag_def small_texts)
  then show ?thesis
    using table.one_argument [OF rate_flag_facts(1), where v = "''0''" and args = "''-workers=1'' # args"]
      table.one_argument [OF workers_flag_facts(1), where v = "''1''" and args = args]
    by (simp add: rate_flag_facts workers_flag_facts small_args_def)
qed

lemma small_parse: "Parse (sample_env ''spangen-2'') small_args = Some (Parsed small_config)"
proof -
  let ?E = "sample_env ''spangen-2''"
  have "parse_flags (flag_table ?E) [] c = FlagsDone c []" for c
    by (simp add: parse_flags.simps [of _ "[]"] parseOne_def)
  moreover have "splitCSV ''localhost:9000'' = [''localhost:9000'']" "parseKV [] = Map.empty"
    by (simp_all add: splitCSV_def parseKV_def parseKV_step_def text_eval)
  then have "finish ?E (on_gen (Workers_update (\<lambda>_. 1)) (on_gen (Rate_update (\<lambda>_. Finite 0)) (env_settings ?E))) = Parsed small_config"
    by (simp add: finish_def default_settings update_defs Let_def small_config_def default_config_def validate_def)
  ultimately show ?thesis
    using small_flags [where args = "[]"] by (simp add: Parse_eq Parse_from_def)
qed

definition small_sink :: chSink where
  "small_sink = \<lparr>conns = [nativeConn 1], insertSQL = buildInsertSQL ''otel'' ''otel_traces'' ''map'', jsonAttrs = False,
     ch_next = 0, sendTO = 30 * second\<rparr>"

lemma small_start:
  obtains reg e w1 where
    "main_start [] [] mem_drivers G (sample_env ''spangen-2'') small_args (mem0 []) = Some (Started (Some (ClickHouseSink small_sink)) reg e, w1)"
    "m_down w1 = []" "m_table w1 = []" "cfg e = small_config"
proof -
  let ?w1 = "(mem0 [])\<lparr>m_clock := 2, m_live := [nativeConn 1]\<rparr>"
  obtain e where e: "New small_config = Some e"
    using New_defined [OF small_parse] small_services by blast
  have "open_sink mem_drivers G small_config (mem0 []) = Some (Inr (Some (ClickHouseSink small_sink)), ?w1)"
    by (simp add: open_sink_def NewClickHouse_def open_conns_def openOne_def ping_first_def slice_at_def chProtocol_def mem_defs mem0_def
        fresh_def small_sink_def small_config_def default_config_def Let_def)
  moreover have "Metrics_New [] [] (Sink small_config) (ReplicaIndex small_config) = Some (own_descs (Sink small_config), metrics0)"
    using Metrics_New_defined [of "[]" "[]"] by (simp add: foreign_def)
  ultimately have "main_start [] [] mem_drivers G (sample_env ''spangen-2'') small_args (mem0 [])
      = Some (Started (Some (ClickHouseSink small_sink)) (own_descs (Sink small_config)) e, ?w1)"
    by (simp add: main_start_def small_parse e)
  then show thesis
    by (rule that) (simp_all add: mem0_def New_fields(1) [OF e])
qed

section \<open>A program on a collector in memory\<close>

definition sink_flag :: "settings flagvar" where
  "sink_flag = StringVar (\<lambda>v. on_cfg (Sink_update (\<lambda>_. v))) ''sink'' ''clickhouse''"

lemma sink_flag_facts: "sink_flag \<in> set (flag_table (sample_env h))" "flag_name sink_flag = ''sink''"
  by (simp_all add: sink_flag_def flag_table_def sample_env_unset)

definition otlp_args :: "string list" where
  "otlp_args = small_args @ [''-sink=otlp'']"

definition otlp_config :: Config where
  "otlp_config = small_config\<lparr>Sink := ''otlp''\<rparr>"

lemma otlp_parse: "Parse (sample_env ''spangen-2'') otlp_args = Some (Parsed otlp_config)"
proof -
  let ?E = "sample_env ''spangen-2''"
  let ?s = "on_gen (Workers_update (\<lambda>_. 1)) (on_gen (Rate_update (\<lambda>_. Finite 0)) (env_settings ?E))"
  have "parse_flags (flag_table ?E) [''-sink=otlp''] c = FlagsDone (on_cfg (Sink_update (\<lambda>_. ''otlp'')) c) []" for c
    using table.one_argument [OF sink_flag_facts(1), where v = "''otlp''" and args = "[]"]
    by (simp add: sink_flag_facts) (simp add: sink_flag_def parse_flags.simps [of _ "[]"] parseOne_def)
  moreover have "splitCSV ''localhost:9000'' = [''localhost:9000'']" "parseKV [] = Map.empty"
    by (simp_all add: splitCSV_def parseKV_def parseKV_step_def text_eval)
  then have "finish ?E (on_cfg (Sink_update (\<lambda>_. ''otlp'')) ?s) = Parsed otlp_config"
    by (simp add: finish_def default_settings update_defs Let_def otlp_config_def small_config_def default_config_def validate_def)
  ultimately show ?thesis
    by (simp add: Parse_eq Parse_from_def otlp_args_def small_flags)
qed

lemma mem_dial_up:
  "c_down w = [] \<Longrightarrow> \<exists>s' w'. dial_loop mem_grpc oc n s w = (Inr s', w') \<and> c_down w' = [] \<and> c_strict w' = c_strict w \<and> c_got w' = c_got w"
proof (induction n arbitrary: s w)
  case (Suc n)
  let ?c = "c_fresh w"
  from Suc.IH [of "c_tick (w\<lparr>c_live := ?c # c_live w\<rparr>)" "s\<lparr>otlp_conns := otlp_conns s @ [?c], clients := clients s @ [NewGRPCClient ?c]\<rparr>"] Suc.prems
  show ?case
    by (simp add: mem_grpc_def c_tick_def)
qed simp

lemma mem_NewOTLP_up:
  "c_down w = [] \<Longrightarrow> \<exists>s w'. NewOTLP mem_grpc c w = (Inr s, w') \<and> c_down w' = [] \<and> c_strict w' = c_strict w \<and> c_got w' = c_got w"
  unfolding NewOTLP_def Let_def by (rule mem_dial_up)

lemma otlp_start:
  obtains s reg e w1 where
    "main_start [] [] D mem_grpc (sample_env ''spangen-2'') otlp_args (coll0 [] []) = Some (Started (Some (OTLPSink s)) reg e, w1)"
    "c_down w1 = []" "c_strict w1 = []" "c_got w1 = []" "clients s \<noteq> []" "cfg e = otlp_config"
proof -
  obtain e where e: "New otlp_config = Some e"
    using New_defined [OF otlp_parse] small_services by (auto simp: otlp_config_def)
  obtain s w1 where s: "NewOTLP mem_grpc otlp_config (coll0 [] []) = (Inr s, w1)"
      "c_down w1 = []" "c_strict w1 = []" "c_got w1 = []"
    using mem_NewOTLP_up [of "coll0 [] []" otlp_config] by (auto simp: coll0_def)
  have "clients s \<noteq> []"
    using mem_coll.NewOTLP_live [OF s(1)] by auto
  have "open_sink D mem_grpc otlp_config (coll0 [] []) = Some (Inr (Some (OTLPSink s)), w1)"
    using s(1) by (simp add: open_sink_def otlp_config_def)
  moreover have "Metrics_New [] [] (Sink otlp_config) (ReplicaIndex otlp_config) = Some (own_descs (Sink otlp_config), metrics0)"
    using Metrics_New_defined [of "[]" "[]"] by (simp add: foreign_def)
  ultimately have "main_start [] [] D mem_grpc (sample_env ''spangen-2'') otlp_args (coll0 [] [])
      = Some (Started (Some (OTLPSink s)) (own_descs (Sink otlp_config)) e, w1)"
    by (simp add: main_start_def otlp_parse e)
  then show thesis
    using s(2-4) \<open>clients s \<noteq> []\<close> by (rule that) (rule New_fields(1) [OF e])
qed

section \<open>Small runs\<close>

lemma sample_lib: "lib_ok (xlib sample_externals)"
  using sample_runnable by (simp add: runnable_def)

definition one_worker :: "Config \<Rightarrow> bool" where
  "one_worker c \<longleftrightarrow> Workers (Gen c) = 1 \<and> MaxSpans (Gen c) = 0 \<and> \<not> f_less (Finite 0) (Rate (Gen c))"

lemma small_config_run: "one_worker small_config"
  by (simp add: one_worker_def small_config_def default_config_def)

lemma otlp_config_run: "one_worker otlp_config"
  using small_config_run by (simp add: one_worker_def otlp_config_def)

text \<open>A run that sends one batch without an error.\<close>

lemma small_run:
  assumes "Parse E args = Some (Parsed c)" and "New c = Some e0" and "one_worker c"
  obtains e ws td where "running sample_externals 4 c (e, ws)" and "quiet ws" and "sends e = [(td, True)]"
    and "SpansSent (met e) = max 0 (EffectiveBatchSize c)" and "SendErrors (met e) = 0"
proof -
  have run: "runnable sample_externals c"
    using Parsed_runnable [OF assms(1,2) sample_lib] .
  have c: "Workers (Gen c) = 1" "MaxSpans (Gen c) = 0" "\<not> f_less (Finite 0) (Rate (Gen c))"
    using assms(3) by (simp_all add: one_worker_def)
  obtain e ws td where r: "running sample_externals 4 c (e, ws)" "quiet ws" "sends e = [(td, True)]"
      "int (total_spans td) = max 0 (EffectiveBatchSize c)" "SendErrors (met e) = 0"
    using delivering_run [OF run c, where gmp = 4] by blast
  have "SpansSent (met e) = max 0 (EffectiveBatchSize c)"
    using run_sent(1) [OF run r(1,2)] r(3,4) by (simp add: delivered_def)
  with r that show thesis
    by blast
qed

text \<open>On servers that are up the system has every run of the engine.\<close>

lemma mem_system:
  assumes "running X gmp c (e, ws)" and "New c = Some e0" and "\<forall>x \<in> set (sends e). snd x" and "conns s0 \<noteq> []" and "m_down w0 = []"
  shows "\<exists>s w. (ch_system mem_drivers R X)\<^sup>*\<^sup>* (system_start gmp e0 s0 w0 PStart) (e, ws, s, w, map (\<lambda>_. PStart) ws)"
proof -
  have "\<exists>s' w' p. overlapping mem_drivers R sendCtx (s, w, [(td, PStart)]) (s', w', [(td, p)])
      \<and> ch_result p = Some None \<and> conns s' \<noteq> [] \<and> m_down w' = []" if up: "conns s \<noteq> [] \<and> m_down w = []" for td s w
  proof -
    obtain s' w' where "ch_Send mem_drivers R sendCtx td s w = Some (None, s', w')" "conns s' = conns s" "m_down w' = []"
      using mem_Send_up up by blast
    with Send_alone up show ?thesis
      by fastforce
  qed
  then show ?thesis
    using system_complete [OF assms(1-3), where up = "\<lambda>s w. conns s \<noteq> [] \<and> m_down w = []" and stp = "call_step mem_drivers R sendCtx"
        and init = PStart and result = ch_result and ?s0.0 = s0 and ?w0.0 = w0] assms(4,5) by blast
qed

lemma coll_system:
  assumes "running X gmp c (e, ws)" and "New c = Some e0" and "\<forall>x \<in> set (sends e). snd x"
    and "clients s0 \<noteq> []" and "c_down w0 = []" and "c_strict w0 = []"
  shows "\<exists>s w. (otlp_system mem_grpc X)\<^sup>*\<^sup>* (system_start gmp e0 s0 w0 OStart) (e, ws, s, w, map (\<lambda>_. OStart) ws)"
proof -
  let ?up = "\<lambda>s w. clients s \<noteq> [] \<and> c_down w = [] \<and> c_strict w = []"
  have "\<exists>s' w' p. otlp_overlapping mem_grpc sendCtx (s, w, [(td, OStart)]) (s', w', [(td, p)])
      \<and> otlp_result p = Some None \<and> ?up s' w'" if up: "?up s w" for td s w
  proof -
    obtain s' w' where "otlp_Send mem_grpc sendCtx td s w = Some (None, s', w')" "clients s' = clients s" "c_down w' = []" "c_strict w' = []"
      using coll_Send_up up by blast
    with otlp_Send_alone up show ?thesis
      by fastforce
  qed
  then show ?thesis
    using system_complete [OF assms(1-3), where up = ?up and stp = "otlp_step mem_grpc sendCtx"
        and init = OStart and result = otlp_result and ?s0.0 = s0 and ?w0.0 = w0] assms(4-6) by blast
qed

section \<open>The end of a run\<close>

text \<open>
  C16. A cancelled run on the ClickHouse sink ends: \<open>work\<close>, at most 19 for every worker and one for every span in hand, is
  lowered by every step of a worker or of a call of \<open>Send\<close>, and raised by none (a tick of the ramp or the sampler leaves
  the workers and the calls as they are); as long as a worker has not returned, a step that lowers it is possible.
\<close>

theorem run_ends:
  assumes "runnable X c" and "waitN_ok X" and "waitN_answers X"
    and "(word_of_int (EffectiveBatchSize c * 20) :: u64) \<noteq> 0" and "0 \<le> EffectiveBatchSize c"
    and "New c = Some e0" and "conns s0 \<noteq> []"
    and "(ch_system D R X)\<^sup>*\<^sup>* (system_start gmp e0 s0 w0 PStart) (e, ws, s, w, ps)" and "cancelled e"
  shows "work steps_left PStart ws ps \<le> (\<Sum>v \<leftarrow> ws. 19 + total_spans (w_td v))
     \<and> (\<forall>e' ws' s' w' ps'. ch_system D R X (e, ws, s, w, ps) (e', ws', s', w', ps') \<longrightarrow> cancelled e'
          \<and> (work steps_left PStart ws' ps' < work steps_left PStart ws ps \<or> ws' = ws \<and> s' = s \<and> w' = w \<and> ps' = ps))
     \<and> (quiet ws \<or> (\<exists>e' ws' s' w' ps'. ch_system D R X (e, ws, s, w, ps) (e', ws', s', w', ps')
          \<and> work steps_left PStart ws' ps' < work steps_left PStart ws ps))"
proof -
  have "conns s = conns s0"
    using assms(8) by (rule system_start_same [where f = "\<lambda>s w. conns s"]) (simp add: call_sink)
  then have "\<forall>td p. ch_result p = None \<longrightarrow> call_step D R sendCtx td p s w \<noteq> None"
    using assms(7) by (intro allI impI call_enabled) (auto simp: returned_def split: send_pc.splits)
  note ends = ch_bounded.system_ends [OF this assms(1-6,8,9)]
  have "(\<Sum>v \<leftarrow> ws. 16 + steps_left (w_td v, PStart)) = (\<Sum>v \<leftarrow> ws. 19 + total_spans (w_td v))"
    by simp
  with ends show ?thesis
    by (intro conjI) (simp only:)+
qed

lemma run_ends_witness:
  "\<exists>e0 e v s w ps. New small_config = Some e0
     \<and> (ch_system mem_drivers sample_readers sample_externals)\<^sup>*\<^sup>* (system_start 4 e0 small_sink (mem0 []) PStart) (e, [v], s, w, ps)
     \<and> cancelled e \<and> in_attempt (w_pc v)
     \<and> (\<exists>e' ws' s' w' ps'. ch_system mem_drivers sample_readers sample_externals (e, [v], s, w, ps) (e', ws', s', w', ps')
          \<and> work steps_left PStart ws' ps' < work steps_left PStart [v] ps)"
proof -
  obtain e0 where new: "New small_config = Some e0"
    using New_defined [OF small_parse] small_services by blast
  have run: "runnable sample_externals small_config"
    by (rule Parsed_runnable [OF small_parse new sample_lib])
  have c: "Workers (Gen small_config) = 1" "MaxSpans (Gen small_config) = 0" "\<not> f_less (Finite 0) (Rate (Gen small_config))"
    using small_config_run by (simp_all add: one_worker_def)
  obtain e v where v: "running sample_externals 4 small_config (e, [v])" "in_attempt (w_pc v)" "\<not> crashed e" "sends e = []"
    using first_attempt [OF run c, where gmp = 4] by (metis in_attempt.simps(1))
  let ?e = "e\<lparr>cancelled := True\<rparr>"
  have stopped: "running sample_externals 4 small_config (?e, [v])"
    using v(1) by (rule reach_step) (rule step.cancel [OF v(3)])
  have up: "conns small_sink \<noteq> []"
    by (simp add: small_sink_def)
  obtain s w where sys: "(ch_system mem_drivers sample_readers sample_externals)\<^sup>*\<^sup>* (system_start 4 e0 small_sink (mem0 []) PStart)
      (?e, [v], s, w, map (\<lambda>_. PStart) [v])"
    using mem_system [OF stopped new _ up mem0_up, of sample_readers] v(4) by auto
  have batch: "(word_of_int (EffectiveBatchSize small_config * 20) :: u64) \<noteq> 0" "0 \<le> EffectiveBatchSize small_config"
    by (simp_all add: EffectiveBatchSize_def small_config_def default_config_def)
  have "waitN_answers sample_externals"
    unfolding waitN_answers_def sample_externals_def by simp (rule exI [of _ False], simp)
  note ends = run_ends [OF run sample_waitN this batch new up sys]
  have stop: "cancelled ?e" and "\<not> quiet [v]"
    using v(2) by (auto simp: quiet_def)
  then have "\<exists>e' ws' s' w' ps'. ch_system mem_drivers sample_readers sample_externals (?e, [v], s, w, map (\<lambda>_. PStart) [v]) (e', ws', s', w', ps')
      \<and> work steps_left PStart ws' ps' < work steps_left PStart [v] (map (\<lambda>_. PStart) [v])"
    using ends [OF stop] by (elim conjE disjE) (rule notE, assumption+)
  with sys v(2) stop(1) have "\<exists>e v s w ps. (ch_system mem_drivers sample_readers sample_externals)\<^sup>*\<^sup>* (system_start 4 e0 small_sink (mem0 []) PStart) (e, [v], s, w, ps)
     \<and> cancelled e \<and> in_attempt (w_pc v)
     \<and> (\<exists>e' ws' s' w' ps'. ch_system mem_drivers sample_readers sample_externals (e, [v], s, w, ps) (e', ws', s', w', ps')
          \<and> work steps_left PStart ws' ps' < work steps_left PStart [v] ps)"
    by meson
  with new show ?thesis
    by blast
qed

text \<open>The same on the OTLP sink.\<close>

lemma otlp_run_ends:
  assumes "runnable X c" and "waitN_ok X" and "waitN_answers X"
    and "(word_of_int (EffectiveBatchSize c * 20) :: u64) \<noteq> 0" and "0 \<le> EffectiveBatchSize c"
    and "New c = Some e0" and "clients s0 \<noteq> []"
    and "(otlp_system G X)\<^sup>*\<^sup>* (system_start gmp e0 s0 w0 OStart) (e, ws, s, w, ps)" and "cancelled e"
  shows "quiet ws \<or> (\<exists>e' ws' s' w' ps'. otlp_system G X (e, ws, s, w, ps) (e', ws', s', w', ps')
     \<and> work otlp_steps_left OStart ws' ps' < work otlp_steps_left OStart ws ps)"
proof -
  have "clients s = clients s0"
    using assms(8) by (rule system_start_same [where f = "\<lambda>s w. clients s"]) (erule otlp_step_cases; simp add: otlp_pick_fields)
  then have "\<forall>td p. otlp_result p = None \<longrightarrow> otlp_step G sendCtx td p s w \<noteq> None"
    using assms(7) by (intro allI impI otlp_enabled) simp_all
  from otlp_bounded.system_ends(3) [OF this assms(1-6,8,9)] show ?thesis
    by blast
qed

end
