(* ===== verification/Spec2Isabelle.thy ===== *)
theory Spec2Isabelle
  imports ConfigProps ConfigParseProps CatalogProps GeneratorProps EngineProps RampProps ChProps OtlpProps Status Startup Delivery Overlap System Program
begin

text \<open>
  Spangen is a load generator for OpenTelemetry traces. One process builds a catalog of synthetic services
  from a seed, runs a number of worker goroutines that each generate batches of spans from it, and delivers
  the batches at a configured rate to ClickHouse (native or HTTP protocol) or to an OTLP collector. This
  development models that program, \<open>src/internal\<close> and \<open>src/cmd\<close>, and states what makes it correct.

  \<^bold>\<open>Foundations.\<close> \<open>Prelude\<close>: machine integers as words, panics as \<^term>\<open>None\<close> with a small calculus of
  weakest preconditions (\<open>opost\<close>), checked slice indexing. \<open>GoText\<close>: byte strings, decimal numbers, \<open>strings.Split\<close>
  and \<open>TrimSpace\<close>, hexadecimal. \<open>GoRand\<close>: the PCG source of \<open>math/rand/v2\<close> and the methods of \<open>rand.Rand\<close> that the
  program calls. \<open>GoFloat\<close>: binary64 arithmetic as exact rationals rounded to nearest even; infinities and NaN
  do not occur in the code's computations. \<open>GoNumber\<close>: the texts of numbers and durations (\<open>ParseInt\<close>, \<open>ParseUint\<close>,
  \<open>ParseFloat\<close> with infinities and NaN, \<open>ParseDuration\<close>) with the ranges of their results. \<open>GoFlag\<close>: the part of the
  \<open>flag\<close> package that the program uses, with two interfaces, \<open>settings_invariant\<close> (what every flag keeps, the command
  line keeps) and \<open>independent_flags\<close> (flags that set different fields).

  \<^bold>\<open>Configuration\<close>, \<open>internal/config/config.go\<close>: \<open>Config\<close> holds the records, \<open>validate\<close>, the environment helpers
  for strings, ints and bools, the list and key-value parsers, the replica index and the host id;
  \<open>ConfigProps\<close> what they guarantee (validation accepts exactly the valid configurations, round trips of the
  parsers, ranges and injectivity of the ids). \<open>ConfigParse\<close> is \<open>Parse\<close>: the table of the 40 flags, the command line, and
  the derived settings; \<open>FlagTable\<close> interprets the two interfaces of \<open>GoFlag\<close> on that table and relates each flag to its
  variable; \<open>ConfigParseProps\<close> shows that \<open>Parse\<close> returns well-typed configurations, what its defaults are, and that
  variables and flags are interchangeable, flags first.

  \<^bold>\<open>Catalog and generator\<close>, \<open>internal/model\<close>: \<open>Catalog\<close> is \<open>BuildCatalog\<close> with its loops in the code's order;
  \<open>CatalogProps\<close> shows well-formedness, distinct names and an acyclic call graph. \<open>Pdata\<close> is the message tree of
  the OpenTelemetry library as records; a span holds what the program set. \<open>Generator\<close> is \<open>FillBatch\<close>,
  \<open>genTrace\<close>, \<open>addChildren\<close> and the emission of a span, over an explicit generator state; the recursion is on
  the depth bound of the code. \<open>GeneratorTiming\<close> and \<open>GeneratorInv\<close> carry the invariants (counts, trees, nesting
  in time, one entry per service), \<open>GeneratorProps\<close> the properties.

  \<^bold>\<open>Engine\<close>, \<open>internal/generate/engine.go\<close>: \<open>Engine\<close> is \<open>New\<close>, \<open>seedFor\<close>, the ramp and the rate sampler, and a run as
  a step relation: a worker is a program counter, a generator and a batch, and every atomic access to
  shared state is one step, so that the workers interleave freely. \<open>EngineInv\<close> states inductive invariants
  by the locale \<open>run_invariant\<close> and interprets it for each (conservation of spans, agreement of the metrics, the
  span cap, liveness of the workers); \<open>EngineProps\<close> and \<open>RampProps\<close> draw the properties from them.
  \<open>Status\<close> is the goroutine \<open>logStatus\<close>, load by load beside the run, and what its lines say. A call of the
  sink is one step with either outcome, \<open>Limiter.WaitN\<close> a relation that may block.

  \<^bold>\<open>Sinks\<close>, \<open>internal/sink\<close>: \<open>Sink\<close> has the contract \<open>round_robin\<close> of the choice of a connection. \<open>Interleave\<close> has calls of
  \<open>Send\<close> that overlap in time, over any sink: the contract \<open>overlapping_calls\<close> of a single step of a call, from which the
  contents of the backend follow at every moment (\<open>overlap_inv\<close>), and \<open>overlapping_picks\<close> for the rotation; both sinks
  provide all three. \<open>ChRows\<close> is the mapping of spans to
  rows in the two schemas, the JSON text of attributes and the INSERT statement; \<open>ChRowsProps\<close> shows that rows fit
  the statement and keep the ids, \<open>ChJson\<close> that a decoder reads the JSON back. \<open>ClickHouse\<close> is the constructor, the
  two protocols behind \<open>chConn\<close> and \<open>chBatch\<close>, \<open>Send\<close> and \<open>Close\<close>. \<open>ChLaws\<close> has the contract \<open>batch_api\<close> of these interfaces,
  the laws of the two client libraries (\<open>native_driver\<close>, \<open>sql_driver\<close>), from which the contract follows for both
  protocols, the contract \<open>connections\<close> of opening and closing, and a server in memory that satisfies them all;
  \<open>ChProps\<close> the properties. \<open>ChConcurrent\<close> takes \<open>Send\<close> apart into its calls of \<open>pick\<close>, \<open>chConn\<close> and \<open>chBatch\<close>, shows that
  they are \<open>Send\<close> when nothing overlaps, and derives \<open>overlapping_calls\<close> from the laws \<open>isolated\<close> (batches do not disturb
  each other); \<open>Overlap\<close> has the properties. \<open>Otlp\<close> is the OTLP sink with the contract \<open>collector\<close>, \<open>OtlpProps\<close> its
  properties, \<open>OtlpConcurrent\<close> its overlapping calls.

  \<^bold>\<open>Metrics and start\<close>, \<open>internal/metrics/metrics.go\<close> and \<open>cmd/spangen/main.go\<close>: \<open>Registry\<close> is the registration of the
  collectors, \<open>Startup\<close> the interface value of the sink, \<open>main\<close> up to the start of the engine and its deferred \<open>Close\<close>.

  \<^bold>\<open>The program\<close>: \<open>System\<close> puts the engine and a sink together: a worker inside \<open>send\<close> takes its call through the steps
  of the sink, and the steps of all workers and calls interleave. Every run of this system is one of \<open>Engine\<close>
  (\<open>system_runs\<close>), so all that holds of the engine holds of it; if the sink can succeed, every run of \<open>Engine\<close> without a
  failed call is one of the system (\<open>system_complete\<close>); and the backend has what the metrics report as sent
  (\<open>system_delivers\<close>). \<open>Shutdown\<close> bounds what is left of a cancelled run (\<open>work\<close>) by the contract \<open>bounded_calls\<close>. \<open>Delivery\<close>,
  \<open>Program\<close> and this theory compose the parts: \<open>program_delivers\<close> and \<open>program_collects\<close> go from the arguments of the
  process to the closed connections, for either sink, and \<open>run_ends\<close> shows that the run does end.

  \<^bold>\<open>Libraries as parameters.\<close> Code outside the repository is a record of functions with named laws: \<open>lib\<close> and \<open>lib_ok\<close>
  (normal deviates, \<open>math.Exp\<close>, clock, map order, pdata), \<open>externals\<close> (the rate limiter), \<open>readers\<close> (pdata's readers),
  \<open>drivers\<close> (clickhouse-go and \<open>database/sql\<close>), \<open>grpc\<close> (gRPC and the collector), the descriptors of Prometheus's standard
  collectors. Every property with such a law has a witness in which the law holds.

  \<^bold>\<open>Atomic steps.\<close> In \<open>Engine\<close> a call of \<open>Send\<close> is one step with either outcome; \<open>System\<close> refines it to one step per call
  of \<open>pick\<close>, of a connection, of a batch or of \<open>Export\<close>, and allows every interleaving of them. The two calls to
  \<open>database/sql\<close> inside \<open>httpConn.newBatch\<close> and inside \<open>httpBatch.Send\<close> and \<open>Abort\<close> are one step.

  \<^bold>\<open>Bounds and fuel.\<close> No model uses fuel: the loops recurse on their data or on a counter of the code, and their
  termination is proved. Words have the code's widths; \<open>int\<close> values of the code that cannot leave 64 bits are
  integers, with the bound as a hypothesis where it matters.

  \<^bold>\<open>Not modelled.\<close> The usage texts of the flags; what a run does with an infinite or NaN rate (\<open>Parse\<close> tells such a
  configuration apart); log output other than the figures of \<open>logStatus\<close>; the HTTP endpoint of the metrics; signals and timers other
  than as steps that may happen at any time; the durations that the send histogram observes (their number is kept);
  deployment files.
\<close>

section \<open>The program\<close>

text \<open>
  C1. From the arguments to the end, on the ClickHouse sink, unless asynchronous inserts are configured not to be waited
  for (the laws of the client library are promised only then): if \<open>main\<close> gets as far as running the engine, then at every
  moment of the run, however the steps of the workers and of their calls of \<open>Send\<close> interleave, the table has grown by at
  least the spans that the metric counts as sent, and has the rows of every batch for which \<open>Send\<close> returned nil;
  when the workers have returned, it has grown by exactly that many if no call failed, and the deferred
  \<open>Close\<close> leaves exactly the connections open that were open before the program started.
\<close>

theorem program_delivers:
  assumes "waits (buildSettings (CH (cfg e0))) \<longrightarrow> isolated D tab npend tpend"
    and "Async (CH (cfg e0)) \<longrightarrow> WaitForAsync (CH (cfg e0))"
    and "connections_held D live" and "lib_ok (xlib X)"
    and "main_start go prc D G E args w = Some (Started (Some (ClickHouseSink s)) reg e0, w1)"
    and "(ch_system D R X)\<^sup>*\<^sup>* (system_start gmp e0 s w1 PStart) (e, ws, s', w2, ps)"
  shows "int (length (tab w1)) + SpansSent (met e) \<le> int (length (tab w2))
     \<and> (\<forall>td. (td, True) \<in> set (sends e) \<longrightarrow> mset (batch_rows R s td) \<subseteq># mset (tab w2))
     \<and> (quiet ws \<longrightarrow>
          (SendErrors (met e) = 0 \<longrightarrow> int (length (tab w2)) = int (length (tab w1)) + SpansSent (met e))
          \<and> (\<exists>err w3. main_end D G (Some (ClickHouseSink s')) w2 = Some (err, w3) \<and> live w3 = live w))"
proof -
  note start = main_started [OF assms(5)]
  have iso: "isolated D tab npend tpend"
    using assms(1,2) waits_buildSettings by blast
  have conn: "connections D live"
    using assms(3) by (rule connections_held.axioms(1))
  have run: "runnable X (cfg e0)" and new: "New (cfg e0) = Some e0"
    using start Parsed_runnable [OF _ _ assms(4)] by blast+
  then have opened: "live w1 - set (conns s) = live w"
    using opened_clickhouse [OF conn, of G "cfg e0" w s w1] start by (simp add: runnable_def)
  have "conns s' = conns s" "live w2 = live w1"
    using connections_held.system_live [OF assms(3,6)] by simp_all
  then have "live (snd (ch_Close D s' w2)) = live w"
    using connections.close_conns_live [OF conn] opened by (simp add: ch_Close_def)
  then have "\<exists>err w3. main_end D G (Some (ClickHouseSink s')) w2 = Some (err, w3) \<and> live w3 = live w"
    by (cases "ch_Close D s' w2") (simp add: main_end_def)
  with overlapping_calls.system_delivers [OF isolated.ch_calls_axioms [OF iso] run new assms(6)] show ?thesis
    by simp
qed

lemma program_delivers_witness:
  "\<forall>G. \<exists>reg e0 w1 e ws s' w2 ps.
     main_start [] [] mem_drivers G (sample_env ''spangen-2'') small_args (mem0 []) = Some (Started (Some (ClickHouseSink small_sink)) reg e0, w1)
     \<and> (ch_system mem_drivers sample_readers sample_externals)\<^sup>*\<^sup>* (system_start 4 e0 small_sink w1 PStart) (e, ws, s', w2, ps)
     \<and> SpansSent (met e) = 5000 \<and> length (m_table w2) = 5000"
proof
  fix G :: "mem grpc"
  obtain reg e0 w1 where start: "main_start [] [] mem_drivers G (sample_env ''spangen-2'') small_args (mem0 [])
        = Some (Started (Some (ClickHouseSink small_sink)) reg e0, w1)"
      "m_down w1 = []" "m_table w1 = []" "cfg e0 = small_config"
    by (rule small_start)
  have batch: "EffectiveBatchSize small_config = 5000"
    by (simp add: small_config_def default_config_def EffectiveBatchSize_def)
  have new: "New small_config = Some e0"
    using main_started [OF start(1)] start(4) by simp
  obtain e ws td where r: "running sample_externals 4 small_config (e, ws)" "quiet ws" "sends e = [(td, True)]"
      "SpansSent (met e) = 5000" "SendErrors (met e) = 0"
    using small_run [OF small_parse new small_config_run] batch by auto
  obtain s' w2 where sys: "(ch_system mem_drivers sample_readers sample_externals)\<^sup>*\<^sup>* (system_start 4 e0 small_sink w1 PStart)
      (e, ws, s', w2, map (\<lambda>_. PStart) ws)"
    using mem_system [OF r(1) new _ _ start(2), of small_sink sample_readers] r(3) by (auto simp: small_sink_def)
  have "Async (CH (cfg e0)) \<longrightarrow> WaitForAsync (CH (cfg e0))"
    by (simp add: start(4) small_config_def default_config_def)
  from program_delivers [OF impI [OF mem_iso.isolated_axioms] this mem_held.connections_held_axioms sample_lib start(1) sys] r(2,4,5)
  have "length (m_table w2) = 5000"
    by (simp add: start(3))
  then show "\<exists>reg e0 w1 e ws s' w2 ps.
     main_start [] [] mem_drivers G (sample_env ''spangen-2'') small_args (mem0 []) = Some (Started (Some (ClickHouseSink small_sink)) reg e0, w1)
     \<and> (ch_system mem_drivers sample_readers sample_externals)\<^sup>*\<^sup>* (system_start 4 e0 small_sink w1 PStart) (e, ws, s', w2, ps)
     \<and> SpansSent (met e) = 5000 \<and> length (m_table w2) = 5000"
    using start(1) r(4) sys by (intro exI conjI) (assumption | simp)+
qed

text \<open>
  C2. The same on the OTLP sink: at every moment the collector has accepted at least the spans that the metric counts
  as sent, and every span of every batch for which \<open>Send\<close> returned nil; when the workers have returned, exactly
  that many if no call failed, and the deferred \<open>Close\<close> leaves the client connections as they were before the
  program started.
\<close>

theorem program_collects:
  assumes "collector_held G got live" and "lib_ok (xlib X)"
    and "main_start go prc D G E args w = Some (Started (Some (OTLPSink s)) reg e0, w1)"
    and "(otlp_system G X)\<^sup>*\<^sup>* (system_start gmp e0 s w1 OStart) (e, ws, s', w2, ps)"
  shows "int (length (got w1)) + SpansSent (met e) \<le> int (length (got w2))
     \<and> (\<forall>td. (td, True) \<in> set (sends e) \<longrightarrow> mset (all_spans td) \<subseteq># mset (got w2))
     \<and> (quiet ws \<longrightarrow>
          (SendErrors (met e) = 0 \<longrightarrow> int (length (got w2)) = int (length (got w1)) + SpansSent (met e))
          \<and> (\<exists>err w3. main_end D G (Some (OTLPSink s')) w2 = Some (err, w3) \<and> live w3 = live w))"
proof -
  note start = main_started [OF assms(3)]
  have coll: "collector G got live"
    using assms(1) by (rule collector_held.axioms(1))
  have run: "runnable X (cfg e0)" and new: "New (cfg e0) = Some e0"
    using start Parsed_runnable [OF _ _ assms(2)] by blast+
  have "live w1 - set (otlp_conns s) = live w"
    using opened_otlp [OF coll] start by blast
  moreover have "live w2 = live w1 \<and> otlp_conns s' = otlp_conns s"
    using system_start_same [OF assms(4), where f = "\<lambda>s w. (live w, otlp_conns s)"] collector_held.otlp_step_live [OF assms(1)] by simp
  ultimately have "live (snd (otlp_Close G s' w2)) = live w"
    using collector.closeConns_live [OF coll] by (simp add: otlp_Close_def)
  then have "\<exists>err w3. main_end D G (Some (OTLPSink s')) w2 = Some (err, w3) \<and> live w3 = live w"
    by (cases "otlp_Close G s' w2") (simp add: main_end_def)
  with overlapping_calls.system_delivers [OF collector.otlp_calls_axioms [OF coll] run new assms(4)] show ?thesis
    by simp
qed

lemma program_collects_witness:
  "\<forall>D. \<exists>s reg e0 w1 e ws s' w2 ps.
     main_start [] [] D mem_grpc (sample_env ''spangen-2'') otlp_args (coll0 [] []) = Some (Started (Some (OTLPSink s)) reg e0, w1)
     \<and> (otlp_system mem_grpc sample_externals)\<^sup>*\<^sup>* (system_start 4 e0 s w1 OStart) (e, ws, s', w2, ps)
     \<and> SpansSent (met e) = 2000 \<and> length (c_got w2) = 2000"
proof
  fix D :: "coll drivers"
  obtain s reg e0 w1 where start: "main_start [] [] D mem_grpc (sample_env ''spangen-2'') otlp_args (coll0 [] [])
        = Some (Started (Some (OTLPSink s)) reg e0, w1)"
      "c_down w1 = []" "c_strict w1 = []" "c_got w1 = []" "clients s \<noteq> []" "cfg e0 = otlp_config"
    by (rule otlp_start)
  have batch: "EffectiveBatchSize otlp_config = 2000"
    by (simp add: otlp_config_def small_config_def default_config_def EffectiveBatchSize_def)
  have new: "New otlp_config = Some e0"
    using main_started [OF start(1)] start(6) by simp
  obtain e ws td where r: "running sample_externals 4 otlp_config (e, ws)" "quiet ws" "sends e = [(td, True)]"
      "SpansSent (met e) = 2000" "SendErrors (met e) = 0"
    using small_run [OF otlp_parse new otlp_config_run] batch by auto
  obtain s' w2 where sys: "(otlp_system mem_grpc sample_externals)\<^sup>*\<^sup>* (system_start 4 e0 s w1 OStart)
      (e, ws, s', w2, map (\<lambda>_. OStart) ws)"
    using coll_system [OF r(1) new _ start(5,2,3)] r(3) by auto
  from program_collects [OF mem_coll_held.collector_held_axioms sample_lib start(1) sys] r(2,4,5)
  have "length (c_got w2) = 2000"
    by (simp add: start(4))
  then show "\<exists>s reg e0 w1 e ws s' w2 ps.
     main_start [] [] D mem_grpc (sample_env ''spangen-2'') otlp_args (coll0 [] []) = Some (Started (Some (OTLPSink s)) reg e0, w1)
     \<and> (otlp_system mem_grpc sample_externals)\<^sup>*\<^sup>* (system_start 4 e0 s w1 OStart) (e, ws, s', w2, ps)
     \<and> SpansSent (met e) = 2000 \<and> length (c_got w2) = 2000"
    using start(1) r(4) sys by (intro exI conjI) (assumption | simp)+
qed

section \<open>Traces in the table\<close>

text \<open>
  C33. The rows of a generated batch form whole traces, in both schemas: the \<open>ParentSpanId\<close> of a row is empty,
  or it is the \<open>SpanId\<close> of a row of the same batch with the same \<open>TraceId\<close>; the batch has as many rows as
  were asked for.
\<close>

theorem rows_form_traces:
  assumes "gen_ok L g" and "FillBatch L g [] target = Some (n, g', td)" and "\<And>b. emptyID R b \<longleftrightarrow> (\<forall>x \<in> set b. x = 0)"
  shows "int (length (rows_of R json td)) = max 0 target
     \<and> (\<forall>r \<in> set (rows_of R json td). r ! 3 = CStr []
          \<or> (\<exists>p \<in> set (rows_of R json td). r ! 3 = p ! 2 \<and> r ! 1 = p ! 1))"
proof -
  have "int (total_spans td) = max 0 target"
    using FillBatch_counts [OF assms(1), of target] assms(2) by auto
  moreover have "r ! 3 = CStr [] \<or> (\<exists>p \<in> set (rows_of R json td). r ! 3 = p ! 2 \<and> r ! 1 = p ! 1)"
    if r: "r \<in> set (rows_of R json td)" for r
  proof -
    obtain sp where sp: "sp \<in> set (all_spans td)" "r ! 1 = CStr (traceHex R (traceID sp))"
        "r ! 3 = CStr (spanHex R (parentSpanID sp))"
      using row_of_span [OF r] by blast
    from batch_parent [OF assms(1,2) sp(1)] show ?thesis
    proof
      assume "parentSpanID sp = zeroSpanID"
      with sp(3) assms(3) show ?thesis
        by (simp add: spanHex_def zeroSpanID_def)
    next
      assume "\<exists>p \<in> set (all_spans td). traceID sp = traceID p \<and> parentSpanID sp = spanID p"
      then obtain p q where "p \<in> set (all_spans td)" "traceID sp = traceID p" "parentSpanID sp = spanID p"
          "q \<in> set (rows_of R json td)" "q ! 1 = CStr (traceHex R (traceID p))" "q ! 2 = CStr (spanHex R (spanID p))"
        using span_has_row by blast
      with sp show ?thesis
        by metis
    qed
  qed
  ultimately show ?thesis
    by (simp add: length_rows_of)
qed

lemma rows_form_traces_witness:
  "\<exists>g n g' td. FillBatch sample_lib g [] 12 = Some (n, g', td) \<and> length (rows_of sample_readers True td) = 12"
proof -
  obtain c g td where b: "gen_ok sample_lib (sample_gen c)" "FillBatch sample_lib (sample_gen c) [] 12 = Some (12, g, td)"
    by (rule sample_batch)
  have "\<And>b. emptyID sample_readers b \<longleftrightarrow> (\<forall>x \<in> set b. x = 0)"
    by (simp add: sample_readers_def list_all_iff)
  from rows_form_traces [OF b this, of True] have "length (rows_of sample_readers True td) = 12"
    by simp
  with b(2) show ?thesis
    by blast
qed

end
